(* ===== verification/Prelude.thy ===== *)
theory Prelude
  imports Main "HOL-Library.Word" "HOL-Library.Signed_Division"
begin

text \<open>
  What every component shares.

  \<^item> Outcomes. A C function of the kernel may return, may never return (a polling loop, a
    search that finds nothing, a spin lock that is held) or may leave the objects it is allowed
    to touch (an index past an array). \<open>'a res\<close> keeps the three apart: \<open>ok x\<close>, \<open>hang\<close> and
    \<open>fail e\<close>. \<open>bind_res\<close> is the semicolon.
  \<^item> Loops. \<open>for_range lo hi body\<close> is \<open>for (i = lo; i < hi; i++)\<close>; \<open>for_exit\<close> is the same
    loop with a \<open>return\<close> or \<open>break\<close> in its body. A loop with no bound in the code is a
    \<^theory_text>\<open>partial_function (option)\<close> in its component, with \<open>hang\<close> for not returning.
  \<^item> Words and rings. The widths the kernel uses, and arithmetic of positions on a ring.
\<close>

unbundle bit_operations_syntax

type_synonym u8 = "8 word"
type_synonym u16 = "16 word"
type_synonym u32 = "32 word"

named_theorems res_simps \<open>evaluation of outcomes and of the bounded loops\<close>
named_theorems word_facts \<open>the values of 8-bit and 32-bit words read as numbers\<close>

text \<open>A byte that is widened to a register and cut again.\<close>

lemma char_byte: "ucast (scast (c :: u8) :: u32) = c"
proof -
  have seven: "i = 7" if "7 \<le> i" "i < 8" for i :: nat using that by linarith
  show ?thesis by (intro bit_word_eqI) (auto simp: bit_simps min_def dest: seven)
qed

text \<open>The first number with a property.\<close>

lemma first_nat:
  assumes "P (n :: nat)"
  obtains k where "P k" and "\<forall>j < k. \<not> P j"
  using assms exists_least_iff [of P] by blast

text \<open>Positions on a ring of \<open>n\<close> places.\<close>

lemma mod_add_left_cancel:
  fixes a r r' n :: nat
  assumes "(a + r) mod n = (a + r') mod n"
  shows "r mod n = r' mod n"
proof -
  from assms have "int (a + r) mod int n = int (a + r') mod int n"
    by (simp only: flip: zmod_int)
  then have "int r mod int n = int r' mod int n"
    by (simp add: mod_eq_dvd_iff)
  then show ?thesis by (simp flip: zmod_int)
qed

lemma Suc_mod_ring: "(x :: nat) < n \<Longrightarrow> Suc x mod n = (if Suc x = n then 0 else Suc x)"
  by auto

section \<open>Outcomes\<close>

datatype fault = Read_oob | Write_oob | Bad_vararg

type_synonym 'a res = "(fault + 'a) option"

abbreviation ok :: "'a \<Rightarrow> 'a res" where
  "ok x \<equiv> Some (Inr x)"

abbreviation fail :: "fault \<Rightarrow> 'a res" where
  "fail e \<equiv> Some (Inl e)"

abbreviation hang :: "'a res" where
  "hang \<equiv> None"

definition bind_res :: "'a res \<Rightarrow> ('a \<Rightarrow> 'b res) \<Rightarrow> 'b res" where
  "bind_res m f =
     (case m of None \<Rightarrow> None
      | Some r \<Rightarrow> (case r of Inl e \<Rightarrow> Some (Inl e) | Inr x \<Rightarrow> f x))"

lemma bind_res_simps [simp, res_simps]:
  "bind_res None f = None"
  "bind_res (Some (Inl e)) f = Some (Inl e)"
  "bind_res (Some (Inr x)) f = f x"
  by (simp_all add: bind_res_def)

lemma bind_res_cong [fundef_cong]:
  assumes "m = m'" and "\<And>x. m' = ok x \<Longrightarrow> f x = f' x"
  shows "bind_res m f = bind_res m' f'"
  using assms by (auto simp: bind_res_def split: option.split sum.split)

lemma bind_res_assoc: "bind_res (bind_res m f) g = bind_res m (\<lambda>x. bind_res (f x) g)"
  by (auto simp: bind_res_def split: option.split sum.split)

lemma bind_res_ok [simp]: "bind_res m (\<lambda>x. ok x) = m"
  by (auto simp: bind_res_def split: option.split sum.split)

lemma bind_res_eq_ok:
  "bind_res m f = ok y \<longleftrightarrow> (\<exists>x. m = ok x \<and> f x = ok y)"
  by (auto simp: bind_res_def split: option.split sum.split)

lemma bind_res_okE [elim]:
  assumes "bind_res m f = ok y"
  obtains x where "m = ok x" and "f x = ok y"
  using assms by (auto simp: bind_res_eq_ok)

lemma bind_res_mono [partial_function_mono]:
  fixes B :: "('x \<Rightarrow> 'y option) \<Rightarrow> 'a res" and C :: "'a \<Rightarrow> ('x \<Rightarrow> 'y option) \<Rightarrow> 'b res"
  assumes m: "mono_option B" and f: "\<And>y. mono_option (\<lambda>g. C y g)"
  shows "mono_option (\<lambda>g. bind_res (B g) (\<lambda>y. C y g))"
proof (rule monotoneI)
  fix g h :: "'x \<Rightarrow> 'y option"
  assume gh: "fun_ord option_ord g h"
  have B: "option_ord (B g) (B h)"
    using m gh by (simp add: monotone_on_def)
  have C: "option_ord (C y g) (C y h)" for y
    using f [of y] gh by (simp add: monotone_on_def)
  show "option_ord (bind_res (B g) (\<lambda>y. C y g)) (bind_res (B h) (\<lambda>y. C y h))"
  proof (cases "B g")
    case None
    then show ?thesis by (simp add: flat_ord_def)
  next
    case (Some r)
    with B have "B h = Some r" by (simp add: flat_ord_def)
    with Some C show ?thesis by (cases r) (simp_all add: flat_ord_def)
  qed
qed

text \<open>An outcome that is not a fault: the function returns, or it never does.\<close>

definition no_fault :: "'a res \<Rightarrow> bool" where
  "no_fault m \<longleftrightarrow> (\<forall>e. m \<noteq> fail e)"

lemma no_fault_simps [simp, res_simps]:
  "no_fault (ok x)" "no_fault hang" "\<not> no_fault (fail e)"
  by (simp_all add: no_fault_def)

lemma no_fault_bind:
  "no_fault m \<Longrightarrow> (\<And>x. m = ok x \<Longrightarrow> no_fault (f x)) \<Longrightarrow> no_fault (bind_res m f)"
  by (auto simp: bind_res_def no_fault_def split: option.split sum.split)

section \<open>Bounded loops\<close>

fun fold_res :: "('i \<Rightarrow> 's \<Rightarrow> 's res) \<Rightarrow> 'i list \<Rightarrow> 's \<Rightarrow> 's res" where
  "fold_res body [] s = ok s"
| "fold_res body (i # is) s = bind_res (body i s) (fold_res body is)"

definition for_range :: "nat \<Rightarrow> nat \<Rightarrow> (nat \<Rightarrow> 's \<Rightarrow> 's res) \<Rightarrow> 's \<Rightarrow> 's res" where
  "for_range lo hi body s = fold_res body [lo..<hi] s"

lemma bind_fold_res_Nil [simp, res_simps]: "bind_res m (fold_res body []) = m"
  by (auto simp: bind_res_def split: option.split sum.split)

lemma fold_res_single [simp, res_simps]: "fold_res body [x] = body x"
  by (rule ext) simp

lemma fold_res_append:
  "fold_res body (xs @ ys) s = bind_res (fold_res body xs s) (fold_res body ys)"
  by (induction xs arbitrary: s) (auto simp: bind_res_assoc cong: bind_res_cong)

text \<open>The invariant rule: the body takes the invariant at \<open>i\<close> to the invariant at \<open>i + 1\<close>.\<close>

lemma for_range_inv:
  assumes "lo \<le> hi" and "P lo s"
    and "\<And>i s. lo \<le> i \<Longrightarrow> i < hi \<Longrightarrow> P i s \<Longrightarrow> \<exists>s'. body i s = ok s' \<and> P (Suc i) s'"
  shows "\<exists>s'. for_range lo hi body s = ok s' \<and> P hi s'"
  using assms
proof (induction "hi - lo" arbitrary: lo s)
  case 0
  then show ?case by (simp add: for_range_def)
next
  case (Suc n)
  then have lt: "lo < hi" by simp
  obtain s' where s': "body lo s = ok s'" "P (Suc lo) s'"
    using Suc.prems(2) Suc.prems(3) [of lo s] lt by auto
  have "\<exists>s''. for_range (Suc lo) hi body s' = ok s'' \<and> P hi s''"
    using Suc.hyps(2) lt s'(2) Suc.prems(3) by (intro Suc.hyps(1)) auto
  with lt s'(1) show ?case by (simp add: for_range_def upt_conv_Cons)
qed

text \<open>The same with the state after \<open>i\<close> rounds given by a function.\<close>

lemma for_range_exact:
  assumes "lo \<le> hi" and "\<And>i. lo \<le> i \<Longrightarrow> i < hi \<Longrightarrow> body i (F i) = ok (F (Suc i))"
  shows "for_range lo hi body (F lo) = ok (F hi)"
  using for_range_inv [of lo hi "\<lambda>i s. s = F i" "F lo" body] assms by auto

lemma for_range_empty [simp, res_simps]: "hi \<le> lo \<Longrightarrow> for_range lo hi body s = ok s"
  by (simp add: for_range_def)

lemma for_range_step:
  "lo < hi \<Longrightarrow> for_range lo hi body s = bind_res (body lo s) (for_range (Suc lo) hi body)"
  by (simp add: for_range_def upt_conv_Cons fun_eq_iff cong: bind_res_cong)

text \<open>What every round relates, the loop relates.\<close>

lemma fold_res_rel:
  assumes "\<And>i s s'. body i s = ok s' \<Longrightarrow> R s s'"
    and "\<And>s. R s s" and "\<And>s t u. R s t \<Longrightarrow> R t u \<Longrightarrow> R s u"
  shows "fold_res body is s = ok s' \<Longrightarrow> R s s'"
proof (induction "is" arbitrary: s)
  case Nil
  then show ?case by (simp add: assms(2))
next
  case (Cons i "is")
  then obtain t where "body i s = ok t" "fold_res body is t = ok s'" by auto
  then show ?case using assms(1,3) Cons.IH by blast
qed

lemma for_range_rel:
  assumes "\<And>i s s'. body i s = ok s' \<Longrightarrow> R s s'"
    and "\<And>s. R s s" and "\<And>s t u. R s t \<Longrightarrow> R t u \<Longrightarrow> R s u"
    and "for_range lo hi body s = ok s'"
  shows "R s s'"
  using fold_res_rel [of body R "[lo..<hi]" s s'] assms unfolding for_range_def by blast

text \<open>A loop whose body may leave it: \<open>Next\<close> goes on, \<open>Stop\<close> leaves with a value.\<close>

datatype ('s, 'r) ctl = Next 's | Stop 'r

fun fold_exit :: "('i \<Rightarrow> 's \<Rightarrow> ('s, 'r) ctl res) \<Rightarrow> 'i list \<Rightarrow> 's \<Rightarrow> ('s, 'r) ctl res" where
  "fold_exit body [] s = ok (Next s)"
| "fold_exit body (i # is) s =
     bind_res (body i s) (\<lambda>c. case c of Next s' \<Rightarrow> fold_exit body is s' | Stop r \<Rightarrow> ok (Stop r))"

definition for_exit :: "nat \<Rightarrow> nat \<Rightarrow> (nat \<Rightarrow> 's \<Rightarrow> ('s, 'r) ctl res) \<Rightarrow> 's \<Rightarrow> ('s, 'r) ctl res" where
  "for_exit lo hi body s = fold_exit body [lo..<hi] s"

lemma for_exit_empty [simp, res_simps]: "hi \<le> lo \<Longrightarrow> for_exit lo hi body s = ok (Next s)"
  by (simp add: for_exit_def)

lemma for_exit_step:
  "lo < hi \<Longrightarrow> for_exit lo hi body s =
     bind_res (body lo s) (\<lambda>c. case c of Next s' \<Rightarrow> for_exit (Suc lo) hi body s' | Stop r \<Rightarrow> ok (Stop r))"
  by (simp add: for_exit_def upt_conv_Cons cong: bind_res_cong ctl.case_cong)

lemma for_exit_next:
  assumes "lo \<le> hi" and "\<And>i. lo \<le> i \<Longrightarrow> i < hi \<Longrightarrow> body i (F i) = ok (Next (F (Suc i)))"
  shows "for_exit lo hi body (F lo) = ok (Next (F hi))"
  using assms
proof (induction "hi - lo" arbitrary: lo)
  case 0
  then show ?case by simp
next
  case (Suc n)
  then have "lo < hi" by simp
  with Suc show ?case by (simp add: for_exit_step)
qed

lemma for_exit_stop:
  assumes "lo \<le> k" and "k < hi"
    and "\<And>i. lo \<le> i \<Longrightarrow> i < k \<Longrightarrow> body i (F i) = ok (Next (F (Suc i)))"
    and "body k (F k) = ok (Stop r)"
  shows "for_exit lo hi body (F lo) = ok (Stop r)"
  using assms
proof (induction "k - lo" arbitrary: lo)
  case 0
  then show ?case by (simp add: for_exit_step)
next
  case (Suc n)
  then have "lo < hi" by simp
  with Suc show ?case by (simp add: for_exit_step)
qed

text \<open>A bounded loop that runs one round longer.\<close>

lemma fold_exit_append:
  "fold_exit body (xs @ ys) s =
     bind_res (fold_exit body xs s) (\<lambda>c. case c of Next s' \<Rightarrow> fold_exit body ys s' | Stop r \<Rightarrow> ok (Stop r))"
  by (induction xs arbitrary: s) (auto simp: bind_res_assoc intro!: bind_res_cong split: ctl.split)

lemma for_exit_snoc:
  "for_exit 0 (Suc n) body s =
     bind_res (for_exit 0 n body s) (\<lambda>c. case c of Next s' \<Rightarrow> body n s' | Stop r \<Rightarrow> ok (Stop r))"
proof -
  have "(\<lambda>c. case c of Next s' \<Rightarrow> fold_exit body [n] s' | Stop r \<Rightarrow> ok (Stop r)) =
      (\<lambda>c. case c of Next s' \<Rightarrow> body n s' | Stop r \<Rightarrow> ok (Stop r))"
    by (auto simp: fun_eq_iff bind_res_def split: ctl.split option.split sum.split)
  then show ?thesis by (simp add: for_exit_def fold_exit_append del: fold_exit.simps)
qed

end
