(* ===== verification/Memory.thy ===== *)
theory Memory
  imports Prelude
begin

text \<open>
  Memory, and kernel/memory/memory.c.

  \<open>obj\<close> names the objects a pointer of the kernel can point into: the physical address space
  (the kernel runs without paging, so every cast of an integer to a pointer lands here), the
  static text buffer of the VGA driver, the array behind the RAM disk, a local array of some size,
  and a constant byte string (a string literal with its final zero byte, or an array printed by
  value). \<open>load\<close> and \<open>store\<close> are the accesses \<open>p[i]\<close>; an access outside its object fails.

  The five routines of memory.c follow with their functional specifications: \<open>upd_bytes\<close> is the
  memory after a block of bytes has been written, \<open>cstring\<close> says that a zero-terminated string
  stands at a pointer.
\<close>

section \<open>Objects, pointers, loads and stores\<close>

datatype obj = Phys | Vga_buf | Ramfs_blocks | Local nat nat | Const "u8 list"

type_synonym ptr = "obj \<times> u32"
type_synonym mem = "obj \<Rightarrow> u32 \<Rightarrow> u8"

fun obj_size :: "obj \<Rightarrow> nat" where
  "obj_size Phys = 4294967296"
| "obj_size Vga_buf = 4000"
| "obj_size Ramfs_blocks = 5242880"
| "obj_size (Local n sz) = min sz 4294967296"
| "obj_size (Const bs) = min (length bs) 4294967296"

fun is_const :: "obj \<Rightarrow> bool" where
  "is_const (Const bs) = True"
| "is_const _ = False"

fun peek :: "mem \<Rightarrow> ptr \<Rightarrow> u8" where
  "peek m (Const bs, a) = bs ! unat a"
| "peek m (b, a) = m b a"

definition load :: "mem \<Rightarrow> ptr \<Rightarrow> u8 res" where
  "load m p = (if unat (snd p) < obj_size (fst p) then ok (peek m p) else fail Read_oob)"

definition store :: "mem \<Rightarrow> ptr \<Rightarrow> u8 \<Rightarrow> mem res" where
  "store m p v =
     (if \<not> is_const (fst p) \<and> unat (snd p) < obj_size (fst p)
      then ok (m(fst p := (m (fst p))(snd p := v))) else fail Write_oob)"

definition padd :: "ptr \<Rightarrow> u32 \<Rightarrow> ptr" where
  "padd p n = (fst p, snd p + n)"

text \<open>The bytes of a string literal, and a pointer to it.\<close>

definition bytes_of :: "string \<Rightarrow> u8 list" where
  "bytes_of s = map of_char s"

definition lit :: "string \<Rightarrow> ptr" where
  "lit s = (Const (bytes_of s @ [0]), 0)"

section \<open>memory.c\<close>

definition memseq :: "mem \<Rightarrow> ptr \<Rightarrow> ptr \<Rightarrow> u32 \<Rightarrow> u8 res" where
  "memseq m p q len =
     bind_res
       (for_exit 0 (unat len)
         (\<lambda>i s. bind_res (load m (padd p (of_nat i))) (\<lambda>x.
                bind_res (load m (padd q (of_nat i))) (\<lambda>y.
                if x \<noteq> y then ok (Stop 0) else ok (Next s)))) ())
       (\<lambda>c. case c of Stop r \<Rightarrow> ok r | Next _ \<Rightarrow> ok 1)"

partial_function (option) streq_loop :: "mem \<Rightarrow> ptr \<Rightarrow> ptr \<Rightarrow> u32 \<Rightarrow> u8 res" where
  "streq_loop m p q i =
     bind_res (load m (padd p i)) (\<lambda>x.
     bind_res (load m (padd q i)) (\<lambda>y.
     if x \<noteq> y then ok 0
     else if x = 0 \<and> y = 0 then ok 1
     else streq_loop m p q (i + 1)))"

definition streq :: "mem \<Rightarrow> ptr \<Rightarrow> ptr \<Rightarrow> u8 res" where
  "streq m p q = streq_loop m p q 0"

definition memset :: "ptr \<Rightarrow> u8 \<Rightarrow> u32 \<Rightarrow> mem \<Rightarrow> mem res" where
  "memset p data len m = for_range 0 (unat len) (\<lambda>i m. store m (padd p (of_nat i)) data) m"

definition memcpy :: "ptr \<Rightarrow> ptr \<Rightarrow> u32 \<Rightarrow> mem \<Rightarrow> mem res" where
  "memcpy src dst sz m =
     for_range 0 (unat sz)
       (\<lambda>i m. bind_res (load m (padd src (of_nat i))) (\<lambda>v. store m (padd dst (of_nat i)) v)) m"

definition strncpy :: "ptr \<Rightarrow> ptr \<Rightarrow> u32 \<Rightarrow> mem \<Rightarrow> mem res" where
  "strncpy src dst sz m =
     bind_res
       (for_exit 0 (unat sz)
         (\<lambda>i m. bind_res (load m (padd src (of_nat i))) (\<lambda>v.
                bind_res (store m (padd dst (of_nat i)) v) (\<lambda>m'.
                bind_res (load m' (padd src (of_nat i))) (\<lambda>w.
                if w = 0 then ok (Stop m') else ok (Next m'))))) m)
       (\<lambda>c. case c of Stop m' \<Rightarrow> ok m' | Next m' \<Rightarrow> ok m')"

section \<open>Ranges of bytes\<close>

definition valid :: "ptr \<Rightarrow> nat \<Rightarrow> bool" where
  "valid p n \<longleftrightarrow> unat (snd p) + n \<le> obj_size (fst p)"

definition upd_bytes :: "mem \<Rightarrow> ptr \<Rightarrow> nat \<Rightarrow> (nat \<Rightarrow> u8) \<Rightarrow> mem" where
  "upd_bytes m p n f =
     m(fst p := (\<lambda>a. if unat (a - snd p) < n then f (unat (a - snd p)) else m (fst p) a))"

definition disjoint :: "ptr \<Rightarrow> nat \<Rightarrow> ptr \<Rightarrow> nat \<Rightarrow> bool" where
  "disjoint p n q k \<longleftrightarrow>
     fst p \<noteq> fst q \<or> unat (snd p) + n \<le> unat (snd q) \<or> unat (snd q) + k \<le> unat (snd p)"

lemma obj_size_le: "obj_size b \<le> 4294967296"
  by (cases b) auto

lemma unat_u32_of_nat [simp, word_facts]:
  "k < 4294967296 \<Longrightarrow> unat (of_nat k :: u32) = k"
  by (simp add: unat_of_nat take_bit_nat_eq_self)

lemma unat_u32_less [word_facts]: "unat (w :: u32) < 4294967296"
  using unsigned_less [of w, where ?'a = nat] by simp

lemma of_nat_u32_eq:
  assumes "a < 4294967296" and "b < 4294967296"
  shows "(of_nat a :: u32) = of_nat b \<longleftrightarrow> a = b"
proof
  assume "(of_nat a :: u32) = of_nat b"
  then have "unat (of_nat a :: u32) = unat (of_nat b :: u32)" by (rule arg_cong)
  then show "a = b" using assms by (simp only: unat_u32_of_nat)
qed simp

lemma fst_padd [simp]: "fst (padd p n) = fst p"
  and snd_padd [simp]: "snd (padd p n) = snd p + n"
  by (simp_all add: padd_def)

lemma padd_pair [simp]: "padd (b, a) n = (b, a + n)"
  by (simp add: padd_def)

lemma padd_0 [simp]: "padd p 0 = p"
  by (simp add: padd_def)

lemma upd_bytes_0 [simp]: "upd_bytes m p 0 f = m"
  by (simp add: upd_bytes_def)

lemma unat_offset:
  fixes a :: u32
  assumes "unat a + k < 4294967296"
  shows "unat (a + of_nat k) = unat a + k"
proof -
  have "k < 4294967296" using assms by simp
  then show ?thesis using assms by (simp add: unat_word_ariths)
qed

lemma valid_offset:
  assumes "valid p n" and "k < n"
  shows "unat (snd p + of_nat k) < obj_size (fst p)"
    and "unat (snd p + of_nat k) = unat (snd p) + k"
proof -
  have "unat (snd p) + k < 4294967296"
    using assms obj_size_le [of "fst p"] by (simp add: valid_def)
  then show "unat (snd p + of_nat k) = unat (snd p) + k" by (rule unat_offset)
  then show "unat (snd p + of_nat k) < obj_size (fst p)"
    using assms unfolding valid_def by linarith
qed

lemma valid_less: "valid p n \<Longrightarrow> k < n \<Longrightarrow> k < 4294967296"
  using obj_size_le [of "fst p"] unfolding valid_def by linarith

lemma valid_bound: "valid p n \<Longrightarrow> k < n \<Longrightarrow> unat (snd p) + k < obj_size (fst p)"
  unfolding valid_def by linarith

lemma load_valid: "valid p n \<Longrightarrow> k < n \<Longrightarrow> load m (padd p (of_nat k)) = ok (peek m (padd p (of_nat k)))"
  by (simp add: load_def valid_offset valid_bound)

text \<open>Writing the next byte of a block: the step of every loop of memory.c.\<close>

lemma store_upd_bytes:
  assumes "valid p n" and "k < n" and "\<not> is_const (fst p)"
  shows "store (upd_bytes m p k f) (padd p (of_nat k)) (f k) = ok (upd_bytes m p (Suc k) f)"
proof -
  have k: "k < 4294967296" using assms valid_less by blast
  have "(a = snd p + of_nat k) = (unat (a - snd p) = k)" for a
  proof
    assume "unat (a - snd p) = k"
    then have "a - snd p = of_nat k" by auto
    then show "a = snd p + of_nat k" by (simp add: algebra_simps)
  qed (use k in simp)
  then show ?thesis
    using assms by (auto simp: store_def valid_offset valid_bound upd_bytes_def fun_eq_iff less_Suc_eq)
qed

lemma peek_upd_bytes:
  "\<not> is_const (fst p) \<Longrightarrow>
   peek (upd_bytes m p n f) q =
     (if fst q = fst p \<and> unat (snd q - snd p) < n then f (unat (snd q - snd p)) else peek m q)"
  by (cases "(m, q)" rule: peek.cases) (auto simp: upd_bytes_def dest: sym)

lemma peek_upd_bytes_in:
  assumes "valid p n" and "k < n" and "\<not> is_const (fst p)"
  shows "peek (upd_bytes m p n f) (padd p (of_nat k)) = f k"
  using assms valid_less [OF assms(1,2)] by (simp add: peek_upd_bytes)

lemma disjoint_diff:
  assumes "disjoint p n q k" and "valid p n" and "valid q k" and "i < k" and "fst p = fst q"
  shows "\<not> unat (snd q + of_nat i - snd p) < n"
proof -
  have q: "unat (snd q + of_nat i) = unat (snd q) + i"
    using assms(3,4) by (rule valid_offset)
  have "unat (snd p) + n \<le> 4294967296"
    using assms(2) obj_size_le [of "fst p"] by (simp add: valid_def)
  then show ?thesis
    using assms q by (auto simp: disjoint_def unat_sub_if' not_less)
qed

lemma peek_upd_bytes_out:
  assumes "disjoint p n q k" and "valid p n" and "valid q k" and "i < k" and "\<not> is_const (fst p)"
  shows "peek (upd_bytes m p n f) (padd q (of_nat i)) = peek m (padd q (of_nat i))"
  using assms disjoint_diff [OF assms(1-4)] by (auto simp: peek_upd_bytes)

lemma upd_bytes_other: "b \<noteq> fst p \<Longrightarrow> upd_bytes m p n f b = m b"
  by (simp add: upd_bytes_def)

section \<open>What the routines of memory.c compute\<close>

lemma memset_upd:
  assumes "valid p (unat len)" and "\<not> is_const (fst p)"
  shows "memset p c len m = ok (upd_bytes m p (unat len) (\<lambda>_. c))"
proof -
  let ?F = "\<lambda>i. upd_bytes m p i (\<lambda>_. c)"
  have "for_range 0 (unat len) (\<lambda>i m. store m (padd p (of_nat i)) c) (?F 0) = ok (?F (unat len))"
    using assms store_upd_bytes [where f = "\<lambda>_. c"]
    by (intro for_range_exact) (auto simp del: upd_bytes_0)
  then show ?thesis by (simp add: memset_def)
qed

text \<open>
  \<open>memcpy\<close> copies forwards, byte by byte. When the destination starts inside the source the
  bytes already written are read again, so the source's first \<open>d\<close> bytes repeat, where \<open>d\<close> is the
  distance; with \<open>d = 0\<close> (another object, or the same place) \<open>k mod d\<close> is \<open>k\<close>.
\<close>

definition copy_period :: "ptr \<Rightarrow> ptr \<Rightarrow> nat" where
  "copy_period src dst = (if fst src = fst dst then unat (snd dst - snd src) else 0)"

lemma overtaken:
  fixes w :: u32
  assumes "i < 4294967296"
  shows "unat (of_nat i - w) < i \<longleftrightarrow> 0 < unat w \<and> unat w \<le> i"
    and "unat w \<le> i \<Longrightarrow> unat (of_nat i - w) = i - unat w"
  using assms unat_u32_less [of w] by (auto simp: unat_sub_if')

lemma peek_overtaken:
  assumes "i < 4294967296" and "\<not> is_const (fst dst)"
    and f: "\<And>k. f k = peek m (padd src (of_nat (k mod copy_period src dst)))"
  shows "peek (upd_bytes m dst i f) (padd src (of_nat i)) = f i"
proof (cases "fst src = fst dst")
  case True
  define w where "w = snd dst - snd src"
  have d: "copy_period src dst = unat w" using True by (simp add: copy_period_def w_def)
  have diff: "snd src + of_nat i - snd dst = of_nat i - w" by (simp add: w_def)
  show ?thesis
  proof (cases "0 < unat w \<and> unat w \<le> i")
    case True
    then have "(i - unat w) mod unat w = i mod unat w" by (simp add: le_mod_geq)
    then have "f (i - unat w) = f i" by (simp add: f d)
    with True \<open>fst src = fst dst\<close> show ?thesis
      using assms(1,2) by (simp add: peek_upd_bytes diff overtaken)
  next
    case False
    then have "i mod unat w = i" by (cases "unat w = 0") (auto simp: not_le)
    with False \<open>fst src = fst dst\<close> show ?thesis
      using assms(1,2) by (auto simp: peek_upd_bytes diff overtaken f d)
  qed
next
  case False
  then show ?thesis using assms by (simp add: peek_upd_bytes copy_period_def)
qed

lemma memcpy_upd:
  assumes "valid src (unat n)" and "valid dst (unat n)" and "\<not> is_const (fst dst)"
  shows "memcpy src dst n m =
    ok (upd_bytes m dst (unat n) (\<lambda>k. peek m (padd src (of_nat (k mod copy_period src dst)))))"
proof -
  define f where "f = (\<lambda>k. peek m (padd src (of_nat (k mod copy_period src dst))))"
  let ?F = "\<lambda>i. upd_bytes m dst i f"
  have "peek (?F i) (padd src (of_nat i)) = f i" if "i < unat n" for i
    using that valid_less [OF assms(1)] assms(3) by (intro peek_overtaken) (auto simp: f_def)
  then have "for_range 0 (unat n)
      (\<lambda>i m. bind_res (load m (padd src (of_nat i))) (\<lambda>v. store m (padd dst (of_nat i)) v)) (?F 0)
      = ok (?F (unat n))"
    using assms
    by (intro for_range_exact) (auto simp: load_valid store_upd_bytes simp del: upd_bytes_0)
  then show ?thesis by (simp add: memcpy_def f_def)
qed

lemma copy_period_disjoint:
  assumes "disjoint dst n src n" and "valid src n" and "valid dst n" and "k < n"
  shows "k mod copy_period src dst = k"
proof (cases "fst src = fst dst")
  case True
  have "unat (snd src) + n \<le> 4294967296" "unat (snd dst) + n \<le> 4294967296"
    using assms(2,3) obj_size_le [of "fst src"] obj_size_le [of "fst dst"] by (auto simp: valid_def)
  then have "n \<le> copy_period src dst"
    using True assms(1) by (auto simp: copy_period_def disjoint_def unat_sub_if')
  with assms(4) show ?thesis by simp
qed (simp add: copy_period_def)

text \<open>Two stretches of memory that do not overlap: the copy is exact.\<close>

lemma memcpy_exact:
  assumes "valid src (unat n)" and "valid dst (unat n)" and "\<not> is_const (fst dst)"
    and "disjoint dst (unat n) src (unat n)"
  shows "\<exists>m'. memcpy src dst n m = ok m' \<and>
    (\<forall>k < unat n. peek m' (padd dst (of_nat k)) = peek m (padd src (of_nat k)))"
proof -
  have "k mod copy_period src dst = k" if "k < unat n" for k
    using assms(4,1,2) that by (rule copy_period_disjoint)
  then show ?thesis
    using assms by (simp add: memcpy_upd peek_upd_bytes_in)
qed

lemma memseq_correct:
  assumes "valid p (unat n)" and "valid q (unat n)"
  shows "memseq m p q n =
    ok (if \<forall>k < unat n. peek m (padd p (of_nat k)) = peek m (padd q (of_nat k)) then 1 else 0)"
proof (cases "\<forall>k < unat n. peek m (padd p (of_nat k)) = peek m (padd q (of_nat k))")
  case True
  then show ?thesis
    using assms unfolding memseq_def
    by (subst for_exit_next [where F = "\<lambda>_. ()"]) (auto simp: load_valid)
next
  case False
  define differs where "differs k \<longleftrightarrow> k < unat n \<and>
    peek m (padd p (of_nat k)) \<noteq> peek m (padd q (of_nat k))" for k
  from False obtain k0 where "differs k0" by (auto simp: differs_def)
  then obtain k where k: "differs k" "\<forall>j < k. \<not> differs j" by (rule first_nat)
  show ?thesis
    using k assms False unfolding memseq_def
    by (subst for_exit_stop [where F = "\<lambda>_. ()" and k = k and r = 0])
      (auto simp: load_valid differs_def)
qed

section \<open>Zero-terminated strings\<close>

definition cstring :: "mem \<Rightarrow> ptr \<Rightarrow> u8 list \<Rightarrow> bool" where
  "cstring m p xs \<longleftrightarrow> valid p (Suc (length xs)) \<and> 0 \<notin> set xs \<and>
     (\<forall>k \<le> length xs. peek m (padd p (of_nat k)) = (xs @ [0]) ! k)"

lemma cstring_load:
  "cstring m p xs \<Longrightarrow> k \<le> length xs \<Longrightarrow> load m (padd p (of_nat k)) = ok ((xs @ [0]) ! k)"
  using load_valid [of p "Suc (length xs)" k m] by (simp add: cstring_def)

lemma cstring_short: "cstring m p xs \<Longrightarrow> length xs < 4294967296"
  using valid_less [of p "Suc (length xs)"] by (auto simp: cstring_def)

lemma cstring_nonzero: "cstring m p xs \<Longrightarrow> k < length xs \<Longrightarrow> xs ! k \<noteq> 0"
  by (metis cstring_def nth_mem)

lemma cstring_lit: "0 \<notin> set (bytes_of s) \<Longrightarrow> length s < 4294967295 \<Longrightarrow> cstring m (lit s) (bytes_of s)"
  by (auto simp: cstring_def lit_def valid_def bytes_of_def)

lemma streq_loop_correct:
  assumes "cstring m p (us @ vs)" and "cstring m q (us @ ws)"
  shows "streq_loop m p q (of_nat (length us)) = ok (if vs = ws then 1 else 0)"
  using assms
proof (induction vs arbitrary: us ws)
  case Nil
  have "load m (padd p (of_nat (length us))) = ok 0"
    using cstring_load [OF Nil(1), of "length us"] by simp
  moreover have "load m (padd q (of_nat (length us))) = ok ((ws @ [0]) ! 0)"
    using cstring_load [OF Nil(2), of "length us"] by (simp add: nth_append)
  moreover have "ws \<noteq> [] \<Longrightarrow> ws ! 0 \<noteq> 0"
    using cstring_nonzero [OF Nil(2), of "length us"] by (simp add: nth_append)
  ultimately show ?case by (cases ws) (auto simp: streq_loop.simps)
next
  case (Cons v vs)
  have p: "load m (padd p (of_nat (length us))) = ok v"
    using cstring_load [OF Cons.prems(1), of "length us"] by (simp add: nth_append)
  have v: "v \<noteq> 0" using cstring_nonzero [OF Cons.prems(1), of "length us"] by (simp add: nth_append)
  have q: "load m (padd q (of_nat (length us))) = ok ((ws @ [0]) ! 0)"
    using cstring_load [OF Cons.prems(2), of "length us"] by (simp add: nth_append)
  show ?case
  proof (cases "\<exists>ws'. ws = v # ws'")
    case True
    then obtain ws' where ws: "ws = v # ws'" by blast
    have "streq_loop m p q (of_nat (length (us @ [v]))) = ok (if vs = ws' then 1 else 0)"
      using Cons.prems ws by (intro Cons.IH) simp_all
    with p q v ws show ?thesis by (subst streq_loop.simps) (simp add: add.commute)
  next
    case False
    with p q v show ?thesis by (subst streq_loop.simps) (cases ws; auto)
  qed
qed

lemma streq_correct:
  "cstring m p xs \<Longrightarrow> cstring m q ys \<Longrightarrow> streq m p q = ok (if xs = ys then 1 else 0)"
  using streq_loop_correct [of m p "[]" xs q ys] by (simp add: streq_def)

text \<open>
  \<open>strncpy\<close> copies up to and including the terminator, and \<open>n\<close> bytes at most: a string of \<open>n\<close>
  or more bytes is cut without a terminator.
\<close>

lemma strncpy_upd:
  assumes s: "cstring m src xs" and d: "valid dst (unat n)" "\<not> is_const (fst dst)"
    and dis: "disjoint dst (unat n) src (Suc (length xs))"
  shows "strncpy src dst n m =
    ok (upd_bytes m dst (min (Suc (length xs)) (unat n)) (\<lambda>k. (xs @ [0]) ! k))"
proof -
  define c where "c = (\<lambda>k. (xs @ [0]) ! k)"
  have c: "c (length xs) = 0" "\<And>k. k < length xs \<Longrightarrow> c k \<noteq> 0"
    using cstring_nonzero [OF s] by (auto simp: c_def nth_append)
  define F where "F i = upd_bytes m dst i c" for i
  have ld: "load (F i) (padd src (of_nat k)) = ok (c k)"
    if "i \<le> unat n" "k \<le> length xs" for i k
  proof -
    have "disjoint dst i src (Suc (length xs))" "valid dst i"
      using that(1) dis d by (auto simp: disjoint_def valid_def)
    then have "peek (F i) (padd src (of_nat k)) = peek m (padd src (of_nat k))"
      using that(2) s d(2) unfolding F_def
      by (intro peek_upd_bytes_out) (auto simp: cstring_def)
    then show ?thesis
      using s that(2) load_valid [of src "Suc (length xs)" k "F i"] by (simp add: cstring_def c_def)
  qed
  have st: "store (F i) (padd dst (of_nat i)) (c i) = ok (F (Suc i))" if "i < unat n" for i
    using d that unfolding F_def by (intro store_upd_bytes)
  show ?thesis
  proof (cases "length xs < unat n")
    case True
    then have "for_exit 0 (unat n) (\<lambda>i m. bind_res (load m (padd src (of_nat i))) (\<lambda>v.
                bind_res (store m (padd dst (of_nat i)) v) (\<lambda>m'.
                bind_res (load m' (padd src (of_nat i))) (\<lambda>w.
                if w = 0 then ok (Stop m') else ok (Next m'))))) (F 0) = ok (Stop (F (Suc (length xs))))"
      by (intro for_exit_stop [where k = "length xs"]) (simp_all add: ld st c st [of "length xs", unfolded c(1)])
    with True show ?thesis by (simp add: strncpy_def F_def c_def)
  next
    case False
    then have "for_exit 0 (unat n) (\<lambda>i m. bind_res (load m (padd src (of_nat i))) (\<lambda>v.
                bind_res (store m (padd dst (of_nat i)) v) (\<lambda>m'.
                bind_res (load m' (padd src (of_nat i))) (\<lambda>w.
                if w = 0 then ok (Stop m') else ok (Next m'))))) (F 0) = ok (Next (F (unat n)))"
      by (intro for_exit_next) (simp_all add: ld st c)
    with False show ?thesis by (simp add: strncpy_def F_def c_def)
  qed
qed

section \<open>Properties\<close>

text \<open>
  \<open>memcpy\<close> on two ranges that lie inside their objects returns, and byte \<open>k\<close> of the destination
  is byte \<open>k mod d\<close> of the old source, where \<open>d\<close> is the distance by which the destination starts
  inside the source: the forward loop repeats the first \<open>d\<close> bytes of an overlapping source, and
  copies exactly when \<open>d = 0\<close> or the ranges do not overlap. No other byte changes.
\<close>

lemma memcpy_bytes:
  assumes "valid src (unat n)" and "valid dst (unat n)" and "\<not> is_const (fst dst)"
  shows "\<exists>m'. memcpy src dst n m = ok m' \<and>
    (\<forall>k < unat n. peek m' (padd dst (of_nat k)) = peek m (padd src (of_nat (k mod copy_period src dst)))) \<and>
    (\<forall>q. \<not> (fst q = fst dst \<and> unat (snd q - snd dst) < unat n) \<longrightarrow> peek m' q = peek m q)"
proof -
  note m' = memcpy_upd [OF assms, of m]
  show ?thesis
    unfolding m' using assms(2,3) by (auto simp: peek_upd_bytes_in) (auto simp: peek_upd_bytes)
qed

lemma memcpy_bytes_witness:
  "\<exists>m'. memcpy (Phys, 0) (Phys, 2) 5 (\<lambda>_ a. ucast a) = ok m' \<and> peek m' (Phys, 6) = 0"
proof -
  obtain m' where "memcpy (Phys, 0) (Phys, 2) 5 (\<lambda>_ a. ucast a) = ok m'"
    and "\<forall>k < unat (5 :: u32). peek m' (padd (Phys, 2) (of_nat k)) =
      peek (\<lambda>_ a. ucast a) (padd (Phys, 0) (of_nat (k mod copy_period (Phys, 0) (Phys, 2))))"
    using memcpy_bytes [of "(Phys, 0)" 5 "(Phys, 2)" "\<lambda>_ a. ucast a"] by (auto simp: valid_def)
  then show ?thesis by (auto simp: copy_period_def dest!: spec [of _ 4])
qed

text \<open>
  \<open>memset\<close> on a range inside its object sets every byte of the range and no other.
\<close>

lemma memset_bytes:
  assumes "valid p (unat len)" and "\<not> is_const (fst p)"
  shows "\<exists>m'. memset p c len m = ok m' \<and>
    (\<forall>q. peek m' q = (if fst q = fst p \<and> unat (snd q - snd p) < unat len then c else peek m q))"
  using assms by (simp add: memset_upd peek_upd_bytes)

lemma memset_bytes_witness:
  "\<exists>m'. memset (Vga_buf, 10) 7 4 (\<lambda>_ _. 0) = ok m' \<and> peek m' (Vga_buf, 13) = 7 \<and> peek m' (Vga_buf, 14) = 0"
proof -
  obtain m' where m': "memset (Vga_buf, 10) 7 4 (\<lambda>_ _. 0) = ok m'"
    and at: "\<forall>q. peek m' q = (if fst q = Vga_buf \<and> unat (snd q - 10) < 4 then 7 else peek (\<lambda>_ _. 0) q)"
    using memset_bytes [of "(Vga_buf, 10)" 4 7 "\<lambda>_ _. 0"] by (auto simp: valid_def)
  show ?thesis using m' at [rule_format, of "(Vga_buf, 13)"] at [rule_format, of "(Vga_buf, 14)"] by simp
qed

text \<open>
  \<open>strncpy\<close> of a string into a buffer it does not overlap returns. When the string and its
  terminator fit into \<open>n\<close> bytes the buffer holds the string; otherwise it holds the first \<open>n\<close>
  characters and no terminator.
\<close>

lemma strncpy_result:
  assumes "cstring m src xs" and "valid dst (unat n)" and "\<not> is_const (fst dst)"
    and "disjoint dst (unat n) src (Suc (length xs))"
  shows "\<exists>m'. strncpy src dst n m = ok m' \<and>
    (if length xs < unat n then cstring m' dst xs
     else \<forall>k < unat n. peek m' (padd dst (of_nat k)) = xs ! k)"
proof -
  let ?c = "min (Suc (length xs)) (unat n)"
  have v: "valid dst ?c" using assms(2) by (auto simp: valid_def)
  have at: "peek (upd_bytes m dst ?c (\<lambda>k. (xs @ [0]) ! k)) (padd dst (of_nat k)) = (xs @ [0]) ! k"
    if "k < ?c" for k
    using peek_upd_bytes_in [OF v that assms(3)] .
  show ?thesis
    using strncpy_upd [OF assms] at v assms(1) by (auto simp: cstring_def nth_append not_less)
qed

lemma strncpy_result_witness:
  "\<exists>m'. strncpy (lit ''abc'') (Phys, 100) 2 (\<lambda>_ _. 0) = ok m' \<and> peek m' (Phys, 101) = 98"
proof -
  have c: "cstring (\<lambda>_ _. 0) (lit ''abc'') (bytes_of ''abc'')"
    by (intro cstring_lit) (simp_all add: bytes_of_def)
  obtain m' where "strncpy (lit ''abc'') (Phys, 100) 2 (\<lambda>_ _. 0) = ok m'"
    and "\<forall>k < unat (2 :: u32). peek m' (padd (Phys, 100) (of_nat k)) = bytes_of ''abc'' ! k"
    using strncpy_result [OF c, of "(Phys, 100)" 2]
    by (auto simp: valid_def disjoint_def lit_def bytes_of_def)
  then show ?thesis by (auto simp: bytes_of_def dest!: spec [of _ 1])
qed

text \<open>
  \<open>streq\<close> decides equality of two zero-terminated strings and \<open>memseq\<close> equality of two ranges
  of \<open>n\<close> bytes; both return 1 for equal and 0 for different.
\<close>

lemma string_comparison:
  assumes "cstring m p xs" and "cstring m q ys" and "valid a (unat n)" and "valid b (unat n)"
  shows "streq m p q = ok (if xs = ys then 1 else 0) \<and>
    memseq m a b n = ok (if \<forall>k < unat n. peek m (padd a (of_nat k)) = peek m (padd b (of_nat k)) then 1 else 0)"
  using streq_correct [OF assms(1,2)] memseq_correct [OF assms(3,4)] by simp_all

lemma string_comparison_witness:
  "streq (\<lambda>_ _. 0) (lit ''lspci'') (lit ''lsproc'') = ok 0 \<and>
   memseq (\<lambda>_ _. 0) (lit ''lspci'') (lit ''lsproc'') 3 = ok 1"
proof -
  have c: "cstring (\<lambda>_ _. 0) (lit ''lspci'') (bytes_of ''lspci'')"
    "cstring (\<lambda>_ _. 0) (lit ''lsproc'') (bytes_of ''lsproc'')"
    by (intro cstring_lit; simp add: bytes_of_def)+
  have v: "valid (lit ''lspci'') (unat (3 :: u32))" "valid (lit ''lsproc'') (unat (3 :: u32))"
    by (simp_all add: valid_def lit_def bytes_of_def)
  have three: "k = 0 \<or> k = 1 \<or> k = 2" if "k < 3" for k :: nat using that by auto
  show ?thesis
    using string_comparison [OF c v] by (auto simp: bytes_of_def lit_def dest!: three split: if_splits)
qed

end
