(* ===== verification/Layout.thy ===== *)
theory Layout
  imports Memory
begin

text \<open>
  Integers inside byte arrays, little-endian as the processor stores them: what an access to a field of
  a packed structure at a pointer is. \<open>byte_of v\<close> are the bytes of a word, \<open>word_at f k\<close> is the word
  that the bytes \<open>f k\<close> to \<open>f (k + 3)\<close> spell; \<open>window m p\<close> are the bytes from a pointer on.
\<close>

section \<open>Fields\<close>

definition load16 :: "mem \<Rightarrow> ptr \<Rightarrow> u16 res" where
  "load16 m p =
     bind_res (load m p) (\<lambda>a. bind_res (load m (padd p 1)) (\<lambda>b. ok (ucast a OR push_bit 8 (ucast b))))"

definition load32 :: "mem \<Rightarrow> ptr \<Rightarrow> u32 res" where
  "load32 m p =
     bind_res (load m p) (\<lambda>a. bind_res (load m (padd p 1)) (\<lambda>b.
     bind_res (load m (padd p 2)) (\<lambda>c. bind_res (load m (padd p 3)) (\<lambda>d.
     ok (ucast a OR push_bit 8 (ucast b) OR push_bit 16 (ucast c) OR push_bit 24 (ucast d))))))"

definition store32 :: "ptr \<Rightarrow> u32 \<Rightarrow> mem \<Rightarrow> mem res" where
  "store32 p v m =
     bind_res (store m p (ucast v)) (\<lambda>m. bind_res (store m (padd p 1) (ucast (drop_bit 8 v))) (\<lambda>m.
     bind_res (store m (padd p 2) (ucast (drop_bit 16 v))) (\<lambda>m.
     store m (padd p 3) (ucast (drop_bit 24 v)))))"

section \<open>Bytes and words\<close>

definition byte_of :: "u32 \<Rightarrow> nat \<Rightarrow> u8" where
  "byte_of v k = ucast (drop_bit (8 * k) v)"

definition word_at :: "(nat \<Rightarrow> u8) \<Rightarrow> nat \<Rightarrow> u32" where
  "word_at f k = ucast (f k) OR push_bit 8 (ucast (f (k + 1))) OR push_bit 16 (ucast (f (k + 2)))
     OR push_bit 24 (ucast (f (k + 3)))"

definition window :: "mem \<Rightarrow> ptr \<Rightarrow> nat \<Rightarrow> u8" where
  "window m p k = peek m (padd p (of_nat k))"

lemma word_at_cong:
  assumes "\<And>i. i < 4 \<Longrightarrow> f (k + i) = g (l + i)"
  shows "word_at f k = word_at g l"
  using assms [of 0] assms [of 1] assms [of 2] assms [of 3] by (simp add: word_at_def)

lemma word_at_byte_of:
  assumes "\<And>i. i < 4 \<Longrightarrow> f (k + i) = byte_of v i"
  shows "word_at f k = v"
proof -
  have f: "f k = byte_of v 0" "f (k + 1) = byte_of v 1" "f (k + 2) = byte_of v 2" "f (k + 3) = byte_of v 3"
    using assms [of 0] assms [of 1] assms [of 2] assms [of 3] by simp_all
  have top: "n - 16 < 8" if "bit v n" "\<not> bit v (24 + (n - 24))" for n
    using that by (cases "n < 24") auto
  show ?thesis
    unfolding word_at_def f byte_of_def
    by (rule bit_word_eqI) (auto simp: bit_simps not_less intro: top)
qed

lemma byte_of_0 [simp]: "byte_of 0 i = 0"
  by (simp add: byte_of_def)

lemma padd_padd: "padd (padd p a) b = padd p (a + b)"
  by (simp add: padd_def add.assoc)

lemma padd_of_nat: "padd (padd p (of_nat a)) (of_nat b) = padd p (of_nat (a + b))"
  by (simp add: padd_padd)

lemma valid_padd: "valid p n \<Longrightarrow> k + l \<le> n \<Longrightarrow> 0 < l \<Longrightarrow> valid (padd p (of_nat k)) l"
  using valid_offset [of p n k] by (simp add: valid_def)

lemma load_window: "valid p n \<Longrightarrow> k < n \<Longrightarrow> load m (padd p (of_nat k)) = ok (window m p k)"
  by (simp add: load_valid window_def)

lemma store_byte:
  "valid p n \<Longrightarrow> k < n \<Longrightarrow> \<not> is_const (fst p) \<Longrightarrow>
   store m (padd p (of_nat k)) v = ok (upd_bytes m (padd p (of_nat k)) 1 (\<lambda>_. v))"
  using store_upd_bytes [of "padd p (of_nat k)" 1 0 m "\<lambda>_. v"] valid_padd [of p n k 1] by simp

lemma load32_window:
  assumes "valid p n" and "k + 4 \<le> n"
  shows "load32 m (padd p (of_nat k)) = ok (word_at (window m p) k)"
proof -
  have "load m (padd p (of_nat (k + i))) = ok (window m p (k + i))" if "i < 4" for i
    using load_window [OF assms(1), of "k + i" m] assms(2) that by (simp del: of_nat_add)
  from this [of 0] this [of 1] this [of 2] this [of 3] show ?thesis
    by (simp add: load32_def word_at_def padd_padd add.commute)
qed

lemma store32_window:
  assumes "valid p n" and "k + 4 \<le> n" and "\<not> is_const (fst p)"
  shows "store32 (padd p (of_nat k)) v m = ok (upd_bytes m (padd p (of_nat k)) 4 (byte_of v))"
proof -
  let ?q = "padd p (of_nat k)"
  have q: "valid ?q 4" using assms(1,2) by (rule valid_padd) simp
  have "store (upd_bytes m ?q i (byte_of v)) (padd ?q (of_nat i)) (byte_of v i) = ok (upd_bytes m ?q (Suc i) (byte_of v))"
    if "i < 4" for i
    using q that assms(3) by (intro store_upd_bytes) simp_all
  from this [of 0] this [of 1] this [of 2] this [of 3] show ?thesis
    by (simp add: store32_def byte_of_def numeral_eq_Suc)
qed

text \<open>What a write inside a buffer changes of it.\<close>

lemma window_upd:
  assumes "valid p n" and "k + l \<le> n" and "i < n" and "\<not> is_const (fst p)"
  shows "window (upd_bytes m (padd p (of_nat k)) l f) p i =
    (if k \<le> i \<and> i < k + l then f (i - k) else window m p i)"
proof (cases "l = 0")
  case False
  then have k: "k < n" using assms(2) by simp
  have "unat (snd p + of_nat i) = unat (snd p) + i" "unat (snd p + of_nat k) = unat (snd p) + k"
    using assms(1,3) k by (auto intro: valid_offset)
  then have *: "unat (snd p + of_nat i - (snd p + of_nat k)) < l \<longleftrightarrow> k \<le> i \<and> i < k + l"
    and "k \<le> i \<Longrightarrow> unat (snd p + of_nat i - (snd p + of_nat k)) = i - k"
    using valid_bound [OF assms(1) k] valid_bound [OF assms(1,3)] obj_size_le [of "fst p"] assms(1,2)
    by (auto simp: unat_sub_if' valid_def)
  then show ?thesis
    using assms(4) by (simp only: window_def peek_upd_bytes fst_padd snd_padd * simp_thms) simp
qed auto

lemma window_other: "b \<noteq> fst p \<or> is_const (fst p) \<Longrightarrow> fst q = b \<Longrightarrow> window (upd_bytes m q n f) p = window m p"
  by (cases "fst p") (auto simp: window_def upd_bytes_def padd_def fun_eq_iff)

lemma window_cong: "(\<not> is_const (fst p) \<Longrightarrow> m (fst p) = m' (fst p)) \<Longrightarrow> window m p = window m' p"
  by (cases "fst p") (auto simp: window_def padd_def fun_eq_iff)

end
