(* ===== verification/Ports.thy ===== *)
theory Ports
  imports Memory
begin

text \<open>
  Port input and output, and the spin lock: arch/i386/asm/asm.h, arch/i386/asm/asm.c and
  kernel/spin_lock.h.

  The devices behind the ports are not part of the program. They are a parameter \<open>hw\<close> of every
  operation that reads a port: the value a device returns is a function of the port and of the
  whole history of port accesses so far, newest first. Every access extends that history, so the
  history is also the trace of what the kernel did to its devices, in order. \<open>Cli\<close>, \<open>Sti\<close>,
  \<open>Lgdt\<close>, \<open>Ltr\<close> and \<open>Lidt\<close> record the privileged instructions that have no value.

  The record \<open>machine\<close> is the state the output path of the kernel works on: memory, the port
  history, the static variables of drivers/vga/vga.c and the lock of io/io.c.
\<close>

datatype io_event =
    Outb u16 u8 | Outw u16 u16 | Outl u16 u32
  | Inb u16 u8 | Inw u16 u16 | Inl u16 u32
  | Cli | Sti | Lgdt u16 u32 | Ltr u16 | Lidt u16 u32

type_synonym io_trace = "io_event list"
type_synonym hw = "io_trace \<Rightarrow> u16 \<Rightarrow> u32"

record machine =
  mem :: mem
  io_log :: io_trace
  vgabuf_col :: u8
  vgabuf_row :: u8
  vgabuf_start_row :: u8
  vgabuf_move_row :: u8
  lock :: u32

section \<open>Port instructions\<close>

definition outb :: "u32 \<Rightarrow> u32 \<Rightarrow> io_trace \<Rightarrow> io_trace" where
  "outb port val log = Outb (ucast port) (ucast val) # log"

definition inb :: "hw \<Rightarrow> u32 \<Rightarrow> io_trace \<Rightarrow> u8 \<times> io_trace" where
  "inb hw port log =
     (let v = ucast (hw log (ucast port)) in (v, Inb (ucast port) v # log))"

definition outl :: "u32 \<Rightarrow> u32 \<Rightarrow> io_trace \<Rightarrow> io_trace" where
  "outl port val log = Outl (ucast port) val # log"

definition inl :: "hw \<Rightarrow> u32 \<Rightarrow> io_trace \<Rightarrow> u32 \<times> io_trace" where
  "inl hw port log =
     (let v = hw log (ucast port) in (v, Inl (ucast port) v # log))"

definition outw :: "u16 \<Rightarrow> u16 \<Rightarrow> io_trace \<Rightarrow> io_trace" where
  "outw port val log = Outw port val # log"

definition inw :: "hw \<Rightarrow> u16 \<Rightarrow> io_trace \<Rightarrow> u16 \<times> io_trace" where
  "inw hw port log = (let v = ucast (hw log port) in (v, Inw port v # log))"

definition interrupt_disable :: "io_trace \<Rightarrow> io_trace" where
  "interrupt_disable log = Cli # log"

definition interrupt_enable :: "io_trace \<Rightarrow> io_trace" where
  "interrupt_enable log = Sti # log"

section \<open>Polling a port\<close>

text \<open>The history after \<open>n\<close> reads of one port with nothing in between.\<close>

fun poll :: "hw \<Rightarrow> u16 \<Rightarrow> nat \<Rightarrow> io_trace \<Rightarrow> io_trace" where
  "poll hw port 0 log = log"
| "poll hw port (Suc n) log =
     (let l = poll hw port n log in Inb port (ucast (hw l port)) # l)"

definition port_byte :: "hw \<Rightarrow> u16 \<Rightarrow> io_trace \<Rightarrow> u8" where
  "port_byte hw port log = ucast (hw log port)"

lemma poll_shift: "poll hw port n (Inb port (port_byte hw port log) # log) = poll hw port (Suc n) log"
  by (induction n) (simp_all add: port_byte_def Let_def)

lemma poll_poll: "poll hw p n (poll hw p 1 log) = poll hw p (Suc n) log"
  using poll_shift [of hw p n log] by (simp add: port_byte_def Let_def)

text \<open>
  The shape of every wait in the drivers: read the status port until it shows \<open>ready\<close>, then
  \<open>finish\<close>. The first law is the loop unfolded once; the second says that the loop cannot return
  by itself.
\<close>

locale polling_loop =
  fixes hw :: hw and port :: u16 and ready :: "io_trace \<Rightarrow> bool"
    and loop :: "io_trace \<Rightarrow> 'a res" and finish :: "io_trace \<Rightarrow> 'a res"
  assumes loop_step:
      "loop log = (if ready log then finish (poll hw port 1 log) else loop (poll hw port 1 log))"
    and loop_returns: "loop log = Some r \<Longrightarrow> \<exists>n. ready (poll hw port n log)"
begin

lemma loop_after:
  "\<forall>k < n. \<not> ready (poll hw port k log) \<Longrightarrow> ready (poll hw port n log) \<Longrightarrow>
   loop log = finish (poll hw port (Suc n) log)"
proof (induction n arbitrary: log)
  case 0
  then show ?case by (subst loop_step) simp
next
  case (Suc n)
  have "loop (poll hw port 1 log) = finish (poll hw port (Suc n) (poll hw port 1 log))"
    using Suc.prems by (intro Suc.IH) (auto simp: poll_poll simp del: poll.simps One_nat_def)
  moreover have "\<not> ready log" using Suc.prems(1) by (metis poll.simps(1) zero_less_Suc)
  ultimately show ?case by (subst loop_step) (simp add: poll_poll del: poll.simps One_nat_def)
qed

lemma loop_eventually:
  assumes "ready (poll hw port n log)"
  obtains k where "loop log = finish (poll hw port (Suc k) log)"
proof -
  obtain k where "ready (poll hw port k log)" "\<forall>j < k. \<not> ready (poll hw port j log)"
    using assms by (rule first_nat)
  then show thesis using loop_after that by blast
qed

lemma loop_hangs: "\<forall>n. \<not> ready (poll hw port n log) \<Longrightarrow> loop log = hang"
  using loop_returns by (cases "loop log") blast+

end

section \<open>The spin lock\<close>

text \<open>\<open>lock bts $0,(lock)\<close>: the carry flag gets bit 0 of the lock, and the bit is set.\<close>

definition lock_bts :: "u32 \<Rightarrow> bool \<times> u32" where
  "lock_bts l = (bit l 0, set_bit 0 l)"

text \<open>
  The retry loop, as one thread of control that nobody else interferes with runs it. The
  instruction \<open>lock btr\<close> of the release clears the bit.
\<close>

partial_function (option) sl_acquire :: "u32 \<Rightarrow> u32 res" where
  "sl_acquire l = (case lock_bts l of (cf, l') \<Rightarrow> if cf then sl_acquire l' else ok l')"

definition sl_release :: "u32 \<Rightarrow> u32" where
  "sl_release l = unset_bit 0 l"

lemma sl_acquire_free: "\<not> bit l 0 \<Longrightarrow> sl_acquire l = ok (set_bit 0 l)"
  by (simp add: sl_acquire.simps lock_bts_def)

lemma sl_acquire_returns:
  assumes "sl_acquire l = Some r"
  shows "\<not> bit l 0"
proof (rule sl_acquire.raw_induct [where P = "\<lambda>l r. \<not> bit l 0", OF _ assms])
  fix f l r
  assume IH: "\<And>l r. f l = Some r \<Longrightarrow> \<not> bit l 0"
    and eq: "(case lock_bts l of (cf, l') \<Rightarrow> if cf then f l' else ok l') = Some r"
  show "\<not> bit l 0"
  proof
    assume "bit l 0"
    with eq have "f (set_bit 0 l) = Some r" by (simp add: lock_bts_def)
    then have "\<not> bit (set_bit 0 l) 0" by (rule IH)
    then show False by (simp add: bit_set_bit_iff)
  qed
qed

lemma sl_acquire_held: "bit l 0 \<Longrightarrow> sl_acquire l = hang"
  using sl_acquire_returns [of l] by (cases "sl_acquire l") auto

lemma sl_release_acquire: "\<not> bit l 0 \<Longrightarrow> sl_release (set_bit 0 l) = l"
  by (rule bit_eqI)
    (metis bit_set_bit_iff bit_unset_bit_iff sl_release_def)

section \<open>Properties\<close>

text \<open>
  \<open>sl_acquire\<close> takes a free lock and returns with it set, and never returns when the lock is
  held; a released lock can be taken again.
\<close>

lemma sl_acquire_exact:
  "sl_acquire l = (if bit l 0 then hang else ok (set_bit 0 l)) \<and>
   sl_acquire (sl_release l) = ok (set_bit 0 l)"
proof -
  have "\<not> bit (sl_release l) 0" by (simp add: sl_release_def bit_unset_bit_iff)
  then have "sl_acquire (sl_release l) = ok (set_bit 0 (sl_release l))" by (rule sl_acquire_free)
  moreover have "set_bit 0 (sl_release l) = set_bit 0 l"
    by (rule bit_eqI) (auto simp: sl_release_def bit_set_bit_iff bit_unset_bit_iff)
  ultimately show ?thesis by (simp add: sl_acquire_held sl_acquire_free)
qed

end
