(* ===== verification/Sink.thy ===== *)
theory Sink
  imports Prelude
begin

text \<open>
  The interface between the output routines of the kernel and the devices that take characters:
  an operation that consumes one character, an invariant it keeps, and the characters it accepts.
  \<open>transcript\<close> adds that the device remembers what it was given, \<open>simulated_sink\<close> that it behaves
  like an abstract device. The client's lemmas are about a whole text, sent character by
  character with \<open>fold_res\<close>.
\<close>

locale sink =
  fixes put :: "u8 \<Rightarrow> 's \<Rightarrow> 's res" and inv :: "'s \<Rightarrow> bool" and fits :: "u8 \<Rightarrow> bool"
  assumes put_ok: "inv s \<Longrightarrow> fits c \<Longrightarrow> \<exists>s'. put c s = ok s' \<and> inv s'"
begin

lemma put_inv: "inv s \<Longrightarrow> fits c \<Longrightarrow> put c s = ok s' \<Longrightarrow> inv s'"
  using put_ok by fastforce

lemma text_ok: "inv s \<Longrightarrow> list_all fits cs \<Longrightarrow> \<exists>s'. fold_res put cs s = ok s' \<and> inv s'"
proof (induction cs arbitrary: s)
  case (Cons c cs)
  then obtain s' where "put c s = ok s'" "inv s'" using put_ok by fastforce
  with Cons show ?case by simp
qed simp

lemma text_inv: "inv s \<Longrightarrow> list_all fits cs \<Longrightarrow> fold_res put cs s = ok s' \<Longrightarrow> inv s'"
  using text_ok by fastforce

end

locale transcript = sink put inv fits
  for put :: "u8 \<Rightarrow> 's \<Rightarrow> 's res" and inv :: "'s \<Rightarrow> bool" and fits :: "u8 \<Rightarrow> bool" +
  fixes sent :: "'s \<Rightarrow> u8 list"
  assumes put_sent: "inv s \<Longrightarrow> fits c \<Longrightarrow> put c s = ok s' \<Longrightarrow> sent s' = sent s @ [c]"
begin

lemma text_sent:
  "inv s \<Longrightarrow> list_all fits cs \<Longrightarrow> fold_res put cs s = ok s' \<Longrightarrow> sent s' = sent s @ cs"
proof (induction cs arbitrary: s)
  case (Cons c cs)
  then obtain t where t: "put c s = ok t" "fold_res put cs t = ok s'" by auto
  have "inv t" using Cons.prems t by (auto intro: put_inv)
  then show ?case using Cons t put_sent by fastforce
qed simp

end

locale simulated_sink = sink put inv fits
  for put :: "u8 \<Rightarrow> 's \<Rightarrow> 's res" and inv :: "'s \<Rightarrow> bool" and fits :: "u8 \<Rightarrow> bool" +
  fixes abstract :: "'s \<Rightarrow> 'a" and abstract_put :: "u8 \<Rightarrow> 'a \<Rightarrow> 'a"
  assumes put_abstract:
    "inv s \<Longrightarrow> fits c \<Longrightarrow> put c s = ok s' \<Longrightarrow> abstract s' = abstract_put c (abstract s)"
begin

lemma text_abstract:
  "inv s \<Longrightarrow> list_all fits cs \<Longrightarrow> fold_res put cs s = ok s' \<Longrightarrow>
   abstract s' = fold abstract_put cs (abstract s)"
proof (induction cs arbitrary: s)
  case (Cons c cs)
  then obtain t where t: "put c s = ok t" "fold_res put cs t = ok s'" by auto
  have "inv t" using Cons.prems t by (auto intro: put_inv)
  then show ?case using Cons t put_abstract by fastforce
qed simp

end

end
