(* ===== verification/Serial.thy ===== *)
theory Serial
  imports Ports Sink
begin

text \<open>
  The serial port COM1: kernel/drivers/serial/serial.c.

  Sending and receiving wait for a status bit in an unbounded loop, so both are partial. The
  lemmas say exactly when they return and what the port history then is. \<open>uart_live\<close> is the
  documented behaviour the kernel relies on: the transmitter of a 16550 becomes empty again after
  finitely many reads of its status. \<open>com1_sent\<close> is the abstraction: the bytes handed to COM1, in
  order.
\<close>

abbreviation COM1 :: u32 where
  "COM1 \<equiv> 0x3F8"

definition serial_init :: "io_trace \<Rightarrow> io_trace" where
  "serial_init log =
     outb (COM1 + 4) 0x0F (outb (COM1 + 4) 0x0B (outb (COM1 + 2) 0xC7
    (outb (COM1 + 3) 0x03 (outb (COM1 + 1) 0x00 (outb (COM1 + 0) 0x03
    (outb (COM1 + 3) 0x80 (outb (COM1 + 1) 0x01 log)))))))"

definition serial_has_tx :: "hw \<Rightarrow> io_trace \<Rightarrow> u32 \<times> io_trace" where
  "serial_has_tx hw log = (case inb hw (COM1 + 5) log of (v, log') \<Rightarrow> (ucast v AND 0x20, log'))"

definition serial_has_rx :: "hw \<Rightarrow> io_trace \<Rightarrow> u32 \<times> io_trace" where
  "serial_has_rx hw log = (case inb hw (COM1 + 5) log of (v, log') \<Rightarrow> (ucast v AND 1, log'))"

partial_function (option) serial_tx :: "hw \<Rightarrow> u8 \<Rightarrow> io_trace \<Rightarrow> io_trace res" where
  "serial_tx hw a log =
     (case serial_has_tx hw log of
        (t, log') \<Rightarrow> if t = 0 then serial_tx hw a log' else ok (outb COM1 (scast a) log'))"

partial_function (option) serial_rx :: "hw \<Rightarrow> io_trace \<Rightarrow> (u8 \<times> io_trace) res" where
  "serial_rx hw log =
     (case serial_has_rx hw log of
        (t, log') \<Rightarrow> if t = 0 then serial_rx hw log' else ok (inb hw COM1 log'))"

section \<open>When the loops end\<close>

definition tx_ready :: "hw \<Rightarrow> io_trace \<Rightarrow> bool" where
  "tx_ready hw log \<longleftrightarrow> bit (port_byte hw 0x3FD log) 5"

definition rx_ready :: "hw \<Rightarrow> io_trace \<Rightarrow> bool" where
  "rx_ready hw log \<longleftrightarrow> bit (port_byte hw 0x3FD log) 0"

definition uart_live :: "hw \<Rightarrow> bool" where
  "uart_live hw \<longleftrightarrow> (\<forall>log. \<exists>n. tx_ready hw (poll hw 0x3FD n log))"

lemma bit_mask_5: "(ucast (v :: u8) AND (0x20 :: u32) = 0) \<longleftrightarrow> \<not> bit v 5"
  using and_exp_eq_0_iff_not_bit [of "ucast v :: u32" 5] by (simp add: bit_simps)

lemma bit_mask_0: "(ucast (v :: u8) AND (1 :: u32) = 0) \<longleftrightarrow> \<not> bit v 0"
  using and_exp_eq_0_iff_not_bit [of "ucast v :: u32" 0] by (simp add: bit_simps)

lemma serial_has_tx_eq:
  "serial_has_tx hw log = (ucast (port_byte hw 0x3FD log) AND 0x20, poll hw 0x3FD 1 log)"
  by (simp add: serial_has_tx_def inb_def port_byte_def Let_def)

lemma serial_has_rx_eq:
  "serial_has_rx hw log = (ucast (port_byte hw 0x3FD log) AND 1, poll hw 0x3FD 1 log)"
  by (simp add: serial_has_rx_def inb_def port_byte_def Let_def)

lemma outb_COM1: "outb COM1 (scast a) log = Outb 0x3F8 a # log"
  by (simp add: outb_def char_byte)

lemma serial_tx_step:
  "serial_tx hw a log =
     (if tx_ready hw log then ok (Outb 0x3F8 a # poll hw 0x3FD 1 log)
      else serial_tx hw a (poll hw 0x3FD 1 log))"
  by (subst serial_tx.simps)
    (simp add: serial_has_tx_eq bit_mask_5 tx_ready_def outb_COM1 del: One_nat_def)

lemma serial_tx_returns:
  assumes "serial_tx hw a log = Some r"
  shows "\<exists>n. tx_ready hw (poll hw 0x3FD n log)"
proof (rule serial_tx.raw_induct [where P = "\<lambda>hw a log r. \<exists>n. tx_ready hw (poll hw 0x3FD n log)", OF _ assms])
  fix f hw a log r
  assume IH: "\<And>hw a log r. f hw a log = Some r \<Longrightarrow> \<exists>n. tx_ready hw (poll hw 0x3FD n log)"
    and eq: "(case serial_has_tx hw log of
      (t, log') \<Rightarrow> if t = 0 then f hw a log' else ok (outb COM1 (scast a) log')) = Some r"
  show "\<exists>n. tx_ready hw (poll hw 0x3FD n log)"
  proof (cases "tx_ready hw log")
    case True
    then show ?thesis by (metis poll.simps(1))
  next
    case False
    with eq have "f hw a (poll hw 0x3FD 1 log) = Some r"
      by (simp add: serial_has_tx_eq bit_mask_5 tx_ready_def del: One_nat_def)
    then obtain n where "tx_ready hw (poll hw 0x3FD n (poll hw 0x3FD 1 log))" using IH by blast
    then show ?thesis by (metis poll_poll)
  qed
qed

lemma serial_rx_step:
  "serial_rx hw log =
     (if rx_ready hw log then ok (inb hw COM1 (poll hw 0x3FD 1 log))
      else serial_rx hw (poll hw 0x3FD 1 log))"
  by (subst serial_rx.simps)
    (simp add: serial_has_rx_eq bit_mask_0 rx_ready_def del: One_nat_def)

lemma serial_rx_returns:
  assumes "serial_rx hw log = Some r"
  shows "\<exists>n. rx_ready hw (poll hw 0x3FD n log)"
proof (rule serial_rx.raw_induct [where P = "\<lambda>hw log r. \<exists>n. rx_ready hw (poll hw 0x3FD n log)", OF _ assms])
  fix f hw log r
  assume IH: "\<And>hw log r. f hw log = Some r \<Longrightarrow> \<exists>n. rx_ready hw (poll hw 0x3FD n log)"
    and eq: "(case serial_has_rx hw log of
      (t, log') \<Rightarrow> if t = 0 then f hw log' else ok (inb hw COM1 log')) = Some r"
  show "\<exists>n. rx_ready hw (poll hw 0x3FD n log)"
  proof (cases "rx_ready hw log")
    case True
    then show ?thesis by (metis poll.simps(1))
  next
    case False
    with eq have "f hw (poll hw 0x3FD 1 log) = Some r"
      by (simp add: serial_has_rx_eq bit_mask_0 rx_ready_def del: One_nat_def)
    then obtain n where "rx_ready hw (poll hw 0x3FD n (poll hw 0x3FD 1 log))" using IH by blast
    then show ?thesis by (metis poll_poll)
  qed
qed

interpretation tx: polling_loop hw "0x3FD" "tx_ready hw" "serial_tx hw a" "\<lambda>log. ok (Outb 0x3F8 a # log)"
  for hw a
  by unfold_locales (rule serial_tx_step, erule serial_tx_returns)

interpretation rx: polling_loop hw "0x3FD" "rx_ready hw" "serial_rx hw" "\<lambda>log. ok (inb hw COM1 log)"
  for hw
  by unfold_locales (rule serial_rx_step, erule serial_rx_returns)

section \<open>What is sent\<close>

fun com1_sent :: "io_trace \<Rightarrow> u8 list" where
  "com1_sent [] = []"
| "com1_sent (Outb p v # log) = com1_sent log @ (if p = 0x3F8 then [v] else [])"
| "com1_sent (_ # log) = com1_sent log"

lemma com1_sent_poll [simp]: "com1_sent (poll hw p n log) = com1_sent log"
  by (induction n) (simp_all add: Let_def)

lemma serial_tx_live:
  assumes "uart_live hw"
  shows "\<exists>log'. serial_tx hw a log = ok log' \<and> com1_sent log' = com1_sent log @ [a]"
proof -
  obtain n where "tx_ready hw (poll hw 0x3FD n log)" using assms uart_live_def by blast
  then obtain k where "serial_tx hw a log = ok (Outb 0x3F8 a # poll hw 0x3FD (Suc k) log)"
    by (rule tx.loop_eventually)
  then show ?thesis by (simp del: poll.simps)
qed

interpretation com1: transcript "serial_tx hw" "\<lambda>_. uart_live hw" "\<lambda>_. True" com1_sent
  for hw
proof unfold_locales
  fix log log' a
  assume live: "uart_live hw"
  then show "\<exists>log'. serial_tx hw a log = ok log' \<and> uart_live hw" using serial_tx_live by blast
  assume "serial_tx hw a log = ok log'"
  with serial_tx_live [OF live, of a log] show "com1_sent log' = com1_sent log @ [a]" by auto
qed

section \<open>Properties\<close>

text \<open>
  \<open>serial_tx\<close> reads the line status until the transmitter is empty, once more than it was
  found busy, and then writes its byte to COM1; when the transmitter never becomes empty it does
  not return.
\<close>

lemma serial_tx_exact:
  "serial_tx hw a log =
     (if \<exists>n. tx_ready hw (poll hw 0x3FD n log)
      then ok (Outb 0x3F8 a # poll hw 0x3FD (Suc (LEAST n. tx_ready hw (poll hw 0x3FD n log))) log)
      else hang)"
proof (cases "\<exists>n. tx_ready hw (poll hw 0x3FD n log)")
  case True
  let ?n = "LEAST n. tx_ready hw (poll hw 0x3FD n log)"
  have "tx_ready hw (poll hw 0x3FD ?n log)" using True by (rule LeastI_ex)
  moreover have "\<forall>k < ?n. \<not> tx_ready hw (poll hw 0x3FD k log)" using not_less_Least by blast
  ultimately have "serial_tx hw a log = ok (Outb 0x3F8 a # poll hw 0x3FD (Suc ?n) log)"
    by (rule tx.loop_after [rotated])
  with True show ?thesis by (simp del: poll.simps)
next
  case False
  then show ?thesis by (simp add: tx.loop_hangs)
qed

text \<open>
  \<open>serial_rx\<close> returns the byte COM1 delivers on the first read of the data port after the line
  status has shown that data is there, and does not return when data never comes.
\<close>

lemma serial_rx_exact:
  "serial_rx hw log =
     (if \<exists>n. rx_ready hw (poll hw 0x3FD n log)
      then let l = poll hw 0x3FD (Suc (LEAST n. rx_ready hw (poll hw 0x3FD n log))) log
           in ok (port_byte hw 0x3F8 l, Inb 0x3F8 (port_byte hw 0x3F8 l) # l)
      else hang)"
proof (cases "\<exists>n. rx_ready hw (poll hw 0x3FD n log)")
  case True
  let ?n = "LEAST n. rx_ready hw (poll hw 0x3FD n log)"
  have "rx_ready hw (poll hw 0x3FD ?n log)" using True by (rule LeastI_ex)
  moreover have "\<forall>k < ?n. \<not> rx_ready hw (poll hw 0x3FD k log)" using not_less_Least by blast
  ultimately have "serial_rx hw log = ok (inb hw COM1 (poll hw 0x3FD (Suc ?n) log))"
    by (rule rx.loop_after [rotated])
  with True show ?thesis by (simp add: inb_def port_byte_def Let_def del: poll.simps)
next
  case False
  then show ?thesis by (simp add: rx.loop_hangs)
qed

end
