(* ===== verification/Vga.thy ===== *)
theory Vga
  imports Serial
begin

text \<open>
  The VGA text driver: kernel/drivers/vga/vga.c.

  \<open>vga_buf\<close> is the object \<open>Vga_buf\<close>: 25 rows of 80 cells of two bytes, used as a ring of rows.
  \<open>vgabuf_start_row\<close> is the row shown at the top of the display; \<open>VGA_flush\<close> copies the ring to
  video memory at 0xb8000, unrolled. The operations follow the code, with the 8-bit wrap-around of
  its counters.

  The lemmas are about the cells of the buffer: what one assignment and one cleared row change. That
  the driver implements a terminal is in \<open>Terminal\<close>.
\<close>

abbreviation WIDTH :: nat where "WIDTH \<equiv> 80"
abbreviation HEIGHT :: nat where "HEIGHT \<equiv> 25"

definition default_color_code :: u8 where
  "default_color_code = 10"

definition vram :: ptr where
  "vram = (Phys, 0xb8000)"

definition VGA_idx :: "nat \<Rightarrow> nat \<Rightarrow> nat" where
  "VGA_idx row col = (row * WIDTH * 2) + (col * 2)"

definition VGA_set :: "nat \<Rightarrow> nat \<Rightarrow> u8 \<Rightarrow> u8 \<Rightarrow> machine \<Rightarrow> machine res" where
  "VGA_set row col c color_code s =
     bind_res (store (mem s) (Vga_buf, of_nat (VGA_idx row col)) c) (\<lambda>m.
     bind_res (store m (Vga_buf, of_nat (VGA_idx row col + 1)) color_code) (\<lambda>m'.
     ok (s\<lparr>mem := m'\<rparr>)))"

definition VGA_flush :: "machine \<Rightarrow> machine res" where
  "VGA_flush s =
     (let start = ucast (vgabuf_start_row s) :: u32;
          topwrite = (of_nat HEIGHT - start) * of_nat WIDTH * 2
      in bind_res (memcpy (padd (Vga_buf, 0) (start * of_nat WIDTH * 2)) vram topwrite (mem s)) (\<lambda>m.
         bind_res (memcpy (Vga_buf, 0) (padd vram topwrite) (start * of_nat WIDTH * 2) m) (\<lambda>m'.
         ok (s\<lparr>mem := m'\<rparr>))))"

definition VGA_clear_screen :: "machine \<Rightarrow> machine res" where
  "VGA_clear_screen s =
     bind_res
       (for_range 0 (HEIGHT - 1) (\<lambda>r. for_range 0 WIDTH (\<lambda>c. VGA_set r c 32 default_color_code)) s)
       (\<lambda>s. VGA_flush (s\<lparr>vgabuf_start_row := 0, vgabuf_col := 0, vgabuf_row := 0\<rparr>))"

definition VGA_clear_line :: "machine \<Rightarrow> machine res" where
  "VGA_clear_line s =
     for_range 0 WIDTH (\<lambda>i s. VGA_set (unat (vgabuf_start_row s)) i 32 default_color_code s) s"

text \<open>\<open>(x + 1) % HEIGHT\<close> is computed in \<open>int\<close> and stored in a byte.\<close>

definition row_succ :: "u8 \<Rightarrow> u8" where
  "row_succ x = of_nat ((unat x + 1) mod HEIGHT)"

text \<open>Lines 62 to 73 and, word for word again, lines 80 to 91 of vga.c.\<close>

definition VGA_next_line :: "machine \<Rightarrow> machine res" where
  "VGA_next_line s0 =
     (let s = s0\<lparr>vgabuf_row := row_succ (vgabuf_row s0), vgabuf_col := 0\<rparr>
      in if vgabuf_start_row s > 0 \<or> vgabuf_row s = 0 then
           VGA_clear_line
             (if vgabuf_move_row s = vgabuf_start_row s
              then s\<lparr>vgabuf_start_row := row_succ (vgabuf_start_row s),
                     vgabuf_move_row := row_succ (vgabuf_start_row s)\<rparr>
              else s\<lparr>vgabuf_move_row := vgabuf_move_row s + 1\<rparr>)
         else ok s)"

definition VGA_putc :: "u8 \<Rightarrow> machine \<Rightarrow> machine res" where
  "VGA_putc c s0 =
     bind_res (if unat (vgabuf_col s0) = WIDTH then VGA_next_line s0 else ok s0) (\<lambda>s.
     if c = 10 then
       bind_res
         (for_range (unat (vgabuf_col s)) WIDTH
            (\<lambda>i s. VGA_set (unat (vgabuf_row s)) i 32 default_color_code s) s)
         VGA_next_line
     else if c = 8 then
       (if vgabuf_col s = 0
        then ok (s\<lparr>vgabuf_col := of_nat (WIDTH - 1), vgabuf_row := vgabuf_row s - 1,
                   vgabuf_move_row := vgabuf_move_row s - 1\<rparr>)
        else ok (s\<lparr>vgabuf_col := vgabuf_col s - 1\<rparr>))
     else
       bind_res (VGA_set (unat (vgabuf_row s)) (unat (vgabuf_col s)) c default_color_code s)
         (\<lambda>s. ok (s\<lparr>vgabuf_col := vgabuf_col s + 1\<rparr>)))"

section \<open>Cells of the buffer\<close>

definition cell :: "mem \<Rightarrow> nat \<Rightarrow> nat \<Rightarrow> u8 \<times> u8" where
  "cell m row col =
     (m Vga_buf (of_nat (VGA_idx row col)), m Vga_buf (of_nat (VGA_idx row col + 1)))"

definition put_cell :: "nat \<Rightarrow> nat \<Rightarrow> u8 \<Rightarrow> mem \<Rightarrow> mem" where
  "put_cell row col c m =
     m(Vga_buf := (m Vga_buf)(of_nat (VGA_idx row col) := c,
                              of_nat (VGA_idx row col + 1) := default_color_code))"

definition put_row :: "nat \<Rightarrow> nat \<Rightarrow> nat \<Rightarrow> mem \<Rightarrow> mem" where
  "put_row row lo hi m = fold (\<lambda>i. put_cell row i 32) [lo..<hi] m"

lemma VGA_idx_less: "row < HEIGHT \<Longrightarrow> col < WIDTH \<Longrightarrow> VGA_idx row col + 1 < 4000"
  by (simp add: VGA_idx_def)

lemma double_not_Suc_double: "2 * x \<noteq> Suc (2 * y)"
  by presburger

lemma VGA_idx_inj:
  assumes "col < WIDTH" and "col' < WIDTH"
  shows "VGA_idx row col = VGA_idx row' col' \<longleftrightarrow> row = row' \<and> col = col'"
    and "VGA_idx row col \<noteq> Suc (VGA_idx row' col')"
proof -
  have two: "VGA_idx r c = 2 * (80 * r + c)" for r c by (simp add: VGA_idx_def)
  have "80 * row + col = 80 * row' + col' \<longleftrightarrow> row = row' \<and> col = col'"
  proof
    assume eq: "80 * row + col = 80 * row' + col'"
    then have "(80 * row + col) mod 80 = (80 * row' + col') mod 80" by (rule arg_cong)
    then have "col = col'" using assms by simp
    with eq show "row = row' \<and> col = col'" by simp
  qed simp
  then show "VGA_idx row col = VGA_idx row' col' \<longleftrightarrow> row = row' \<and> col = col'"
    unfolding two by (subst nat_mult_eq_cancel1) simp_all
  show "VGA_idx row col \<noteq> Suc (VGA_idx row' col')" unfolding two by (rule double_not_Suc_double)
qed

lemma VGA_set_in:
  assumes "row < HEIGHT" and "col < WIDTH"
  shows "VGA_set row col c default_color_code s = ok (s\<lparr>mem := put_cell row col c (mem s)\<rparr>)"
proof -
  have "unat (of_nat (VGA_idx row col) :: u32) = VGA_idx row col"
    and "unat (of_nat (VGA_idx row col + 1) :: u32) = VGA_idx row col + 1"
    using VGA_idx_less [OF assms] by (simp_all only: unat_u32_of_nat)
  then show ?thesis
    using VGA_idx_less [OF assms]
    by (simp add: VGA_set_def store_def put_cell_def del: of_nat_add of_nat_Suc)
qed

lemma VGA_set_out:
  assumes "HEIGHT \<le> row" and "row < 256" and "col \<le> WIDTH"
  shows "VGA_set row col c k s = fail Write_oob"
proof -
  have ge: "4000 \<le> VGA_idx row col" and "VGA_idx row col < 4294967296"
    using assms by (auto simp: VGA_idx_def)
  then have "unat (of_nat (VGA_idx row col) :: u32) = VGA_idx row col" by simp
  with ge show ?thesis by (simp add: VGA_set_def store_def)
qed

lemma cell_put_cell:
  assumes "row < HEIGHT" "col < WIDTH" "row' < HEIGHT" "col' < WIDTH"
  shows "cell (put_cell row col c m) row' col' =
    (if row = row' \<and> col = col' then (c, default_color_code) else cell m row' col')"
proof -
  have idx: "(of_nat (VGA_idx row' col') :: u32) = of_nat (VGA_idx row col) \<longleftrightarrow> row = row' \<and> col = col'"
    "(of_nat (Suc (VGA_idx row' col')) :: u32) = of_nat (Suc (VGA_idx row col)) \<longleftrightarrow> row = row' \<and> col = col'"
    "(of_nat (VGA_idx row' col') :: u32) \<noteq> of_nat (Suc (VGA_idx row col))"
    "(of_nat (Suc (VGA_idx row' col')) :: u32) \<noteq> of_nat (VGA_idx row col)"
    using assms VGA_idx_less [OF assms(1,2)] VGA_idx_less [OF assms(3,4)]
      VGA_idx_inj [of col col' row row'] VGA_idx_inj [of col' col row' row]
    by (subst of_nat_u32_eq; auto)+
  show ?thesis
    using idx by (auto simp add: cell_def put_cell_def simp del: of_nat_Suc)
qed

lemma cell_put_row:
  assumes "row < HEIGHT" "hi \<le> WIDTH" "row' < HEIGHT" "col' < WIDTH"
  shows "cell (put_row row lo hi m) row' col' =
    (if row = row' \<and> lo \<le> col' \<and> col' < hi then (32, default_color_code) else cell m row' col')"
  using assms(2)
proof (induction hi)
  case 0
  then show ?case by (simp add: put_row_def)
next
  case (Suc hi)
  show ?case
  proof (cases "lo \<le> hi")
    case True
    then have "put_row row lo (Suc hi) m = put_cell row hi 32 (put_row row lo hi m)"
      by (simp add: put_row_def)
    then show ?thesis
      using Suc assms True by (auto simp: cell_put_cell less_Suc_eq)
  next
    case False
    then show ?thesis by (auto simp: put_row_def)
  qed
qed

lemma put_cell_other: "b \<noteq> Vga_buf \<Longrightarrow> put_cell row col c m b = m b"
  by (simp add: put_cell_def)

lemma put_row_other: "b \<noteq> Vga_buf \<Longrightarrow> put_row row lo hi m b = m b"
  by (induction hi) (simp_all add: put_row_def put_cell_other)

lemma fill_row:
  assumes "unat (f s) < HEIGHT" and "lo \<le> WIDTH" and "\<And>m. f (s\<lparr>mem := m\<rparr>) = f s"
  shows "for_range lo WIDTH (\<lambda>i s. VGA_set (unat (f s)) i 32 default_color_code s) s =
    ok (s\<lparr>mem := put_row (unat (f s)) lo WIDTH (mem s)\<rparr>)"
proof -
  let ?F = "\<lambda>i. s\<lparr>mem := put_row (unat (f s)) lo i (mem s)\<rparr>"
  have "for_range lo WIDTH (\<lambda>i s. VGA_set (unat (f s)) i 32 default_color_code s) (?F lo) = ok (?F WIDTH)"
    using assms by (intro for_range_exact) (auto simp: VGA_set_in put_row_def)
  moreover have "?F lo = s" by (simp add: put_row_def)
  ultimately show ?thesis by simp
qed

lemma VGA_clear_line_in:
  "unat (vgabuf_start_row s) < HEIGHT \<Longrightarrow>
   VGA_clear_line s = ok (s\<lparr>mem := put_row (unat (vgabuf_start_row s)) 0 WIDTH (mem s)\<rparr>)"
  unfolding VGA_clear_line_def by (rule fill_row) simp_all

lemma unat_row_succ [simp]: "unat (row_succ x) = (unat x + 1) mod HEIGHT"
proof -
  have "(unat x + 1) mod HEIGHT < 256" using mod_less_divisor [of HEIGHT "unat x + 1"] by linarith
  then show ?thesis by (simp add: row_succ_def unat_of_nat take_bit_nat_eq_self)
qed

end
