(* ===== verification/Terminal.thy ===== *)
theory Terminal
  imports Vga
begin

text \<open>
  The abstract terminal that vga.c implements, and the proof that it does.

  \<open>terminal\<close> is what a user sees: 25 lines of 80 cells and a cursor. A newline on the last line
  scrolls: the lines move up by one, the line that was on top comes back at the bottom, and the new
  top line is blank. \<open>term_of\<close> reads the terminal off the driver's ring. It is meaningful while
  \<open>vga_inv\<close> (the cursor is inside the buffer) and \<open>in_step\<close> (the ring starts at row 0, or just
  after the cursor's row) hold, which every character keeps but a backspace in column 0.
\<close>

type_synonym glyph = "u8 \<times> u8"

record terminal =
  lines :: "glyph list list"
  trow :: nat
  tcol :: nat

definition blank :: glyph where
  "blank = (32, default_color_code)"

definition term_newline :: "terminal \<Rightarrow> terminal" where
  "term_newline t =
     (if trow t = HEIGHT - 1
      then t\<lparr>lines := replicate WIDTH blank # drop 2 (lines t) @ [lines t ! 0], tcol := 0\<rparr>
      else t\<lparr>trow := trow t + 1, tcol := 0\<rparr>)"

definition term_cut :: "terminal \<Rightarrow> terminal" where
  "term_cut t =
     t\<lparr>lines := (lines t)[trow t :=
        take (tcol t) (lines t ! trow t) @ replicate (WIDTH - tcol t) blank]\<rparr>"

definition term_put :: "u8 \<Rightarrow> terminal \<Rightarrow> terminal" where
  "term_put c t =
     t\<lparr>lines := (lines t)[trow t := (lines t ! trow t)[tcol t := (c, default_color_code)]],
       tcol := tcol t + 1\<rparr>"

definition term_putc :: "u8 \<Rightarrow> terminal \<Rightarrow> terminal" where
  "term_putc c t0 =
     (let t = (if tcol t0 = WIDTH then term_newline t0 else t0)
      in if c = 10 then term_newline (term_cut t)
         else if c = 8 then t\<lparr>tcol := tcol t - 1\<rparr>
         else term_put c t)"

section \<open>The terminal of a driver state\<close>

definition screen :: "(nat \<Rightarrow> nat \<Rightarrow> glyph) \<Rightarrow> glyph list list" where
  "screen f = map (\<lambda>r. map (f r) [0..<WIDTH]) [0..<HEIGHT]"

definition ring_row :: "machine \<Rightarrow> nat \<Rightarrow> nat" where
  "ring_row s r = (unat (vgabuf_start_row s) + r) mod HEIGHT"

definition term_of :: "machine \<Rightarrow> terminal" where
  "term_of s = \<lparr>lines = screen (\<lambda>r. cell (mem s) (ring_row s r)),
     trow = (unat (vgabuf_row s) + HEIGHT - unat (vgabuf_start_row s)) mod HEIGHT,
     tcol = unat (vgabuf_col s)\<rparr>"

definition vga_inv :: "machine \<Rightarrow> bool" where
  "vga_inv s \<longleftrightarrow> unat (vgabuf_row s) < HEIGHT \<and> unat (vgabuf_col s) \<le> WIDTH \<and>
     unat (vgabuf_start_row s) < HEIGHT"

definition in_step :: "machine \<Rightarrow> bool" where
  "in_step s \<longleftrightarrow> vgabuf_move_row s = vgabuf_start_row s \<and>
     (vgabuf_start_row s = 0 \<or> vgabuf_start_row s = row_succ (vgabuf_row s))"

text \<open>What the driver's character output leaves alone.\<close>

definition same_rest :: "machine \<Rightarrow> machine \<Rightarrow> bool" where
  "same_rest s s' \<longleftrightarrow> io_log s' = io_log s \<and> lock s' = lock s \<and>
     (\<forall>b. b \<noteq> Vga_buf \<longrightarrow> mem s' b = mem s b)"

lemma same_rest_refl [simp]: "same_rest s s"
  by (simp add: same_rest_def)

lemma same_rest_trans: "same_rest s t \<Longrightarrow> same_rest t u \<Longrightarrow> same_rest s u"
  by (simp add: same_rest_def)

lemma screen_cong: "(\<And>r c. r < HEIGHT \<Longrightarrow> c < WIDTH \<Longrightarrow> f r c = g r c) \<Longrightarrow> screen f = screen g"
  by (simp add: screen_def)

lemma length_screen [simp]: "length (screen f) = HEIGHT"
  by (simp add: screen_def)

lemma nth_screen [simp]: "r < HEIGHT \<Longrightarrow> screen f ! r = map (f r) [0..<WIDTH]"
  by (simp add: screen_def)

lemma screen_set:
  assumes "r < HEIGHT"
  shows "(screen f)[r := map g [0..<WIDTH]] = screen (f(r := g))"
  by (rule nth_equalityI) (auto simp: nth_list_update)

lemma screen_put:
  assumes "r < HEIGHT" and "c < WIDTH"
  shows "(screen f)[r := (screen f ! r)[c := v]] = screen (\<lambda>r' c'. if r' = r \<and> c' = c then v else f r' c')"
proof -
  have "(screen f ! r)[c := v] = map ((f r)(c := v)) [0..<WIDTH]"
    using assms by (intro nth_equalityI) (auto simp: nth_list_update)
  then have "(screen f)[r := (screen f ! r)[c := v]] = screen (f(r := (f r)(c := v)))"
    using assms by (simp only: screen_set)
  also have "\<dots> = screen (\<lambda>r' c'. if r' = r \<and> c' = c then v else f r' c')"
    by (rule screen_cong) auto
  finally show ?thesis .
qed

lemma screen_cut:
  assumes "r < HEIGHT" and "c \<le> WIDTH"
  shows "(screen f)[r := take c (screen f ! r) @ replicate (WIDTH - c) v] =
    screen (\<lambda>r' c'. if r' = r \<and> c \<le> c' then v else f r' c')"
proof -
  have "take c (screen f ! r) @ replicate (WIDTH - c) v = map (\<lambda>c'. if c \<le> c' then v else f r c') [0..<WIDTH]"
    using assms by (intro nth_equalityI) (auto simp: nth_append)
  then have "(screen f)[r := take c (screen f ! r) @ replicate (WIDTH - c) v] =
      screen (f(r := (\<lambda>c'. if c \<le> c' then v else f r c')))"
    using assms by (simp only: screen_set)
  also have "\<dots> = screen (\<lambda>r' c'. if r' = r \<and> c \<le> c' then v else f r' c')"
    by (rule screen_cong) auto
  finally show ?thesis .
qed

lemma screen_scroll:
  "replicate WIDTH v # drop 2 (screen f) @ [screen f ! 0] =
   screen (\<lambda>r c. if r = 0 then v else f (Suc r mod HEIGHT) c)"
proof (rule nth_equalityI)
  fix i assume "i < length (replicate WIDTH v # drop 2 (screen f) @ [screen f ! 0])"
  then have i: "i < HEIGHT" by simp
  show "(replicate WIDTH v # drop 2 (screen f) @ [screen f ! 0]) ! i =
      screen (\<lambda>r c. if r = 0 then v else f (Suc r mod HEIGHT) c) ! i"
  proof (cases i)
    case 0
    then show ?thesis by (simp add: map_replicate_const)
  next
    case (Suc k)
    with i show ?thesis by (cases "k = 23") (auto simp: nth_append)
  qed
qed simp

text \<open>Whatever the state, a character that is accepted changes nothing but the driver's own data.\<close>

lemma VGA_set_rest: "VGA_set row col c k s = ok s' \<Longrightarrow> same_rest s s'"
  by (auto simp: VGA_set_def store_def same_rest_def bind_res_eq_ok split: if_splits)

lemma fill_row_rest:
  "for_range lo hi (\<lambda>i s. VGA_set (f s) i c k s) s = ok s' \<Longrightarrow> same_rest s s'"
  by (rule for_range_rel [where R = same_rest]) (auto intro: VGA_set_rest same_rest_trans)

lemma VGA_next_line_rest: "VGA_next_line s = ok s' \<Longrightarrow> same_rest s s'"
proof -
  assume run: "VGA_next_line s = ok s'"
  have "VGA_clear_line t = ok u \<Longrightarrow> same_rest t u" for t u
    unfolding VGA_clear_line_def by (rule fill_row_rest)
  with run show ?thesis
    by (auto simp: VGA_next_line_def Let_def same_rest_def split: if_splits; fastforce)
qed

lemma VGA_putc_rest: "VGA_putc c s = ok s' \<Longrightarrow> same_rest s s'"
proof -
  assume "VGA_putc c s = ok s'"
  then obtain u where u: "(if unat (vgabuf_col s) = WIDTH then VGA_next_line s else ok s) = ok u"
    and rest: "(if c = 10 then
       bind_res
         (for_range (unat (vgabuf_col u)) WIDTH
            (\<lambda>i s. VGA_set (unat (vgabuf_row s)) i 32 default_color_code s) u)
         VGA_next_line
     else if c = 8 then
       (if vgabuf_col u = 0
        then ok (u\<lparr>vgabuf_col := of_nat (WIDTH - 1), vgabuf_row := vgabuf_row u - 1,
                   vgabuf_move_row := vgabuf_move_row u - 1\<rparr>)
        else ok (u\<lparr>vgabuf_col := vgabuf_col u - 1\<rparr>))
     else
       bind_res (VGA_set (unat (vgabuf_row u)) (unat (vgabuf_col u)) c default_color_code u)
         (\<lambda>s. ok (s\<lparr>vgabuf_col := vgabuf_col s + 1\<rparr>))) = ok s'"
    unfolding VGA_putc_def by (rule bind_res_okE)
  have "same_rest s u" using u by (auto simp: VGA_next_line_rest split: if_splits)
  moreover have "same_rest u s'"
  proof (cases "c = 10")
    case True
    with rest obtain v where "for_range (unat (vgabuf_col u)) WIDTH
            (\<lambda>i s. VGA_set (unat (vgabuf_row s)) i 32 default_color_code s) u = ok v"
      and v: "VGA_next_line v = ok s'" by auto
    then have "same_rest u v" by (intro fill_row_rest)
    then show ?thesis using VGA_next_line_rest [OF v] by (rule same_rest_trans)
  next
    case False
    with rest show ?thesis
      by (auto simp: same_rest_def bind_res_eq_ok split: if_splits
          dest!: VGA_set_rest [unfolded same_rest_def])
  qed
  ultimately show ?thesis by (rule same_rest_trans)
qed

section \<open>The driver implements the terminal\<close>

lemma unat_eq_0_u8: "(x :: u8) = 0 \<longleftrightarrow> unat x = 0"
  by (simp add: unat_eq_zero)

lemma ring_row_less [simp]: "ring_row s r < HEIGHT"
  by (simp add: ring_row_def)

text \<open>While \<open>in_step\<close> holds the ring is scrolled exactly when the cursor is on the last line.\<close>

lemma trow_last:
  assumes "vga_inv s" and "in_step s"
  shows "trow (term_of s) = HEIGHT - 1 \<longleftrightarrow>
    vgabuf_start_row s \<noteq> 0 \<or> row_succ (vgabuf_row s) = 0"
proof (cases "vgabuf_start_row s = 0")
  case True
  have r: "unat (vgabuf_row s) < HEIGHT" using assms(1) by (simp add: vga_inv_def)
  then have "row_succ (vgabuf_row s) = 0 \<longleftrightarrow> unat (vgabuf_row s) = 24"
    by (simp add: unat_eq_0_u8 Suc_mod_ring)
  with r True show ?thesis by (simp add: term_of_def)
next
  case False
  then have "unat (vgabuf_start_row s) = (unat (vgabuf_row s) + 1) mod HEIGHT"
    and "unat (vgabuf_start_row s) \<noteq> 0"
    using assms(2) by (auto simp: in_step_def unat_eq_0_u8)
  moreover have "unat (vgabuf_row s) < HEIGHT" using assms(1) by (simp add: vga_inv_def)
  ultimately have "unat (vgabuf_start_row s) = unat (vgabuf_row s) + 1"
    by (simp add: Suc_mod_ring split: if_splits)
  with False show ?thesis by (simp add: term_of_def)
qed

lemma ring_row_cursor:
  assumes "vga_inv s"
  shows "ring_row s (trow (term_of s)) = unat (vgabuf_row s)"
proof -
  have "unat (vgabuf_row s) < HEIGHT" "unat (vgabuf_start_row s) < HEIGHT"
    using assms by (auto simp: vga_inv_def)
  then show ?thesis by (simp add: ring_row_def term_of_def mod_add_right_eq)
qed

lemma ring_row_inj:
  assumes "r < HEIGHT" and "r' < HEIGHT"
  shows "ring_row s r = ring_row s r' \<longleftrightarrow> r = r'"
proof
  assume "ring_row s r = ring_row s r'"
  then have "r mod HEIGHT = r' mod HEIGHT"
    unfolding ring_row_def by (rule mod_add_left_cancel)
  with assms show "r = r'" by simp
qed simp

text \<open>A newline: the ring turns by one row, or the cursor goes down.\<close>

lemma VGA_next_line_terminal:
  assumes inv: "vga_inv s" and st: "in_step s"
  shows "\<exists>s'. VGA_next_line s = ok s' \<and> vga_inv s' \<and> in_step s' \<and>
    term_of s' = term_newline (term_of s) \<and> same_rest s s'"
proof (cases "trow (term_of s) = HEIGHT - 1")
  case False
  then have start: "vgabuf_start_row s = 0" and nz: "row_succ (vgabuf_row s) \<noteq> 0"
    using trow_last [OF inv st] by auto
  have row: "unat (vgabuf_row s) < HEIGHT" using inv by (simp add: vga_inv_def)
  have "unat (row_succ (vgabuf_row s)) = unat (vgabuf_row s) + 1"
    using nz row by (simp add: unat_eq_0_u8 Suc_mod_ring split: if_splits)
  moreover have lt: "Suc (unat (vgabuf_row s)) < HEIGHT"
    using nz row by (simp add: unat_eq_0_u8 Suc_mod_ring split: if_splits)
  moreover have "(Suc (unat (vgabuf_row s)) + HEIGHT) mod HEIGHT = Suc (unat (vgabuf_row s))"
    using lt by (simp only: mod_add_self2 mod_less)
  ultimately show ?thesis
    using start st nz row False
    by (simp add: VGA_next_line_def vga_inv_def in_step_def term_of_def term_newline_def
        same_rest_def ring_row_def screen_def)
next
  case True
  let ?row = "row_succ (vgabuf_row s)" and ?start = "row_succ (vgabuf_start_row s)"
  let ?m = "put_row (unat ?start) 0 WIDTH (mem s)"
  let ?t = "s\<lparr>vgabuf_row := ?row, vgabuf_col := 0, vgabuf_start_row := ?start,
              vgabuf_move_row := ?start, mem := ?m\<rparr>"
  have cond: "vgabuf_start_row s > 0 \<or> ?row = 0"
    using trow_last [OF inv st] True by (auto simp: word_neq_0_conv)
  have row: "unat (vgabuf_row s) < HEIGHT" "unat (vgabuf_start_row s) < HEIGHT"
    using inv by (auto simp: vga_inv_def)
  have run: "VGA_next_line s = ok ?t"
    using cond st by (simp add: VGA_next_line_def in_step_def VGA_clear_line_in)
  have same: "vgabuf_start_row s = ?row"
    using cond st by (auto simp: in_step_def word_neq_0_conv)
  have lines: "lines (term_of ?t) = replicate WIDTH blank # drop 2 (lines (term_of s)) @ [lines (term_of s) ! 0]"
  proof -
    have "cell ?m (ring_row ?t r) c = (if r = 0 then blank else cell (mem s) (ring_row s (Suc r mod HEIGHT)) c)"
      if "r < HEIGHT" "c < WIDTH" for r c
    proof -
      have turn: "ring_row ?t r = ring_row s (Suc r mod HEIGHT)"
        by (simp add: ring_row_def mod_add_left_eq mod_add_right_eq)
      have top: "unat ?start = ring_row ?t r \<longleftrightarrow> r = 0"
        using ring_row_inj [of 0 r ?t] that by (auto simp: ring_row_def)
      have "cell ?m (ring_row ?t r) c =
          (if unat ?start = ring_row ?t r then blank else cell (mem s) (ring_row ?t r) c)"
        using that by (subst cell_put_row) (simp_all add: blank_def)
      then show ?thesis using top by (simp only: turn)
    qed
    then have "screen (\<lambda>r. cell ?m (ring_row ?t r)) =
        screen (\<lambda>r c. if r = 0 then blank else cell (mem s) (ring_row s (Suc r mod HEIGHT)) c)"
      by (rule screen_cong)
    also have "\<dots> = replicate WIDTH blank # drop 2 (lines (term_of s)) @ [lines (term_of s) ! 0]"
      by (simp only: screen_scroll term_of_def terminal.simps)
    finally show ?thesis by (simp add: term_of_def)
  qed
  have "unat ?row + HEIGHT - unat ?start = HEIGHT - 1 \<or> unat ?row + HEIGHT - unat ?start = 2 * HEIGHT - 1"
    unfolding same [symmetric] using row by (auto simp: Suc_mod_ring)
  then have "trow (term_of ?t) = HEIGHT - 1" by (auto simp: term_of_def)
  then have "term_of ?t = term_newline (term_of s)"
    using lines True by (simp add: term_newline_def term_of_def)
  moreover have "in_step ?t" using same by (simp add: in_step_def)
  moreover have "vga_inv ?t" by (simp add: vga_inv_def)
  moreover have "same_rest s ?t" by (simp add: same_rest_def put_row_other)
  ultimately show ?thesis using run by blast
qed

lemma trow_less [simp]: "trow (term_of s) < HEIGHT"
  by (simp add: term_of_def)

lemma tcol_term_of [simp]: "tcol (term_of s) = unat (vgabuf_col s)"
  by (simp add: term_of_def)

lemma lines_term_of: "lines (term_of s) = screen (\<lambda>r. cell (mem s) (ring_row s r))"
  by (simp add: term_of_def)

lemma cursor_row:
  assumes "vga_inv s" and "r < HEIGHT"
  shows "unat (vgabuf_row s) = ring_row s r \<longleftrightarrow> r = trow (term_of s)"
  using ring_row_cursor [OF assms(1)] ring_row_inj [of "trow (term_of s)" r s] assms(2)
  by auto

text \<open>A printable character, in a column of the line.\<close>

lemma VGA_put_terminal:
  fixes c :: u8
  assumes inv: "vga_inv s" and col: "unat (vgabuf_col s) < WIDTH"
  defines "t \<equiv> s\<lparr>mem := put_cell (unat (vgabuf_row s)) (unat (vgabuf_col s)) c (mem s),
                  vgabuf_col := vgabuf_col s + 1\<rparr>"
  shows "term_of t = term_put c (term_of s)" and "vga_inv t" and "same_rest s t"
proof -
  let ?r = "unat (vgabuf_row s)" and ?c = "unat (vgabuf_col s)"
  have row: "?r < HEIGHT" using inv by (simp add: vga_inv_def)
  have next_col: "unat (vgabuf_col s + 1) = ?c + 1"
    using col by (simp add: unat_word_ariths)
  have ring: "ring_row t = ring_row s" by (simp add: t_def ring_row_def fun_eq_iff)
  have "screen (\<lambda>r. cell (mem t) (ring_row t r)) =
      screen (\<lambda>r c'. if r = trow (term_of s) \<and> c' = ?c then (c, default_color_code)
                     else cell (mem s) (ring_row s r) c')"
    unfolding ring
    by (intro screen_cong) (simp add: t_def cell_put_cell row col cursor_row [OF inv])
  then have "lines (term_of t) = (lines (term_of s))[trow (term_of s) :=
      (lines (term_of s) ! trow (term_of s))[?c := (c, default_color_code)]]"
    unfolding lines_term_of using col by (subst screen_put) simp_all
  then show "term_of t = term_put c (term_of s)"
    by (simp add: term_put_def term_of_def t_def next_col)
  show "vga_inv t" using inv col by (simp add: vga_inv_def t_def next_col)
  show "same_rest s t" by (simp add: same_rest_def t_def put_cell_other)
qed

text \<open>The rest of the line is blanked.\<close>

lemma VGA_cut_terminal:
  assumes inv: "vga_inv s"
  defines "t \<equiv> s\<lparr>mem := put_row (unat (vgabuf_row s)) (unat (vgabuf_col s)) WIDTH (mem s)\<rparr>"
  shows "term_of t = term_cut (term_of s)" and "vga_inv t" and "same_rest s t"
proof -
  let ?r = "unat (vgabuf_row s)" and ?c = "unat (vgabuf_col s)"
  have row: "?r < HEIGHT" and col: "?c \<le> WIDTH" using inv by (auto simp: vga_inv_def)
  have ring: "ring_row t = ring_row s" by (simp add: t_def ring_row_def fun_eq_iff)
  have "screen (\<lambda>r. cell (mem t) (ring_row t r)) =
      screen (\<lambda>r c'. if r = trow (term_of s) \<and> ?c \<le> c' then blank
                     else cell (mem s) (ring_row s r) c')"
    unfolding ring
    by (intro screen_cong)
      (simp add: t_def cell_put_row row blank_def cursor_row [OF inv])
  then have "lines (term_of t) = (lines (term_of s))[trow (term_of s) :=
      take ?c (lines (term_of s) ! trow (term_of s)) @ replicate (WIDTH - ?c) blank]"
    unfolding lines_term_of using col by (subst screen_cut) simp_all
  then show "term_of t = term_cut (term_of s)"
    by (simp add: term_cut_def term_of_def t_def)
  show "vga_inv t" using inv by (simp add: vga_inv_def t_def)
  show "same_rest s t" by (simp add: same_rest_def t_def put_row_other)
qed

lemma in_step_mem_col [simp]:
  "in_step (s\<lparr>mem := m\<rparr>) = in_step s"
  "in_step (s\<lparr>vgabuf_col := k\<rparr>) = in_step s"
  by (simp_all add: in_step_def)

text \<open>
  One character. A backspace is covered where it stays on its line; in column 0 it leaves the
  invariants (see \<open>VGA_backspace_underflow\<close>).
\<close>

lemma VGA_putc_refines:
  assumes inv: "vga_inv s" and st: "in_step s"
    and bs: "c = 8 \<Longrightarrow> 0 < unat (vgabuf_col s) \<and> unat (vgabuf_col s) < WIDTH"
  shows "\<exists>s'. VGA_putc c s = ok s' \<and> vga_inv s' \<and> in_step s' \<and>
    term_of s' = term_putc c (term_of s) \<and> same_rest s s'"
proof -
  define wrap where "wrap \<longleftrightarrow> unat (vgabuf_col s) = WIDTH"
  obtain u where u: "(if wrap then VGA_next_line s else ok s) = ok u"
    "vga_inv u" "in_step u" "same_rest s u"
    "term_of u = (if wrap then term_newline (term_of s) else term_of s)"
    using VGA_next_line_terminal [OF inv st] inv st by (cases wrap) auto
  have col: "unat (vgabuf_col u) < WIDTH"
  proof (cases wrap)
    case True
    then have "tcol (term_of u) = 0" using u(5) by (simp add: term_newline_def)
    then show ?thesis by simp
  next
    case False
    then show ?thesis using u(1) inv by (simp add: wrap_def vga_inv_def)
  qed
  have putc: "VGA_putc c s = (if c = 10 then bind_res
        (for_range (unat (vgabuf_col u)) WIDTH
            (\<lambda>i s. VGA_set (unat (vgabuf_row s)) i 32 default_color_code s) u) VGA_next_line
     else if c = 8 then
       (if vgabuf_col u = 0
        then ok (u\<lparr>vgabuf_col := of_nat (WIDTH - 1), vgabuf_row := vgabuf_row u - 1,
                   vgabuf_move_row := vgabuf_move_row u - 1\<rparr>)
        else ok (u\<lparr>vgabuf_col := vgabuf_col u - 1\<rparr>))
     else bind_res (VGA_set (unat (vgabuf_row u)) (unat (vgabuf_col u)) c default_color_code u)
         (\<lambda>s. ok (s\<lparr>vgabuf_col := vgabuf_col s + 1\<rparr>)))"
    using u(1) unfolding VGA_putc_def wrap_def by simp
  have abs: "term_putc c (term_of s) =
     (if c = 10 then term_newline (term_cut (term_of u))
      else if c = 8 then (term_of u)\<lparr>tcol := tcol (term_of u) - 1\<rparr>
      else term_put c (term_of u))"
    by (simp add: term_putc_def u(5) wrap_def Let_def)
  have row: "unat (vgabuf_row u) < HEIGHT" using u(2) by (simp add: vga_inv_def)
  consider (nl) "c = 10" | (bs) "c = 8" | (put) "c \<noteq> 10" "c \<noteq> 8" by blast
  then show ?thesis
  proof cases
    case nl
    let ?v = "u\<lparr>mem := put_row (unat (vgabuf_row u)) (unat (vgabuf_col u)) WIDTH (mem u)\<rparr>"
    have "for_range (unat (vgabuf_col u)) WIDTH
        (\<lambda>i s. VGA_set (unat (vgabuf_row s)) i 32 default_color_code s) u = ok ?v"
      using row col by (intro fill_row) simp_all
    moreover obtain w where "VGA_next_line ?v = ok w" "vga_inv w" "in_step w"
      "term_of w = term_newline (term_of ?v)" "same_rest ?v w"
      using VGA_next_line_terminal [of ?v] VGA_cut_terminal(2) [OF u(2)] u(3) by auto
    moreover have "same_rest s w"
      using u(4) VGA_cut_terminal(3) [OF u(2)] calculation by (blast intro: same_rest_trans)
    ultimately show ?thesis
      unfolding putc abs using nl VGA_cut_terminal(1) [OF u(2)] by simp
  next
    case bs
    then have "\<not> wrap" "0 < unat (vgabuf_col s)" using assms(3) by (auto simp: wrap_def)
    then have us: "u = s" and nz: "vgabuf_col u \<noteq> 0" using u(1) by (auto simp: unat_eq_0_u8)
    have pred: "unat (vgabuf_col u - 1) = unat (vgabuf_col u) - 1"
      using nz by (simp add: unat_minus_one)
    let ?v = "u\<lparr>vgabuf_col := vgabuf_col u - 1\<rparr>"
    have ring: "ring_row ?v = ring_row u" by (simp add: ring_row_def fun_eq_iff)
    have "term_of ?v = (term_of u)\<lparr>tcol := tcol (term_of u) - 1\<rparr>"
      by (simp add: term_of_def pred ring)
    moreover have "vga_inv ?v" using u(2) pred by (auto simp: vga_inv_def)
    moreover have "same_rest s ?v" using us by (simp add: same_rest_def)
    ultimately show ?thesis
      unfolding putc abs using bs u(3) nz by simp
  next
    case put
    then show ?thesis
      unfolding putc abs using u(3,4) row col VGA_put_terminal [OF u(2) col, of c]
      by (auto simp: VGA_set_in intro: same_rest_trans)
  qed
qed

interpretation vga: simulated_sink VGA_putc "\<lambda>s. vga_inv s \<and> in_step s" "\<lambda>c. c \<noteq> 8" term_of term_putc
proof unfold_locales
  fix s and c :: u8
  assume s: "vga_inv s \<and> in_step s" and c: "c \<noteq> 8"
  then obtain t where t: "VGA_putc c s = ok t" "vga_inv t" "in_step t" "term_of t = term_putc c (term_of s)"
    using VGA_putc_refines [of s c] by blast
  then show "\<exists>s'. VGA_putc c s = ok s' \<and> vga_inv s' \<and> in_step s'" by blast
  fix s'
  assume "VGA_putc c s = ok s'"
  with t show "term_of s' = term_putc c (term_of s)" by simp
qed

section \<open>What a flush shows\<close>

text \<open>The byte of video memory behind a cell of the display.\<close>

definition vram_cell :: "mem \<Rightarrow> nat \<Rightarrow> nat \<Rightarrow> glyph" where
  "vram_cell m r c =
     (m Phys (0xb8000 + of_nat (VGA_idx r c)), m Phys (0xb8000 + of_nat (VGA_idx r c + 1)))"

lemma vga_flush_mem:
  assumes "unat (vgabuf_start_row s) < HEIGHT"
  defines "off \<equiv> 160 * unat (vgabuf_start_row s)"
  shows "\<exists>m. VGA_flush s = ok (s\<lparr>mem := m\<rparr>) \<and>
    (\<forall>k < 4000. m Phys (0xb8000 + of_nat k) = mem s Vga_buf (of_nat ((off + k) mod 4000))) \<and>
    (\<forall>b. b \<noteq> Phys \<longrightarrow> m b = mem s b)"
proof -
  let ?start = "ucast (vgabuf_start_row s) :: u32"
  obtain n where n: "?start = of_nat n" "n < HEIGHT" "off = 160 * n"
    using assms that [of "unat (vgabuf_start_row s)"] by simp
  have off: "off \<le> 3840" using n by simp
  have w: "?start * of_nat WIDTH * 2 = of_nat off"
    unfolding n by simp
  obtain top where topoff: "top + off = 4000" using off that [of "4000 - off"] by simp
  then have "(of_nat top :: u32) + of_nat off = of_nat 4000" by (metis of_nat_add)
  then have t: "(of_nat HEIGHT - ?start) * of_nat WIDTH * 2 = of_nat top"
    unfolding n by (simp add: algebra_simps)
  have un: "unat (of_nat off :: u32) = off" "unat (of_nat top :: u32) = top"
    using off topoff by simp_all
  define m1 where "m1 = upd_bytes (mem s) vram top (\<lambda>k. mem s Vga_buf (of_nat (off + k)))"
  define m2 where "m2 = upd_bytes m1 (padd vram (of_nat top)) off (\<lambda>k. mem s Vga_buf (of_nat k))"
  have first: "memcpy (padd (Vga_buf, 0) (of_nat off)) vram (of_nat top) (mem s) = ok m1"
    using topoff un by (subst memcpy_upd)
      (simp_all add: valid_def vram_def copy_period_def m1_def)
  have buf: "m1 Vga_buf = mem s Vga_buf" by (simp add: m1_def upd_bytes_def vram_def)
  have second: "memcpy (Vga_buf, 0) (padd vram (of_nat top)) (of_nat off) m1 = ok m2"
  proof -
    have "unat (0xb8000 + of_nat top :: u32) = 0xb8000 + top"
      using topoff by (simp add: unat_offset)
    then show ?thesis
      using topoff un by (subst memcpy_upd)
        (simp_all add: valid_def vram_def copy_period_def m2_def buf)
  qed
  have "VGA_flush s = ok (s\<lparr>mem := m2\<rparr>)"
    by (simp only: VGA_flush_def Let_def w t first second bind_res_simps)
  moreover have "m2 Phys (0xb8000 + of_nat k) = mem s Vga_buf (of_nat ((off + k) mod 4000))"
    if k: "k < 4000" for k
  proof (cases "k < top")
    case True
    have "unat (of_nat k - of_nat top :: u32) = 4294967296 + k - top"
      using True topoff by (simp add: unat_sub_if' un)
    moreover have "\<not> 4294967296 + k - top < off" using True topoff by simp
    ultimately have "m2 Phys (0xb8000 + of_nat k) = m1 Phys (0xb8000 + of_nat k)"
      by (simp add: m2_def upd_bytes_def vram_def)
    also have "\<dots> = mem s Vga_buf (of_nat (off + k))"
      using True k by (simp add: m1_def upd_bytes_def vram_def)
    finally show ?thesis using True topoff by simp
  next
    case False
    then have "unat (of_nat k - of_nat top :: u32) = k - top"
      using k off by (simp add: unat_sub_if' un)
    moreover have "k - top < off" using k topoff False by simp
    ultimately have "m2 Phys (0xb8000 + of_nat k) = mem s Vga_buf (of_nat (k - top))"
      by (simp add: m2_def upd_bytes_def vram_def)
    moreover have "(off + k) mod 4000 = k - top"
    proof -
      have "off + k = 4000 + (k - top)" using False topoff by simp
      then show ?thesis using k by simp
    qed
    ultimately show ?thesis by simp
  qed
  moreover have "m2 b = mem s b" if "b \<noteq> Phys" for b
    using that by (simp add: m2_def m1_def upd_bytes_def vram_def)
  ultimately show ?thesis by blast
qed

lemma ring_idx:
  assumes "st < HEIGHT" and "r < HEIGHT" and "c < WIDTH" and "e < 2"
  shows "(160 * st + (VGA_idx r c + e)) mod 4000 = VGA_idx ((st + r) mod HEIGHT) c + e"
proof (cases "st + r < HEIGHT")
  case True
  then have "160 * st + (VGA_idx r c + e) < 4000" using assms by (simp add: VGA_idx_def)
  with True show ?thesis by (simp add: VGA_idx_def)
next
  case False
  then obtain k where k: "st + r = HEIGHT + k" using le_Suc_ex not_less by blast
  then have "(st + r) mod HEIGHT = k" using assms by (simp only: mod_add_self1) simp
  moreover have "160 * st + (VGA_idx r c + e) = 4000 + (VGA_idx k c + e)"
    using k by (simp add: VGA_idx_def)
  moreover have "VGA_idx k c + e < 4000" using assms k by (simp add: VGA_idx_def)
  ultimately show ?thesis by (simp only: mod_add_self1 mod_less)
qed

lemma VGA_flush_shows:
  assumes "unat (vgabuf_start_row s) < HEIGHT"
  shows "\<exists>m. VGA_flush s = ok (s\<lparr>mem := m\<rparr>) \<and>
    (\<forall>r < HEIGHT. \<forall>c < WIDTH. vram_cell m r c = cell (mem s) (ring_row s r) c) \<and>
    (\<forall>b. b \<noteq> Phys \<longrightarrow> m b = mem s b)"
proof -
  obtain m where m: "VGA_flush s = ok (s\<lparr>mem := m\<rparr>)" "\<forall>b. b \<noteq> Phys \<longrightarrow> m b = mem s b"
    "\<forall>k < 4000. m Phys (0xb8000 + of_nat k) =
       mem s Vga_buf (of_nat ((160 * unat (vgabuf_start_row s) + k) mod 4000))"
    using vga_flush_mem [OF assms] by blast
  have "vram_cell m r c = cell (mem s) (ring_row s r) c" if "r < HEIGHT" "c < WIDTH" for r c
  proof -
    have "VGA_idx r c + 1 < 4000" using VGA_idx_less that by blast
    then show ?thesis
      using m(3) ring_idx [OF assms that, of 0] ring_idx [OF assms that, of 1]
      by (simp add: vram_cell_def cell_def ring_row_def del: of_nat_Suc)
  qed
  with m(1,2) show ?thesis by blast
qed

lemma VGA_clear_rows:
  assumes "n \<le> HEIGHT"
  shows "\<exists>m. for_range 0 n (\<lambda>r. for_range 0 WIDTH (\<lambda>c. VGA_set r c 32 default_color_code)) s =
      ok (s\<lparr>mem := m\<rparr>) \<and>
    (\<forall>r < HEIGHT. \<forall>c < WIDTH. cell m r c = (if r < n then blank else cell (mem s) r c)) \<and>
    (\<forall>b. b \<noteq> Vga_buf \<longrightarrow> m b = mem s b)"
proof -
  define M where "M n = fold (\<lambda>r. put_row r 0 WIDTH) [0..<n] (mem s)" for n
  have row: "for_range 0 WIDTH (\<lambda>c. VGA_set r c 32 default_color_code) (s\<lparr>mem := k\<rparr>) =
      ok (s\<lparr>mem := put_row r 0 WIDTH k\<rparr>)" if "r < HEIGHT" for r k
  proof -
    let ?F = "\<lambda>i. s\<lparr>mem := put_row r 0 i k\<rparr>"
    have "for_range 0 WIDTH (\<lambda>c. VGA_set r c 32 default_color_code) (?F 0) = ok (?F WIDTH)"
      using that by (intro for_range_exact) (auto simp: VGA_set_in put_row_def)
    then show ?thesis by (simp add: put_row_def)
  qed
  have "for_range 0 n (\<lambda>r. for_range 0 WIDTH (\<lambda>c. VGA_set r c 32 default_color_code)) (s\<lparr>mem := M 0\<rparr>) =
      ok (s\<lparr>mem := M n\<rparr>)"
    using assms by (intro for_range_exact [where F = "\<lambda>i. s\<lparr>mem := M i\<rparr>"]) (auto simp: row M_def)
  moreover have "cell (M n) r c = (if r < n then blank else cell (mem s) r c)"
    if "r < HEIGHT" "c < WIDTH" for r c
    using assms
    by (induction n) (use that in \<open>auto simp: M_def cell_put_row blank_def less_Suc_eq\<close>)
  moreover have "M n b = mem s b" if "b \<noteq> Vga_buf" for b
    by (induction n) (use that in \<open>auto simp: M_def put_row_other\<close>)
  ultimately show ?thesis by (auto simp: M_def)
qed

section \<open>Properties\<close>

text \<open>
  C9: the driver implements the abstract terminal: from a state with the cursor inside the buffer and the
  ring in step (\<open>in_step\<close>: \<open>vgabuf_move_row\<close> equal to \<open>vgabuf_start_row\<close>, and \<open>vgabuf_start_row\<close> 0 or the row
  after the cursor's, as at the start and until \<open>VGA_clear_screen\<close> clears a screen that has scrolled),
  any text without backspaces is accepted without a fault, and the terminal read off the driver
  afterwards is the abstract terminal after the same characters, in a state that again has both.
\<close>

lemma VGA_text_refines:
  assumes "vga_inv s" and "in_step s" and "8 \<notin> set cs"
  shows "\<exists>s'. fold_res VGA_putc cs s = ok s' \<and> vga_inv s' \<and> in_step s' \<and>
    term_of s' = fold term_putc cs (term_of s)"
proof -
  have fits: "list_all (\<lambda>c. c \<noteq> 8) cs" using assms(3) by (auto simp: list_all_iff)
  obtain s' where "fold_res VGA_putc cs s = ok s'" "vga_inv s' \<and> in_step s'"
    using vga.text_ok [OF _ fits, of s] assms(1,2) by blast
  then show ?thesis using vga.text_abstract [OF _ fits, of s s'] assms(1,2) by blast
qed

text \<open>A driver as \<open>VGA_clear_screen\<close> leaves it.\<close>

definition fresh_machine :: machine where
  "fresh_machine = \<lparr>mem = \<lambda>_ _. 0, io_log = [], vgabuf_col = 0, vgabuf_row = 0,
     vgabuf_start_row = 0, vgabuf_move_row = 0, lock = 0\<rparr>"

lemma fresh_machine_ok: "vga_inv fresh_machine" "in_step fresh_machine"
  by (simp_all add: fresh_machine_def vga_inv_def in_step_def)

lemma VGA_text_refines_witness:
  "\<exists>s'. fold_res VGA_putc (bytes_of ''hi'') fresh_machine = ok s' \<and> tcol (term_of s') = 2"
proof -
  have "8 \<notin> set (bytes_of ''hi'')" by (simp add: bytes_of_def)
  then obtain s' where s': "fold_res VGA_putc (bytes_of ''hi'') fresh_machine = ok s'"
    "term_of s' = fold term_putc (bytes_of ''hi'') (term_of fresh_machine)"
    using VGA_text_refines [OF fresh_machine_ok] by blast
  have "tcol (fold term_putc (bytes_of ''hi'') t) = 2" if "tcol t = 0" for t
    using that by (simp add: bytes_of_def term_putc_def term_put_def)
  moreover have "tcol (term_of fresh_machine) = 0" by (simp add: fresh_machine_def)
  ultimately show ?thesis using s' by metis
qed

text \<open>
  C31: after \<open>VGA_flush\<close> video memory shows exactly the 25 lines of the terminal, in order, and
  nothing but physical memory has changed.
\<close>

lemma VGA_flush_display:
  assumes "vga_inv s"
  shows "\<exists>m. VGA_flush s = ok (s\<lparr>mem := m\<rparr>) \<and> screen (vram_cell m) = lines (term_of s) \<and>
    (\<forall>b. b \<noteq> Phys \<longrightarrow> m b = mem s b)"
proof -
  obtain m where m: "VGA_flush s = ok (s\<lparr>mem := m\<rparr>)" "\<forall>b. b \<noteq> Phys \<longrightarrow> m b = mem s b"
    "\<forall>r < HEIGHT. \<forall>c < WIDTH. vram_cell m r c = cell (mem s) (ring_row s r) c"
    using VGA_flush_shows [of s] assms unfolding vga_inv_def by blast
  have "screen (vram_cell m) = lines (term_of s)"
    unfolding lines_term_of using m(3) by (intro screen_cong) simp
  with m show ?thesis by blast
qed

lemma VGA_flush_display_witness:
  "\<exists>m. VGA_flush fresh_machine = ok (fresh_machine\<lparr>mem := m\<rparr>) \<and>
    screen (vram_cell m) = lines (term_of fresh_machine)"
  using VGA_flush_display [OF fresh_machine_ok(1)] by blast

text \<open>
  \<open>VGA_clear_screen\<close> puts the cursor at the top left and blanks the first 24 lines; the last
  line keeps what the buffer's last row holds, so the screen is not clear.
\<close>

lemma VGA_clear_screen_lines:
  "\<exists>s'. VGA_clear_screen s = ok s' \<and> trow (term_of s') = 0 \<and> tcol (term_of s') = 0 \<and>
    screen (vram_cell (mem s')) = lines (term_of s') \<and>
    lines (term_of s') = replicate 24 (replicate WIDTH blank) @ [map (cell (mem s) 24) [0..<WIDTH]]"
proof -
  obtain m where m: "for_range 0 24 (\<lambda>r. for_range 0 WIDTH (\<lambda>c. VGA_set r c 32 default_color_code)) s =
      ok (s\<lparr>mem := m\<rparr>)"
    "\<forall>r < HEIGHT. \<forall>c < WIDTH. cell m r c = (if r < 24 then blank else cell (mem s) r c)"
    using VGA_clear_rows [of 24 s] by auto
  let ?t = "s\<lparr>mem := m, vgabuf_start_row := 0, vgabuf_col := 0, vgabuf_row := 0\<rparr>"
  obtain m' where m': "VGA_flush ?t = ok (?t\<lparr>mem := m'\<rparr>)" "m' Vga_buf = m Vga_buf"
    "\<forall>r < HEIGHT. \<forall>c < WIDTH. vram_cell m' r c = cell (mem ?t) (ring_row ?t r) c"
    using VGA_flush_shows [of ?t] by auto
  have cells: "cell m' = cell m" by (simp add: cell_def fun_eq_iff m'(2))
  have "lines (term_of (?t\<lparr>mem := m'\<rparr>)) = screen (cell m)"
    unfolding lines_term_of by (rule screen_cong) (simp add: ring_row_def cells)
  also have "\<dots> = replicate 24 (replicate WIDTH blank) @ [map (cell (mem s) 24) [0..<WIDTH]]"
  proof (rule nth_equalityI)
    fix i assume "i < length (screen (cell m))"
    then have "i < 24 \<or> i = 24" by auto
    then show "screen (cell m) ! i =
        (replicate 24 (replicate WIDTH blank) @ [map (cell (mem s) 24) [0..<WIDTH]]) ! i"
      using m(2) by (auto simp: nth_append intro!: nth_equalityI)
  qed simp
  finally have blanked: "lines (term_of (?t\<lparr>mem := m'\<rparr>)) =
      replicate 24 (replicate WIDTH blank) @ [map (cell (mem s) 24) [0..<WIDTH]]" .
  have "screen (vram_cell m') = lines (term_of (?t\<lparr>mem := m'\<rparr>))"
    unfolding lines_term_of using m'(3) by (intro screen_cong) (simp add: ring_row_def cells)
  moreover have "VGA_clear_screen s = ok (?t\<lparr>mem := m'\<rparr>)"
    using m(1) m'(1) by (simp add: VGA_clear_screen_def)
  ultimately show ?thesis
    using blanked by (intro exI [of _ "?t\<lparr>mem := m'\<rparr>"]) (simp add: term_of_def)
qed

text \<open>
  A backspace with the cursor at the top left of the buffer leaves the row counter at 255, and
  the next character other than a backspace writes outside the buffer.
\<close>

lemma VGA_backspace_underflow:
  assumes "vgabuf_row s = 0" and "vgabuf_col s = 0" and "c \<noteq> 8"
  shows "bind_res (VGA_putc 8 s) (VGA_putc c) = fail Write_oob"
proof -
  have out: "VGA_set 255 79 d e u = fail Write_oob" for d e u
    by (rule VGA_set_out) (simp_all add: VGA_idx_def)
  have "unat (- 1 :: u8) = 255"
    by (simp add: unsigned_minus_1_eq_mask mask_eq_exp_minus_1)
  then show ?thesis
    using assms out by (simp add: VGA_putc_def for_range_step)
qed

lemma VGA_backspace_underflow_witness:
  "bind_res (VGA_putc 8 fresh_machine) (VGA_putc 65) = fail Write_oob"
  by (rule VGA_backspace_underflow) (simp_all add: fresh_machine_def)

end
