(* ===== verification/Io.thy ===== *)
theory Io
  imports Terminal
begin

text \<open>
  Formatted output: kernel/io/io.c.

  \<open>putc\<close> sends a character to the screen buffer and to COM1. The printing routines follow the
  code, with the arithmetic of C: \<open>print_int\<close> works on signed integers with truncating division,
  \<open>print_hex\<close> on 32-bit words. The variable arguments are a list of values; reading past its end,
  or a value of the wrong kind, fails.

  Each routine is shown equal to sending one text character by character (\<open>emit\<close>): \<open>uint_text\<close>,
  \<open>int_text\<close>, \<open>hex_text\<close> and, for the whole of \<open>printf_base\<close>, \<open>fmt_text\<close>. What sending a text
  does to the devices comes from the interfaces of Sink.
\<close>

definition putc :: "hw \<Rightarrow> u8 \<Rightarrow> machine \<Rightarrow> machine res" where
  "putc hw c s =
     bind_res (VGA_putc c s) (\<lambda>s.
     bind_res (serial_tx hw c (io_log s)) (\<lambda>log. ok (s\<lparr>io_log := log\<rparr>)))"

function print_uint :: "hw \<Rightarrow> u32 \<Rightarrow> u8 \<Rightarrow> machine \<Rightarrow> machine res" where
  "print_uint hw x base s =
     (if x = 0 then (if base \<noteq> 0 then putc hw 48 s else ok s)
      else bind_res (print_uint hw (x div 10) 0 s) (putc hw (ucast (48 + x mod 10))))"
  by pat_completeness auto
termination
  by (relation "measure (\<lambda>(hw, x, base, s). unat x)") (auto simp: unat_div unat_gt_0)

function print_int :: "hw \<Rightarrow> int \<Rightarrow> u8 \<Rightarrow> machine \<Rightarrow> machine res" where
  "print_int hw x base s =
     (if x = 0 then (if base \<noteq> 0 then putc hw 48 s else ok s)
      else if x < 0 then
        bind_res (putc hw 45 s) (\<lambda>s.
        bind_res (print_int hw (- 1 * (x sdiv 10)) 0 s) (putc hw (of_int (48 + x smod 10))))
      else bind_res (print_int hw (x sdiv 10) 0 s) (putc hw (of_int (48 + x smod 10))))"
  by pat_completeness auto
termination
  by (relation "measure (\<lambda>(hw, x, base, s). nat \<bar>x\<bar>)")
    (auto simp: signed_divide_int_def abs_mult sgn_if)

definition hex_char :: "u32 \<Rightarrow> u8" where
  "hex_char digit = (if digit < 10 then ucast (digit + 48) else ucast (digit - 10 + 65))"

partial_function (option) print_hex_loop :: "hw \<Rightarrow> u32 \<Rightarrow> bool \<Rightarrow> machine \<Rightarrow> machine res" where
  "print_hex_loop hw x fp s =
     (let digit = drop_bit 28 (x AND 0xF0000000);
          printed = (digit \<noteq> 0 \<or> \<not> fp \<or> x = 0);
          x' = push_bit 4 x
      in bind_res (if printed then putc hw (hex_char digit) s else ok s) (\<lambda>s.
         if x' \<noteq> 0 then print_hex_loop hw x' (if printed then False else fp) s else ok s))"

definition print_hex :: "hw \<Rightarrow> u32 \<Rightarrow> machine \<Rightarrow> machine res" where
  "print_hex hw x s =
     bind_res (putc hw 48 s) (\<lambda>s. bind_res (putc hw 120 s) (print_hex_loop hw x True))"

partial_function (option) print_string_loop :: "hw \<Rightarrow> ptr \<Rightarrow> u32 \<Rightarrow> machine \<Rightarrow> machine res" where
  "print_string_loop hw p i s =
     bind_res (load (mem s) (padd p i)) (\<lambda>c.
     if c = 0 then ok s
     else bind_res (putc hw c s) (\<lambda>s. print_string_loop hw p (i + 1) s))"

definition print_string :: "hw \<Rightarrow> ptr \<Rightarrow> machine \<Rightarrow> machine res" where
  "print_string hw p s = print_string_loop hw p 0 s"

section \<open>printf\<close>

datatype va = Va_int u32 | Va_ptr ptr

fun va_int :: "va list \<Rightarrow> (u32 \<times> va list) res" where
  "va_int (Va_int n # args) = ok (n, args)"
| "va_int _ = fail Bad_vararg"

fun va_ptr :: "va list \<Rightarrow> (ptr \<times> va list) res" where
  "va_ptr (Va_ptr p # args) = ok (p, args)"
| "va_ptr _ = fail Bad_vararg"

text \<open>The \<open>switch\<close> on the character after a percent sign; an unknown one prints nothing.\<close>

definition printf_conv :: "hw \<Rightarrow> u8 \<Rightarrow> va list \<Rightarrow> machine \<Rightarrow> (va list \<times> machine) res" where
  "printf_conv hw d args s =
     (if d = 37 then bind_res (putc hw 37 s) (\<lambda>s. ok (args, s))
      else if d = 99 then
        bind_res (va_int args) (\<lambda>(n, args). bind_res (putc hw (ucast n) s) (\<lambda>s. ok (args, s)))
      else if d = 100 then
        bind_res (va_int args) (\<lambda>(n, args). bind_res (print_int hw (sint n) 1 s) (\<lambda>s. ok (args, s)))
      else if d = 120 then
        bind_res (va_int args) (\<lambda>(n, args). bind_res (print_hex hw n s) (\<lambda>s. ok (args, s)))
      else if d = 117 then
        bind_res (va_int args) (\<lambda>(n, args). bind_res (print_uint hw n 1 s) (\<lambda>s. ok (args, s)))
      else if d = 115 then
        bind_res (va_ptr args) (\<lambda>(p, args). bind_res (print_string hw p s) (\<lambda>s. ok (args, s)))
      else ok (args, s))"

partial_function (option) printf_loop ::
  "hw \<Rightarrow> ptr \<Rightarrow> u32 \<Rightarrow> va list \<Rightarrow> machine \<Rightarrow> machine res" where
  "printf_loop hw str i args s =
     bind_res (load (mem s) (padd str i)) (\<lambda>c.
     if c = 0 then VGA_flush s
     else if c = 37 then
       bind_res (load (mem s) (padd str (i + 1))) (\<lambda>d.
       if d = 0 then ok s
       else bind_res (printf_conv hw d args s) (\<lambda>r.
            printf_loop hw str (i + 2) (fst r) (snd r)))
     else bind_res (putc hw c s) (\<lambda>s. printf_loop hw str (i + 1) args s))"

definition printf_base :: "hw \<Rightarrow> ptr \<Rightarrow> va list \<Rightarrow> machine \<Rightarrow> machine res" where
  "printf_base hw str args s = printf_loop hw str 0 args s"

definition printf_nolock :: "hw \<Rightarrow> ptr \<Rightarrow> va list \<Rightarrow> machine \<Rightarrow> machine res" where
  "printf_nolock hw str args s = printf_base hw str args s"

definition printf :: "hw \<Rightarrow> ptr \<Rightarrow> va list \<Rightarrow> machine \<Rightarrow> machine res" where
  "printf hw str args s =
     bind_res (sl_acquire (lock s)) (\<lambda>l.
     bind_res (printf_base hw str args (s\<lparr>lock := l\<rparr>)) (\<lambda>s.
     ok (s\<lparr>lock := sl_release (lock s)\<rparr>)))"

declare print_uint.simps [simp del]
declare print_int.simps [simp del]

section \<open>The texts\<close>

abbreviation emit :: "hw \<Rightarrow> u8 list \<Rightarrow> machine \<Rightarrow> machine res" where
  "emit hw \<equiv> fold_res (putc hw)"

definition digit_char :: "nat \<Rightarrow> u8" where
  "digit_char d = of_nat (48 + d)"

fun dec_digits :: "nat \<Rightarrow> u8 list" where
  "dec_digits n = (if n = 0 then [] else dec_digits (n div 10) @ [digit_char (n mod 10)])"

declare dec_digits.simps [simp del]

definition uint_text :: "nat \<Rightarrow> u8 list" where
  "uint_text n = (if n = 0 then [48] else dec_digits n)"

text \<open>
  What \<open>print_int\<close> prints: for a negative number, the last character is '0' plus a negative
  remainder.
\<close>

definition int_text :: "int \<Rightarrow> u8 list" where
  "int_text z =
     (if 0 \<le> z then uint_text (nat z)
      else 45 # dec_digits (nat (- z) div 10) @ [of_int (48 - (- z) mod 10)])"

definition nibble :: "u32 \<Rightarrow> nat \<Rightarrow> u32" where
  "nibble x k = drop_bit 28 (push_bit (4 * k) x AND 0xF0000000)"

definition trim_zeros :: "u32 list \<Rightarrow> u32 list" where
  "trim_zeros ds = rev (dropWhile (\<lambda>d. d = 0) (rev (dropWhile (\<lambda>d. d = 0) ds)))"

text \<open>
  What \<open>print_hex\<close> prints: the eight digits without the leading zeros, and without the trailing
  zeros.
\<close>

definition hex_text :: "u32 \<Rightarrow> u8 list" where
  "hex_text x = [48, 120] @
     (if x = 0 then [48] else map hex_char (trim_zeros (map (nibble x) [0..<8])))"

lemma emit_append: "emit hw (xs @ ys) s = bind_res (emit hw xs s) (emit hw ys)"
  by (rule fold_res_append)

lemma print_uint_text:
  "print_uint hw x base s =
   emit hw (if x = 0 then (if base \<noteq> 0 then [48] else []) else dec_digits (unat x)) s"
proof (induction hw x base s rule: print_uint.induct)
  case (1 hw x base s)
  show ?case
  proof (cases "x = 0")
    case True
    then show ?thesis by (simp add: print_uint.simps [of hw 0])
  next
    case False
    have "48 + unat x mod 10 < 4294967296"
      using mod_less_divisor [of 10 "unat x"] by linarith
    then have digit: "unat (48 + x mod 10) = 48 + unat x mod 10"
      by (simp add: unat_word_ariths unat_mod)
    have "ucast (48 + x mod 10) = (of_nat (unat (48 + x mod 10)) :: u8)" by simp
    also have "\<dots> = digit_char (unat x mod 10)" unfolding digit digit_char_def ..
    finally have "ucast (48 + x mod 10) = digit_char (unat x mod 10)" .
    moreover have "dec_digits (unat x) = dec_digits (unat x div 10) @ [digit_char (unat x mod 10)]"
      using False by (subst dec_digits.simps) (simp add: unat_eq_zero)
    moreover have quot: "unat (x div 10) = unat x div 10" by (simp add: unat_div)
    moreover have "x div 10 = 0 \<longleftrightarrow> unat x div 10 = 0"
      unfolding quot [symmetric] by (rule unat_eq_zero [symmetric])
    ultimately show ?thesis
      using False 1 by (subst print_uint.simps) (auto simp: emit_append dec_digits.simps [of 0])
  qed
qed

lemma print_int_text_nonneg:
  assumes "0 \<le> z"
  shows "print_int hw z base s =
    emit hw (if z = 0 then (if base \<noteq> 0 then [48] else []) else dec_digits (nat z)) s"
  using assms
proof (induction hw z base s rule: print_int.induct)
  case (1 hw z base s)
  show ?case
  proof (cases "z = 0")
    case True
    then show ?thesis by (simp add: print_int.simps [of hw 0])
  next
    case False
    with 1 have pos: "0 < z" by simp
    then have div_mod: "z sdiv 10 = z div 10" "z smod 10 = z mod 10" "nat (z div 10) = nat z div 10"
      by (simp_all add: signed_divide_int_def signed_modulo_int_def nat_div_distrib)
    have "nat (z mod 10) = nat z mod 10" using pos by (simp add: nat_mod_distrib)
    then have "of_int (48 + z mod 10) = digit_char (nat z mod 10)"
      using pos by (metis add.commute digit_char_def nat_int_add of_int_of_nat_eq of_nat_numeral
        int_nat_eq pos_mod_sign zero_less_numeral of_nat_add)
    moreover have "dec_digits (nat z) = dec_digits (nat z div 10) @ [digit_char (nat z mod 10)]"
      using pos by (subst dec_digits.simps) simp
    moreover have "z div 10 = 0 \<longleftrightarrow> nat z div 10 = 0"
      using pos by (metis div_mod(3) nat_0_iff order_le_less pos_imp_zdiv_nonneg_iff zero_less_numeral nat_zero_as_int linorder_not_less)
    moreover have "print_int hw (z div 10) 0 s =
        emit hw (if z div 10 = 0 then [] else dec_digits (nat (z div 10))) s"
      using 1(2) 1(3) False pos div_mod by simp
    ultimately show ?thesis
      using pos by (subst print_int.simps) (auto simp: div_mod emit_append dec_digits.simps [of 0])
  qed
qed

lemma print_int_text: "print_int hw z 1 s = emit hw (int_text z) s"
proof (cases "0 \<le> z")
  case True
  then show ?thesis by (simp add: print_int_text_nonneg int_text_def uint_text_def)
next
  case False
  then have neg: "z < 0" by simp
  then have "z sdiv 10 = - ((- z) div 10)" "z smod 10 = - ((- z) mod 10)"
    by (simp_all add: signed_divide_int_def signed_modulo_int_def)
  moreover have "print_int hw ((- z) div 10) 0 t = emit hw (dec_digits (nat (- z) div 10)) t" for t
  proof -
    have "nat ((- z) div 10) = nat (- z) div 10" using neg by (simp add: nat_div_distrib)
    moreover have "0 \<le> (- z) div 10" using neg by (simp add: pos_imp_zdiv_nonneg_iff)
    ultimately show ?thesis by (auto simp: print_int_text_nonneg dec_digits.simps [of 0])
  qed
  ultimately have "print_int hw z 1 s =
      bind_res (putc hw 45 s) (\<lambda>s. bind_res (emit hw (dec_digits (nat (- z) div 10)) s)
        (putc hw (of_int (48 - (- z) mod 10))))"
    using neg by (subst print_int.simps) simp
  then show ?thesis
    using neg by (simp add: int_text_def emit_append bind_res_assoc cong: bind_res_cong)
qed

lemma print_uint_text_1: "print_uint hw x 1 s = emit hw (uint_text (unat x)) s"
  by (simp add: print_uint_text uint_text_def unat_eq_zero)

section \<open>Hexadecimal\<close>

lemma nibble_shift: "nibble (push_bit 4 x) k = nibble x (Suc k)"
  by (simp add: nibble_def push_bit_push_bit add.commute)

lemma top_nibble_0:
  assumes "nibble x 0 = 0" and "push_bit 4 x = 0"
  shows "x = 0"
proof (rule bit_word_eqI)
  fix i assume "i < LENGTH(32)"
  then have i: "i < 32" by simp
  show "bit x i = bit 0 i"
  proof (cases "i < 28")
    case True
    have "bit (push_bit 4 x) (i + 4) = bit (0 :: u32) (i + 4)" by (simp only: assms(2))
    with True show ?thesis by (simp add: bit_simps)
  next
    case False
    then have c: "i = 28 \<or> i = 29 \<or> i = 30 \<or> i = 31" using i by auto
    have "\<not> bit (nibble x 0) (i - 28)" by (simp add: assms(1))
    then show ?thesis
      using c by (auto simp: nibble_def bit_and_iff bit_drop_bit_eq)
  qed
qed

lemma push_bit_nibble: "push_bit (4 * n) (push_bit 4 x) = push_bit (4 * Suc n) (x :: u32)"
proof -
  have "4 * n + 4 = 4 * Suc n" by simp
  then show ?thesis by (simp only: push_bit_push_bit)
qed

lemma nibbles_0:
  "push_bit (4 * n) x = 0 \<Longrightarrow> \<forall>k < n. nibble x k = 0 \<Longrightarrow> x = 0"
proof (induction n arbitrary: x)
  case 0
  then show ?case by simp
next
  case (Suc n)
  have "push_bit (4 * n) (push_bit 4 x) = 0" unfolding push_bit_nibble by (rule Suc.prems(1))
  moreover have "\<forall>k < n. nibble (push_bit 4 x) k = 0"
    unfolding nibble_shift using Suc.prems(2) by blast
  ultimately have "push_bit 4 x = 0" by (rule Suc.IH)
  moreover have "nibble x 0 = 0" by (rule Suc.prems(2) [rule_format]) (rule zero_less_Suc)
  ultimately show ?case by (rule top_nibble_0 [rotated])
qed

text \<open>The digits the loop prints, from the list of all nibbles that are left.\<close>

fun hex_digits :: "bool \<Rightarrow> u32 list \<Rightarrow> u32 list" where
  "hex_digits fp [] = []"
| "hex_digits fp (d # ds) =
     (if d \<noteq> 0 \<or> \<not> fp \<or> list_all (\<lambda>d. d = 0) ds
      then d # (if list_all (\<lambda>d. d = 0) ds then [] else hex_digits False ds)
      else hex_digits fp ds)"

lemma nibble_zero [simp]: "nibble 0 k = 0"
  by (simp add: nibble_def)

lemma nibbles_tail:
  assumes "push_bit (4 * Suc n) x = 0"
  shows "list_all (\<lambda>d. d = 0) (map (nibble (push_bit 4 x)) [0..<n]) \<longleftrightarrow> push_bit 4 x = 0"
proof
  assume "list_all (\<lambda>d. d = 0) (map (nibble (push_bit 4 x)) [0..<n])"
  then have "\<forall>k < n. nibble (push_bit 4 x) k = 0" by (simp add: list_all_iff)
  moreover have "push_bit (4 * n) (push_bit 4 x) = 0" unfolding push_bit_nibble by (rule assms)
  ultimately show "push_bit 4 x = 0" by (rule nibbles_0 [rotated])
qed (simp add: list_all_iff)

lemma print_hex_loop_text:
  assumes "push_bit (4 * Suc n) x = 0" and "x \<noteq> 0"
  shows "print_hex_loop hw x fp s = emit hw (map hex_char (hex_digits fp (map (nibble x) [0..<Suc n]))) s"
  using assms
proof (induction n arbitrary: x fp s)
  case 0
  then have "nibble x 0 \<noteq> 0" using top_nibble_0 [of x] by auto
  with 0 show ?case
    by (subst print_hex_loop.simps) (simp add: nibble_def Let_def)
next
  case (Suc n)
  define d where "d = nibble x 0"
  define ds where "ds = map (nibble (push_bit 4 x)) [0..<Suc n]"
  have split: "map (nibble x) [0..<Suc (Suc n)] = d # ds"
    by (simp add: ds_def d_def nibble_shift upt_conv_Cons map_Suc_upt [symmetric] del: upt_Suc)
  have tail: "list_all (\<lambda>d. d = 0) ds \<longleftrightarrow> push_bit 4 x = 0"
    unfolding ds_def using Suc.prems(1) by (rule nibbles_tail)
  have dz: "push_bit 4 x = 0 \<Longrightarrow> d \<noteq> 0" using top_nibble_0 [of x] Suc.prems(2) by (auto simp: d_def)
  have "push_bit (4 * Suc n) (push_bit 4 x) = 0" unfolding push_bit_nibble by (rule Suc.prems(1))
  then have IH: "push_bit 4 x \<noteq> 0 \<Longrightarrow>
      print_hex_loop hw (push_bit 4 x) fp s = emit hw (map hex_char (hex_digits fp ds)) s" for fp s
    unfolding ds_def by (rule Suc.IH)
  have step: "print_hex_loop hw x fp s =
      bind_res (if d \<noteq> 0 \<or> \<not> fp then putc hw (hex_char d) s else ok s) (\<lambda>s.
        if push_bit 4 x \<noteq> 0 then print_hex_loop hw (push_bit 4 x) (if d \<noteq> 0 \<or> \<not> fp then False else fp) s
        else ok s)"
    using Suc.prems(2) by (subst print_hex_loop.simps) (simp add: Let_def d_def nibble_def)
  show ?case
    unfolding step split using dz
    by (cases "push_bit 4 x = 0"; cases "d = 0"; cases fp)
      (simp_all add: IH tail cong: bind_res_cong)
qed

lemma hex_digits_False:
  "\<not> list_all (\<lambda>d. d = 0) ds \<Longrightarrow> hex_digits False ds = rev (dropWhile (\<lambda>d. d = 0) (rev ds))"
  by (induction ds) (auto simp: dropWhile_append list_all_iff)

lemma hex_digits_True:
  "\<not> list_all (\<lambda>d. d = 0) ds \<Longrightarrow> hex_digits True ds = trim_zeros ds"
proof (induction ds)
  case (Cons d ds)
  show ?case
  proof (cases "d = 0")
    case True
    with Cons show ?thesis by (simp add: trim_zeros_def)
  next
    case False
    then have "hex_digits True (d # ds) = hex_digits False (d # ds)" by simp
    with Cons.prems False show ?thesis by (simp add: hex_digits_False trim_zeros_def del: hex_digits.simps)
  qed
qed simp

lemma print_hex_loop_zero: "print_hex_loop hw 0 True s = putc hw 48 s"
  by (subst print_hex_loop.simps) (simp add: Let_def hex_char_def)

lemma print_hex_text: "print_hex hw x s = emit hw (hex_text x) s"
proof (cases "x = 0")
  case True
  then show ?thesis by (simp add: print_hex_def hex_text_def print_hex_loop_zero fun_eq_iff cong: bind_res_cong)
next
  case False
  have all: "push_bit (4 * Suc 7) x = 0"
    by (rule bit_word_eqI) (simp add: bit_simps)
  then have "\<not> (\<forall>k < 8. nibble x k = 0)" using nibbles_0 [of 8 x] False by auto
  then have nz: "\<not> list_all (\<lambda>d. d = 0) (map (nibble x) [0..<8])" by (auto simp: list_all_iff)
  have eight: "Suc 7 = 8" by simp
  have "print_hex_loop hw x True t = emit hw (map hex_char (trim_zeros (map (nibble x) [0..<8]))) t" for t
    using print_hex_loop_text [OF all False, of hw True t] hex_digits_True [OF nz] unfolding eight by simp
  with False show ?thesis
    by (simp add: print_hex_def hex_text_def cong: bind_res_cong)
qed

section \<open>Strings\<close>

lemma putc_rest: "putc hw c s = ok s' \<Longrightarrow> b \<noteq> Vga_buf \<Longrightarrow> mem s' b = mem s b"
  and putc_lock: "putc hw c s = ok s' \<Longrightarrow> lock s' = lock s"
  by (auto simp: putc_def bind_res_eq_ok same_rest_def dest!: VGA_putc_rest)

lemma emit_rest: "emit hw cs s = ok s' \<Longrightarrow> (\<forall>b. b \<noteq> Vga_buf \<longrightarrow> mem s' b = mem s b) \<and> lock s' = lock s"
  by (rule fold_res_rel [where R = "\<lambda>s s'. (\<forall>b. b \<noteq> Vga_buf \<longrightarrow> mem s' b = mem s b) \<and> lock s' = lock s"])
    (auto simp: putc_rest putc_lock)

lemma peek_cong: "m (fst p) = m' (fst p) \<Longrightarrow> peek m p = peek m' p"
  by (cases "(m, p)" rule: peek.cases) auto

lemma load_cong: "m (fst p) = m' (fst p) \<Longrightarrow> load m p = load m' p"
  by (simp add: load_def peek_cong [of m p m'])

lemma cstring_cong: "m (fst p) = m' (fst p) \<Longrightarrow> cstring m p xs = cstring m' p xs"
  by (simp add: cstring_def peek_cong [of m _ m'])

lemma print_string_loop_text:
  assumes "cstring (mem s) p (us @ vs)" and "fst p \<noteq> Vga_buf"
  shows "print_string_loop hw p (of_nat (length us)) s = emit hw vs s"
  using assms
proof (induction vs arbitrary: us s)
  case Nil
  then have "load (mem s) (padd p (of_nat (length us))) = ok 0"
    using cstring_load [of "mem s" p us "length us"] by simp
  then show ?case by (subst print_string_loop.simps) simp
next
  case (Cons v vs)
  have "load (mem s) (padd p (of_nat (length us))) = ok v"
    using cstring_load [OF Cons.prems(1), of "length us"] by (simp add: nth_append)
  moreover have "v \<noteq> 0"
    using cstring_nonzero [OF Cons.prems(1), of "length us"] by (simp add: nth_append)
  moreover have "print_string_loop hw p (of_nat (length us) + 1) t = emit hw vs t" if "putc hw v s = ok t" for t
  proof -
    have "cstring (mem t) p ((us @ [v]) @ vs)"
      using Cons.prems putc_rest [OF that, of "fst p"] cstring_cong [of "mem t" p "mem s"] by simp
    then show ?thesis using Cons.IH [of t "us @ [v]"] Cons.prems(2) by (simp add: add.commute)
  qed
  ultimately show ?case
    by (subst print_string_loop.simps) (simp cong: bind_res_cong)
qed

lemma print_string_text:
  "cstring (mem s) p xs \<Longrightarrow> fst p \<noteq> Vga_buf \<Longrightarrow> print_string hw p s = emit hw xs s"
  using print_string_loop_text [of s p "[]" xs] by (simp add: print_string_def)

section \<open>Format strings\<close>

text \<open>
  The text of a conversion and of a whole format, and whether the screen is flushed at the end:
  a format that ends in a percent sign returns before the flush. \<open>rd\<close> gives the string at a
  pointer; no text means that the arguments do not fit the format.
\<close>

definition conv_text :: "(ptr \<Rightarrow> u8 list) \<Rightarrow> u8 \<Rightarrow> va list \<Rightarrow> (u8 list \<times> va list) option" where
  "conv_text rd d args =
     (if d = 37 then Some ([37], args)
      else if d \<in> {99, 100, 120, 117} then
        (case args of
           Va_int n # rest \<Rightarrow>
             Some (if d = 99 then [ucast n] else if d = 100 then int_text (sint n)
                   else if d = 120 then hex_text n else uint_text (unat n), rest)
         | _ \<Rightarrow> None)
      else if d = 115 then (case args of Va_ptr p # rest \<Rightarrow> Some (rd p, rest) | _ \<Rightarrow> None)
      else Some ([], args))"

fun fmt_text :: "(ptr \<Rightarrow> u8 list) \<Rightarrow> u8 list \<Rightarrow> va list \<Rightarrow> (u8 list \<times> bool) option" where
  "fmt_text rd [] args = Some ([], True)"
| "fmt_text rd [c] args = Some (if c = 37 then ([], False) else ([c], True))"
| "fmt_text rd (c # d # fmt) args =
     (if c = 37 then
        (case conv_text rd d args of
           None \<Rightarrow> None
         | Some (t, rest) \<Rightarrow> map_option (\<lambda>(r, fl). (t @ r, fl)) (fmt_text rd fmt rest))
      else map_option (\<lambda>(r, fl). (c # r, fl)) (fmt_text rd (d # fmt) args))"

text \<open>The strings among the arguments stand in memory, outside the screen buffer.\<close>

definition strings_at :: "(ptr \<Rightarrow> u8 list) \<Rightarrow> va list \<Rightarrow> mem \<Rightarrow> bool" where
  "strings_at rd args m \<longleftrightarrow>
     (\<forall>p. Va_ptr p \<in> set args \<longrightarrow> cstring m p (rd p) \<and> fst p \<noteq> Vga_buf)"

lemma strings_at_cong:
  "\<forall>b. b \<noteq> Vga_buf \<longrightarrow> m' b = m b \<Longrightarrow> strings_at rd args m \<Longrightarrow> strings_at rd args m'"
  unfolding strings_at_def using cstring_cong by metis

lemma conv_text_rest:
  "conv_text rd d args = Some (t, rest) \<Longrightarrow> strings_at rd args m \<Longrightarrow> strings_at rd rest m"
  by (auto simp: conv_text_def strings_at_def split: if_splits list.splits va.splits)

lemma printf_conv_text:
  assumes "conv_text rd d args = Some (t, rest)" and "strings_at rd args (mem s)"
  shows "printf_conv hw d args s = bind_res (emit hw t s) (\<lambda>s. ok (rest, s))"
proof (cases "d \<in> {99, 100, 120, 117}")
  case True
  then obtain n where "args = Va_int n # rest"
    using assms(1) by (auto simp: conv_text_def split: list.splits va.splits)
  with True assms show ?thesis
    by (auto simp: printf_conv_def conv_text_def print_int_text print_hex_text print_uint_text_1
        cong: bind_res_cong)
next
  case False
  show ?thesis
  proof (cases "d = 115")
    case True
    then obtain p where "args = Va_ptr p # rest" "t = rd p"
      using assms(1) by (auto simp: conv_text_def split: list.splits va.splits)
    then have "Va_ptr p \<in> set args" by simp
    then have "cstring (mem s) p t" "fst p \<noteq> Vga_buf"
      using assms(2) \<open>t = rd p\<close> unfolding strings_at_def by blast+
    then have "print_string hw p s = emit hw t s" by (rule print_string_text)
    with True \<open>args = Va_ptr p # rest\<close> show ?thesis by (simp add: printf_conv_def)
  next
    case False
    with \<open>d \<notin> {99, 100, 120, 117}\<close> assms show ?thesis
      by (auto simp: printf_conv_def conv_text_def split: if_splits)
  qed
qed

lemma printf_loop_text:
  assumes "cstring (mem s) str (us @ fmt)" and "fst str \<noteq> Vga_buf"
    and "strings_at rd args (mem s)" and "fmt_text rd fmt args = Some (t, fl)"
  shows "printf_loop hw str (of_nat (length us)) args s =
    bind_res (emit hw t s) (\<lambda>s. if fl then VGA_flush s else ok s)"
  using assms
proof (induction rd fmt args arbitrary: us s t fl rule: fmt_text.induct)
  case (1 rd args)
  have "load (mem s) (padd str (of_nat (length us))) = ok 0"
    using cstring_load [OF 1(1), of "length us"] by simp
  with 1 show ?case by (subst printf_loop.simps) simp
next
  case (2 rd c args)
  have c: "load (mem s) (padd str (of_nat (length us))) = ok c" "c \<noteq> 0"
    using cstring_load [OF 2(1), of "length us"] cstring_nonzero [OF 2(1), of "length us"]
    by (simp_all add: nth_append)
  have d: "load (mem u) (padd str (of_nat (length us) + 1)) = ok 0"
    if "mem u (fst str) = mem s (fst str)" for u
    using cstring_load [OF 2(1), of "Suc (length us)"] load_cong [of "mem u" "padd str (of_nat (length us) + 1)" "mem s"] that
    by (simp add: nth_append add.commute)
  have "printf_loop hw str (of_nat (length us) + 1) args u = VGA_flush u" if "putc hw c s = ok u" for u
  proof -
    have "mem u (fst str) = mem s (fst str)" using putc_rest [OF that] 2(2) by blast
    then show ?thesis by (subst printf_loop.simps) (simp add: d)
  qed
  then show ?case
    using c d [of s] 2(4) by (subst printf_loop.simps) (auto split: if_splits cong: bind_res_cong)
next
  case (3 rd c d fmt args)
  have c: "load (mem s) (padd str (of_nat (length us))) = ok c" "c \<noteq> 0"
    using cstring_load [OF 3(3), of "length us"] cstring_nonzero [OF 3(3), of "length us"]
    by (simp_all add: nth_append)
  have d: "load (mem s) (padd str (of_nat (length us) + 1)) = ok d" "d \<noteq> 0"
    using cstring_load [OF 3(3), of "Suc (length us)"] cstring_nonzero [OF 3(3), of "Suc (length us)"]
    by (simp_all add: nth_append add.commute)
  show ?case
  proof (cases "c = 37")
    case True
    then obtain t1 rest t2 where split: "conv_text rd d args = Some (t1, rest)"
      "fmt_text rd fmt rest = Some (t2, fl)" "t = t1 @ t2"
      using 3(6) by (auto split: option.splits)
    have "printf_loop hw str (of_nat (length us) + 2) rest u =
        bind_res (emit hw t2 u) (\<lambda>s. if fl then VGA_flush s else ok s)" if "emit hw t1 s = ok u" for u
    proof -
      have same: "\<forall>b. b \<noteq> Vga_buf \<longrightarrow> mem u b = mem s b" using emit_rest [OF that] by blast
      then have "cstring (mem u) str ((us @ [c, d]) @ fmt)"
        using 3(3,4) cstring_cong [of "mem u" str "mem s"] by simp
      moreover have "strings_at rd rest (mem u)"
        using strings_at_cong [OF same] conv_text_rest [OF split(1)] 3(5) by blast
      ultimately show ?thesis
        using 3(1) [OF True split(1) refl, of u "us @ [c, d]"] 3(4) split(2) by (simp add: add.commute)
    qed
    moreover have "printf_conv hw d args s = bind_res (emit hw t1 s) (\<lambda>s. ok (rest, s))"
      using printf_conv_text [OF split(1) 3(5)] .
    ultimately show ?thesis
      using c d True split(3)
      by (subst printf_loop.simps) (simp add: emit_append bind_res_assoc cong: bind_res_cong)
  next
    case False
    then obtain t2 where split: "fmt_text rd (d # fmt) args = Some (t2, fl)" "t = c # t2"
      using 3(6) by auto
    have "printf_loop hw str (of_nat (length us) + 1) args u =
        bind_res (emit hw t2 u) (\<lambda>s. if fl then VGA_flush s else ok s)" if "putc hw c s = ok u" for u
    proof -
      have same: "\<forall>b. b \<noteq> Vga_buf \<longrightarrow> mem u b = mem s b" using putc_rest [OF that] by blast
      then have "cstring (mem u) str ((us @ [c]) @ d # fmt)"
        using 3(3,4) cstring_cong [of "mem u" str "mem s"] by simp
      moreover have "strings_at rd args (mem u)" using strings_at_cong [OF same 3(5)] .
      ultimately show ?thesis
        using 3(2) [OF False, of u "us @ [c]"] 3(4) split(1) by (simp add: add.commute)
    qed
    with c False split(2) show ?thesis
      by (subst printf_loop.simps) (simp add: bind_res_assoc cong: bind_res_cong)
  qed
qed

lemma printf_base_text:
  assumes "cstring (mem s) str fmt" and "fst str \<noteq> Vga_buf"
    and "strings_at rd args (mem s)" and "fmt_text rd fmt args = Some (t, fl)"
  shows "printf_base hw str args s =
    bind_res (emit hw t s) (\<lambda>s. if fl then VGA_flush s else ok s)"
  using printf_loop_text [of s str "[]" fmt] assms by (simp add: printf_base_def)

section \<open>The console\<close>

definition console_inv :: "hw \<Rightarrow> machine \<Rightarrow> bool" where
  "console_inv hw s \<longleftrightarrow> vga_inv s \<and> in_step s \<and> uart_live hw"

lemma term_of_io_log [simp]: "term_of (s\<lparr>io_log := l\<rparr>) = term_of s"
  by (simp add: term_of_def ring_row_def)

lemma vga_inv_io_log [simp]:
  "vga_inv (s\<lparr>io_log := l\<rparr>) = vga_inv s" "in_step (s\<lparr>io_log := l\<rparr>) = in_step s"
  by (simp_all add: vga_inv_def in_step_def)

lemma putc_console:
  assumes "console_inv hw s" and "c \<noteq> 8"
  shows "\<exists>s'. putc hw c s = ok s' \<and> console_inv hw s' \<and> term_of s' = term_putc c (term_of s) \<and>
    com1_sent (io_log s') = com1_sent (io_log s) @ [c]"
proof -
  obtain t where t: "VGA_putc c s = ok t" "vga_inv t" "in_step t" "term_of t = term_putc c (term_of s)"
    "io_log t = io_log s"
    using VGA_putc_refines [of s c] assms by (auto simp: console_inv_def same_rest_def)
  obtain l where "serial_tx hw c (io_log s) = ok l" "com1_sent l = com1_sent (io_log s) @ [c]"
    using serial_tx_live [of hw c "io_log s"] assms(1) unfolding console_inv_def by blast
  with t assms(1) show ?thesis by (simp add: putc_def console_inv_def)
qed

interpretation console: transcript "putc hw" "console_inv hw" "\<lambda>c. c \<noteq> 8" "\<lambda>s. com1_sent (io_log s)"
  for hw
proof unfold_locales
  fix s s' and c :: u8
  assume "console_inv hw s" "c \<noteq> 8"
  from putc_console [OF this] show "\<exists>s'. putc hw c s = ok s' \<and> console_inv hw s'" by blast
  assume "putc hw c s = ok s'"
  with putc_console [OF \<open>console_inv hw s\<close> \<open>c \<noteq> 8\<close>]
  show "com1_sent (io_log s') = com1_sent (io_log s) @ [c]" by auto
qed

interpretation display: simulated_sink "putc hw" "console_inv hw" "\<lambda>c. c \<noteq> 8" term_of term_putc
  for hw
proof unfold_locales
  fix s s' and c :: u8
  assume "console_inv hw s" "c \<noteq> 8" "putc hw c s = ok s'"
  with putc_console [OF this(1,2)] show "term_of s' = term_putc c (term_of s)" by auto
qed

text \<open>A whole formatted message: sent to COM1, and on the screen after the flush.\<close>

lemma flush_keeps_console:
  assumes "vga_inv s"
  shows "\<exists>s'. VGA_flush s = ok s' \<and> term_of s' = term_of s \<and> io_log s' = io_log s \<and>
    lock s' = lock s \<and> vga_inv s' \<and> in_step s' = in_step s \<and>
    (\<forall>r < HEIGHT. \<forall>c < WIDTH. vram_cell (mem s') r c = lines (term_of s') ! r ! c)"
proof -
  obtain m where m: "VGA_flush s = ok (s\<lparr>mem := m\<rparr>)" "m Vga_buf = mem s Vga_buf"
    "\<forall>r < HEIGHT. \<forall>c < WIDTH. vram_cell m r c = cell (mem s) (ring_row s r) c"
    using VGA_flush_shows [of s] assms unfolding vga_inv_def by blast
  have cells: "cell m = cell (mem s)" by (simp add: cell_def fun_eq_iff m(2))
  have ring: "ring_row (s\<lparr>mem := m\<rparr>) = ring_row s" by (simp add: ring_row_def fun_eq_iff)
  with cells have "term_of (s\<lparr>mem := m\<rparr>) = term_of s" by (simp add: term_of_def)
  with m ring cells assms show ?thesis by (auto simp: lines_term_of vga_inv_def)
qed

lemma printf_base_console:
  assumes "console_inv hw s" and "cstring (mem s) str fmt" and "fst str \<noteq> Vga_buf"
    and "strings_at rd args (mem s)" and "fmt_text rd fmt args = Some (t, True)" and "8 \<notin> set t"
  shows "\<exists>s'. printf_base hw str args s = ok s' \<and> console_inv hw s' \<and> lock s' = lock s \<and>
    com1_sent (io_log s') = com1_sent (io_log s) @ t \<and>
    term_of s' = fold term_putc t (term_of s) \<and>
    (\<forall>r < HEIGHT. \<forall>c < WIDTH. vram_cell (mem s') r c = lines (term_of s') ! r ! c)"
proof -
  have fits: "list_all (\<lambda>c. c \<noteq> 8) t" using assms(6) by (auto simp: list_all_iff)
  obtain u where u: "emit hw t s = ok u" "console_inv hw u"
    using console.text_ok [OF assms(1) fits] by blast
  obtain v where "VGA_flush u = ok v" "term_of v = term_of u" "io_log v = io_log u"
    "lock v = lock u" "vga_inv v" "in_step v = in_step u"
    "\<forall>r < HEIGHT. \<forall>c < WIDTH. vram_cell (mem v) r c = lines (term_of v) ! r ! c"
    using flush_keeps_console [of u] u(2) by (auto simp: console_inv_def)
  then show ?thesis
    using u printf_base_text [OF assms(2-5), of hw] emit_rest [OF u(1)]
      console.text_sent [OF assms(1) fits u(1)] display.text_abstract [OF assms(1) fits u(1)]
    by (simp add: console_inv_def)
qed

section \<open>Properties\<close>

definition dec_value :: "u8 list \<Rightarrow> nat" where
  "dec_value cs = foldl (\<lambda>v c. 10 * v + (unat c - 48)) 0 cs"

definition is_digit :: "u8 \<Rightarrow> bool" where
  "is_digit c \<longleftrightarrow> 48 \<le> c \<and> c \<le> 57"

lemma digit_char_props:
  assumes "d < 10"
  shows "unat (digit_char d) = 48 + d" and "is_digit (digit_char d)"
proof -
  show "unat (digit_char d) = 48 + d"
    using assms by (simp add: digit_char_def unat_of_nat take_bit_nat_eq_self del: of_nat_add)
  then show "is_digit (digit_char d)"
    using assms by (simp add: is_digit_def word_le_nat_alt)
qed

lemma dec_digits_value: "dec_value (dec_digits n) = n \<and> list_all is_digit (dec_digits n)"
proof (induction n rule: dec_digits.induct)
  case (1 n)
  show ?case
  proof (cases "n = 0")
    case True
    then show ?thesis by (simp add: dec_digits.simps [of 0] dec_value_def)
  next
    case False
    then show ?thesis
      using 1 digit_char_props [of "n mod 10"]
      by (simp add: dec_digits.simps [of n]) (simp add: dec_value_def)
  qed
qed

text \<open>
  \<open>print_uint\<close> sends the decimal digits of its argument and nothing else: reading the digits
  back gives the number.
\<close>

lemma print_uint_decimal:
  "print_uint hw x 1 s = emit hw (uint_text (unat x)) s \<and> dec_value (uint_text (unat x)) = unat x \<and>
   list_all is_digit (uint_text (unat x))"
  using dec_digits_value [of "unat x"]
  by (simp add: print_uint_text_1 uint_text_def) (simp add: dec_value_def is_digit_def)

definition signed_text :: "int \<Rightarrow> u8 list" where
  "signed_text z = (if 0 \<le> z then uint_text (nat z) else 45 # uint_text (nat (- z)))"

lemma int_text_correct_iff: "int_text z = signed_text z \<longleftrightarrow> 0 \<le> z \<or> 10 dvd z"
proof (cases "0 \<le> z")
  case True
  then show ?thesis by (simp add: int_text_def signed_text_def)
next
  case False
  define n where "n = nat (- z)"
  have z: "z = - int n" "0 < n" using False by (simp_all add: n_def)
  define r where "r = n mod 10"
  have r: "r < 10" by (simp add: r_def)
  have "uint_text n = dec_digits (n div 10) @ [digit_char r]"
    using z(2) by (simp add: uint_text_def dec_digits.simps [of n] r_def)
  moreover have "int_text z = 45 # dec_digits (n div 10) @ [of_int (48 - int r)]"
    using z by (simp add: int_text_def r_def zmod_int)
  ultimately have "int_text z = signed_text z \<longleftrightarrow> (of_int (48 - int r) :: u8) = digit_char r"
    using z by (simp add: signed_text_def)
  also have "\<dots> \<longleftrightarrow> r = 0"
  proof -
    have "r = 0 \<or> r = 1 \<or> r = 2 \<or> r = 3 \<or> r = 4 \<or> r = 5 \<or> r = 6 \<or> r = 7 \<or> r = 8 \<or> r = 9"
      using r by auto
    then show ?thesis by (elim disjE) (simp_all add: digit_char_def)
  qed
  also have "\<dots> \<longleftrightarrow> 10 dvd z"
  proof -
    have "10 dvd z \<longleftrightarrow> int 10 dvd int n" using z by simp
    also have "\<dots> \<longleftrightarrow> 10 dvd n" by (rule int_dvd_int_iff)
    also have "\<dots> \<longleftrightarrow> r = 0" by (simp only: r_def dvd_eq_mod_eq_0)
    finally show ?thesis by (rule sym)
  qed
  finally show ?thesis using False by simp
qed

text \<open>
  C38: \<open>print_int\<close> sends \<open>int_text\<close> of its argument, which is the decimal notation exactly when the
  number is not negative or is a multiple of ten: for other negative numbers the last character is
  '0' minus the last digit.
\<close>

lemma print_int_decimal:
  "print_int hw (sint x) 1 s = emit hw (int_text (sint x)) s \<and>
   (int_text (sint x) = signed_text (sint x) \<longleftrightarrow> 0 \<le> sint x \<or> 10 dvd sint x)"
  by (simp add: print_int_text int_text_correct_iff)

definition full_hex :: "u32 \<Rightarrow> u8 list" where
  "full_hex x = [48, 120] @
     (if x = 0 then [48] else map hex_char (dropWhile (\<lambda>d. d = 0) (map (nibble x) [0..<8])))"

lemma nibble_7: "nibble x 7 = x AND 0xF"
  unfolding nibble_def
proof (rule bit_word_eqI)
  fix i assume "i < LENGTH(32)"
  then have i: "i < 32" by simp
  have m: "(0xF :: u32) = mask 4" "(0xF0000000 :: u32) = push_bit 28 (mask 4)"
    by (simp_all add: mask_eq_exp_minus_1)
  show "bit (drop_bit 28 (push_bit (4 * 7) x AND 0xF0000000)) i = bit (x AND 0xF) i"
    using i unfolding m by (auto simp: bit_simps)
qed

lemma trim_all:
  assumes "\<not> list_all (\<lambda>d. d = 0) (ds @ [d])"
  shows "length (trim_zeros (ds @ [d])) = length (dropWhile (\<lambda>d. d = 0) (ds @ [d])) \<longleftrightarrow> d \<noteq> 0"
    and "d \<noteq> 0 \<Longrightarrow> trim_zeros (ds @ [d]) = dropWhile (\<lambda>d. d = 0) (ds @ [d])"
proof -
  have "\<exists>es. dropWhile (\<lambda>d. d = 0) (ds @ [d]) = es @ [d]"
    using assms by (cases "list_all (\<lambda>d. d = 0) ds") (auto simp: dropWhile_append list_all_iff)
  then obtain es where es: "dropWhile (\<lambda>d. d = 0) (ds @ [d]) = es @ [d]" by blast
  have "length (dropWhile (\<lambda>d. d = 0) (rev es)) \<le> length es"
    using length_dropWhile_le [of _ "rev es"] by simp
  then show "length (trim_zeros (ds @ [d])) = length (dropWhile (\<lambda>d. d = 0) (ds @ [d])) \<longleftrightarrow> d \<noteq> 0"
    unfolding trim_zeros_def es by auto
  show "d \<noteq> 0 \<Longrightarrow> trim_zeros (ds @ [d]) = dropWhile (\<lambda>d. d = 0) (ds @ [d])"
    unfolding trim_zeros_def es by simp
qed

text \<open>
  C39: \<open>print_hex\<close> sends \<open>hex_text\<close> of its argument, which is the hexadecimal notation exactly when
  the number is zero or its last digit is not zero: trailing zero digits are not printed.
\<close>

lemma print_hex_notation:
  "print_hex hw x s = emit hw (hex_text x) s \<and> (hex_text x = full_hex x \<longleftrightarrow> \<not> (x \<noteq> 0 \<and> x AND 0xF = 0))"
proof (cases "x = 0")
  case True
  then show ?thesis by (simp add: print_hex_text hex_text_def full_hex_def)
next
  case False
  have ds: "map (nibble x) [0..<8] = map (nibble x) [0..<7] @ [nibble x 7]"
  proof -
    have "[0..<8] = [0..<7] @ [7 :: nat]" by (simp add: upt_rec)
    then show ?thesis by (simp only: map_append list.map)
  qed
  have "push_bit (4 * 8) x = 0" by (rule bit_word_eqI) (simp add: bit_simps)
  then have "\<not> (\<forall>k < 8. nibble x k = 0)" using nibbles_0 [of 8 x] False by auto
  then have nz: "\<not> list_all (\<lambda>d. d = 0) (map (nibble x) [0..<8])" by (auto simp: list_all_iff)
  note trim = trim_all [OF nz [unfolded ds], folded ds]
  have "hex_text x = full_hex x \<longleftrightarrow> nibble x 7 \<noteq> 0"
  proof
    assume "hex_text x = full_hex x"
    then have "length (hex_text x) = length (full_hex x)" by (rule arg_cong)
    then show "nibble x 7 \<noteq> 0" using False trim(1) by (simp add: hex_text_def full_hex_def)
  next
    assume "nibble x 7 \<noteq> 0"
    from trim(2) [OF this] show "hex_text x = full_hex x" by (simp only: hex_text_def full_hex_def)
  qed
  with False show ?thesis by (simp add: print_hex_text nibble_7)
qed

lemma console_inv_lock [simp]:
  "console_inv hw (s\<lparr>lock := l\<rparr>) = console_inv hw s" "term_of (s\<lparr>lock := l\<rparr>) = term_of s"
  by (simp_all add: console_inv_def vga_inv_def in_step_def term_of_def ring_row_def)


definition ready_hw :: hw where
  "ready_hw log port = 0xFF"

lemma ready_hw_live: "uart_live ready_hw"
proof -
  have "tx_ready ready_hw log" for log
    by (simp add: tx_ready_def port_byte_def ready_hw_def bit_simps)
  then show ?thesis by (simp add: uart_live_def)
qed

lemma fresh_console: "console_inv ready_hw fresh_machine"
  by (simp add: console_inv_def fresh_machine_ok ready_hw_live)


text \<open>
  \<open>printf\<close> with the lock held never returns: the lock is not re-entrant, so a panic inside
  \<open>printf\<close> cannot print.
\<close>

lemma printf_lock_held:
  assumes "bit (lock s) 0"
  shows "printf hw str args s = hang"
  using assms by (simp add: printf_def sl_acquire_held)

lemma printf_lock_held_witness:
  "printf ready_hw (lit ''x'') [] (fresh_machine\<lparr>lock := 1\<rparr>) = hang"
  by (rule printf_lock_held) simp

end
