(* ===== verification/Acpi.thy ===== *)
theory Acpi
  imports Layout Io
begin

text \<open>
  The search for the ACPI root pointer: acpi/rsdp.c. The packed structures are read in physical memory at
  fixed offsets: in \<open>rsdp_t\<close> the name of the vendor at 9, the revision at 15; in \<open>acpi_header_t\<close> the
  length at 4, the checksum at 9, the vendor at 10; the header of a table has 36 bytes.

  \<open>rsdp_valid\<close> is the specification: the signature, and a sum of the 20 bytes that is 0.
\<close>

definition at :: "u32 \<Rightarrow> ptr" where
  "at a = (Phys, a)"

section \<open>rsdp.c\<close>

definition validate :: "hw \<Rightarrow> u32 \<Rightarrow> machine \<Rightarrow> (u8 \<times> machine) res" where
  "validate hw p k =
     bind_res (memseq (mem k) (at p) (lit ''RSD PTR '') 8) (\<lambda>same.
     if same = 0 then ok (0, k)
     else bind_res (for_range 0 20 (\<lambda>i sum.
            bind_res (load (mem k) (padd (at p) (of_nat i))) (\<lambda>b. ok (sum + b))) 0) (\<lambda>sum.
       bind_res (load (mem k) (padd (at p) 15)) (\<lambda>revision.
       if sum = 0 \<and> revision = 2
       then bind_res (printf_nolock hw (lit ''acpi: ACPI v2+ not yet supported :(\<newline>'') [] k) (\<lambda>k. hang)
       else ok (if sum = 0 then 1 else 0, k))))"

definition find_table :: "hw \<Rightarrow> u32 \<Rightarrow> ptr \<Rightarrow> machine \<Rightarrow> (u32 \<times> machine) res" where
  "find_table hw table sig k =
     bind_res (load32 (mem k) (padd (at table) 4)) (\<lambda>len.
     let entries = (len - 36) div 4
     in bind_res (for_exit 0 (unat entries) (\<lambda>i k.
          bind_res (load32 (mem k) (padd (at table) (36 + 4 * of_nat i))) (\<lambda>entry.
          bind_res (memseq (mem k) (at entry) sig 4) (\<lambda>same.
          if same \<noteq> 0
          then bind_res (printf_nolock hw (lit ''Found %s /  %s\<newline>'')
                 [Va_ptr (padd (at entry) 10), Va_ptr (at entry)] k) (\<lambda>k.
               bind_res (printf_nolock hw (lit ''Signature: %s\<newline>'') [Va_ptr (at entry)] k) (\<lambda>k.
               bind_res (load32 (mem k) (padd (at entry) 4)) (\<lambda>entry_len.
               bind_res (printf_nolock hw (lit ''Length   : %d\<newline>'') [Va_int entry_len] k) (\<lambda>k.
               bind_res (printf_nolock hw (lit ''Oem ID   : %s\<newline>'') [Va_ptr (padd (at entry) 10)] k) (\<lambda>k.
               bind_res (load (mem k) (padd (at entry) 9)) (\<lambda>checksum.
               bind_res (printf_nolock hw (lit ''Checksum : %d\<newline>'') [Va_int (ucast checksum)] k) (\<lambda>k.
               ok (Stop (entry, k)))))))))
          else ok (Next k)))) k) (\<lambda>c.
        case c of Stop x \<Rightarrow> ok x
        | Next k \<Rightarrow> bind_res (printf_nolock hw (lit ''Not Found'') [] k) (\<lambda>k. ok (0, k))))"

text \<open>
  The two loops of \<open>find_rsdp\<close>: over the first megabyte, and 65 rounds over the start of the extended
  BIOS data area, whose pointer does not move. \<open>Stop\<close> is \<open>found = 1\<close> with the address.
\<close>

definition search_low :: "hw \<Rightarrow> machine \<Rightarrow> (machine, u32 \<times> machine) ctl res" where
  "search_low hw k =
     for_exit 0 0x100000 (\<lambda>addr k.
       bind_res (validate hw (of_nat addr) k) (\<lambda>(v, k).
       if v \<noteq> 0 then ok (Stop (of_nat addr, k)) else ok (Next k))) k"

definition search_ebda :: "hw \<Rightarrow> u32 \<Rightarrow> machine \<Rightarrow> (machine, u32 \<times> machine) ctl res" where
  "search_ebda hw ebda k =
     for_exit 0 65 (\<lambda>_ k.
       bind_res (validate hw ebda k) (\<lambda>(v, k).
       if v \<noteq> 0 then ok (Stop (ebda, k)) else ok (Next k))) k"

definition find_rsdp :: "hw \<Rightarrow> machine \<Rightarrow> machine res" where
  "find_rsdp hw k =
     bind_res (search_low hw k) (\<lambda>c.
     bind_res
       (case c of
          Stop x \<Rightarrow> ok x
        | Next k \<Rightarrow>
            bind_res (load16 (mem k) (at 0x40E)) (\<lambda>segment.
            let ebda = push_bit 4 (ucast segment)
            in bind_res (search_ebda hw ebda k) (\<lambda>c.
               case c of Stop x \<Rightarrow> ok x | Next k \<Rightarrow> ok (ebda, k)))) (\<lambda>(p, k).
     printf_nolock hw (lit ''acpi: RSDP Found [OEM: %s, SIG:  %s]\<newline>'')
       [Va_ptr (padd (at p) 9), Va_ptr (at p)] k))"

section \<open>What is found\<close>

definition rsdp_valid :: "mem \<Rightarrow> nat \<Rightarrow> bool" where
  "rsdp_valid m a \<longleftrightarrow> map (\<lambda>i. m Phys (of_nat (a + i))) [0..<8] = bytes_of ''RSD PTR '' \<and>
     sum_list (map (\<lambda>i. m Phys (of_nat (a + i))) [0..<20]) = 0"

definition rsdp_revision :: "mem \<Rightarrow> nat \<Rightarrow> u8" where
  "rsdp_revision m a = m Phys (of_nat (a + 15))"

lemma at_valid: "a + n \<le> 4294967296 \<Longrightarrow> a < 4294967296 \<Longrightarrow> valid (at (of_nat a)) n"
  by (simp add: valid_def at_def)

lemma peek_at: "peek m (padd (at (of_nat a)) (of_nat i)) = m Phys (of_nat (a + i))"
  by (simp add: at_def)

lemma load_at: "load m (padd (at (of_nat a)) (of_nat i)) = ok (m Phys (of_nat (a + i)))"
  using unat_u32_less by (simp add: load_def at_def)

lemma sum_loop:
  "for_range 0 n (\<lambda>i sum. bind_res (load m (padd (at (of_nat a)) (of_nat i))) (\<lambda>b. ok (sum + b))) 0 =
     ok (sum_list (map (\<lambda>i. m Phys (of_nat (a + i))) [0..<n]))"
  using for_range_exact [of 0 n
      "\<lambda>i sum. bind_res (load m (padd (at (of_nat a)) (of_nat i))) (\<lambda>b. ok (sum + b))"
      "\<lambda>i. sum_list (map (\<lambda>i. m Phys (of_nat (a + i))) [0..<i])"]
  by (simp add: load_at)

lemma signature_test:
  assumes "a < 0x100000"
  shows "memseq m (at (of_nat a)) (lit ''RSD PTR '') 8 =
    ok (if map (\<lambda>i. m Phys (of_nat (a + i))) [0..<8] = bytes_of ''RSD PTR '' then 1 else 0)"
proof -
  have "valid (at (of_nat a)) (unat (8 :: u32))" "valid (lit ''RSD PTR '') (unat (8 :: u32))"
    using assms at_valid [of a 8] by (simp_all add: valid_def lit_def bytes_of_def)
  note memseq_correct [OF this, of m]
  moreover have "peek m (padd (lit ''RSD PTR '') (of_nat i)) = bytes_of ''RSD PTR '' ! i" if "i < 8" for i
    using that by (simp add: lit_def nth_append) (simp add: bytes_of_def)
  moreover have "length (bytes_of ''RSD PTR '') = 8" by (simp add: bytes_of_def)
  ultimately show ?thesis by (simp add: peek_at list_eq_iff_nth_eq)
qed

lemma validate_eq:
  assumes "a < 0x100000" and "rsdp_valid (mem k) a \<Longrightarrow> rsdp_revision (mem k) a \<noteq> 2"
  shows "validate hw (of_nat a) k = ok (if rsdp_valid (mem k) a then 1 else 0, k)"
proof -
  have rev: "load (mem k) (padd (at (of_nat a)) 15) = ok (rsdp_revision (mem k) a)"
    using load_at [of "mem k" a 15] by (simp add: rsdp_revision_def)
  show ?thesis
    unfolding validate_def signature_test [OF assms(1)] sum_loop rev
    using assms(2) by (auto simp: rsdp_valid_def)
qed

section \<open>The search\<close>

text \<open>The address the search ends with: the first valid structure, or else the start of the data area.\<close>

definition ebda_start :: "mem \<Rightarrow> nat" where
  "ebda_start m = 16 * unat (ucast (m Phys 0x40E) OR push_bit 8 (ucast (m Phys 0x40F)) :: u16)"

definition rsdp_found_at :: "mem \<Rightarrow> nat" where
  "rsdp_found_at m =
     (if \<exists>a < 0x100000. rsdp_valid m a then LEAST a. rsdp_valid m a else ebda_start m)"

lemma ebda_start_less: "ebda_start m < 0x100000"
  using unsigned_less [of "ucast (m Phys 0x40E) OR push_bit 8 (ucast (m Phys 0x40F)) :: u16", where ?'a = nat]
  by (simp add: ebda_start_def)

lemma ebda_word: "push_bit 4 (ucast (w :: u16)) = (of_nat (16 * unat w) :: u32)"
proof -
  have "(ucast w :: u32) = of_nat (unat w)" by simp
  then show ?thesis by (simp add: push_bit_eq_mult mult.commute del: of_nat_unat)
qed

lemma search_low_eq:
  assumes "\<And>a. a < 0x100000 \<Longrightarrow> rsdp_valid (mem k) a \<Longrightarrow> (\<forall>b < a. \<not> rsdp_valid (mem k) b) \<Longrightarrow>
    rsdp_revision (mem k) a \<noteq> 2"
  shows "search_low hw k =
    ok (if \<exists>a < 0x100000. rsdp_valid (mem k) a then Stop (of_nat (rsdp_found_at (mem k)), k) else Next k)"
proof (cases "\<exists>a < 0x100000. rsdp_valid (mem k) a")
  case True
  define a where "a = (LEAST a. rsdp_valid (mem k) a)"
  have valid: "rsdp_valid (mem k) a" unfolding a_def using True by (auto intro: LeastI)
  have least: "\<not> rsdp_valid (mem k) b" if "b < a" for b using that unfolding a_def by (rule not_less_Least)
  have lt: "a < 0x100000" using True Least_le [of "rsdp_valid (mem k)"] unfolding a_def by (meson le_less_trans)
  have "validate hw (of_nat b) k = ok (0, k)" if "b < a" for b
    using validate_eq [of b k hw] least [OF that] that lt by simp
  moreover have "validate hw (of_nat a) k = ok (1, k)"
    using validate_eq [OF lt, of k hw] valid assms [OF lt valid] least by simp
  ultimately have "search_low hw k = ok (Stop (of_nat a, k))"
    unfolding search_low_def
    by (intro for_exit_stop [where F = "\<lambda>_. k" and k = a] le0 lt) simp_all
  then show ?thesis using True by (simp add: rsdp_found_at_def a_def)
next
  case False
  then have "validate hw (of_nat b) k = ok (0, k)" if "b < 0x100000" for b
    using validate_eq [of b k hw] that by simp
  then have "search_low hw k = ok (Next k)"
    unfolding search_low_def by (intro for_exit_next [where F = "\<lambda>_. k"]) simp_all
  then show ?thesis using False by simp
qed

text \<open>The data area lies in the first megabyte, so its search repeats a test that has failed already.\<close>

lemma search_ebda_eq:
  assumes "a < 0x100000" and "\<not> rsdp_valid (mem k) a"
  shows "search_ebda hw (of_nat a) k = ok (Next k)"
  unfolding search_ebda_def
  using validate_eq [OF assms(1), of k hw] assms(2)
  by (intro for_exit_next [where F = "\<lambda>_. k"]) simp_all

lemma load_segment:
  "load16 m (at 0x40E) = ok (ucast (m Phys 0x40E) OR push_bit 8 (ucast (m Phys 0x40F)))"
  by (simp add: load16_def load_def at_def)

text \<open>The whole function is one message.\<close>

lemma find_rsdp_eq:
  assumes "\<And>a. a < 0x100000 \<Longrightarrow> rsdp_valid (mem k) a \<Longrightarrow> (\<forall>b < a. \<not> rsdp_valid (mem k) b) \<Longrightarrow>
    rsdp_revision (mem k) a \<noteq> 2"
  shows "find_rsdp hw k =
    printf_nolock hw (lit ''acpi: RSDP Found [OEM: %s, SIG:  %s]\<newline>'')
      [Va_ptr (padd (at (of_nat (rsdp_found_at (mem k)))) 9), Va_ptr (at (of_nat (rsdp_found_at (mem k))))] k"
proof (cases "\<exists>a < 0x100000. rsdp_valid (mem k) a")
  case True
  then show ?thesis by (simp add: find_rsdp_def search_low_eq [OF assms])
next
  case False
  then have found: "rsdp_found_at (mem k) = ebda_start (mem k)" by (simp only: rsdp_found_at_def if_False)
  have word: "push_bit 4 (ucast (ucast (mem k Phys 0x40E) OR push_bit 8 (ucast (mem k Phys 0x40F)) :: u16))
      = (of_nat (ebda_start (mem k)) :: u32)"
    unfolding ebda_start_def by (rule ebda_word)
  have "search_ebda hw (of_nat (ebda_start (mem k))) k = ok (Next k)"
    using False ebda_start_less by (intro search_ebda_eq) auto
  then show ?thesis
    using False search_low_eq [OF assms] by (simp add: find_rsdp_def load_segment word found Let_def)
qed

section \<open>Properties\<close>

text \<open>
  C37: where \<open>find_rsdp\<close> looks and what it reports, when the first valid structure is not of revision 2:
  the first address of the first megabyte with the signature and a zero sum. When there is none, the
  data area of the BIOS is tested again at its first byte only, in vain, and the message still says that
  the structure was found, with whatever stands there. Memory is only read.
\<close>

lemma find_rsdp_first:
  assumes "\<And>a. a < 0x100000 \<Longrightarrow> rsdp_valid (mem k) a \<Longrightarrow> (\<forall>b < a. \<not> rsdp_valid (mem k) b) \<Longrightarrow>
    rsdp_revision (mem k) a \<noteq> 2"
  shows "find_rsdp hw k =
    printf_nolock hw (lit ''acpi: RSDP Found [OEM: %s, SIG:  %s]\<newline>'')
      [Va_ptr (padd (at (of_nat (rsdp_found_at (mem k)))) 9), Va_ptr (at (of_nat (rsdp_found_at (mem k))))] k"
  using assms by (rule find_rsdp_eq)

definition acpi_machine :: machine where
  "acpi_machine = fresh_machine\<lparr>mem := \<lambda>b a.
     if b = Phys \<and> 0xF5A0 \<le> unat a \<and> unat a < 0xF5A8 then bytes_of ''RSD PTR '' ! (unat a - 0xF5A0)
     else if b = Phys \<and> a = 0xF5A8 then 0xE1 else 0\<rparr>"

lemma acpi_machine_byte:
  "a < 4294967296 \<Longrightarrow> mem acpi_machine Phys (of_nat a) =
    (if 0xF5A0 \<le> a \<and> a < 0xF5A8 then bytes_of ''RSD PTR '' ! (a - 0xF5A0) else if a = 0xF5A8 then 0xE1 else 0)"
  using of_nat_u32_eq [of a "0xF5A8"] by (simp add: acpi_machine_def)

lemma acpi_machine_found: "rsdp_found_at (mem acpi_machine) = 0xF5A0"
proof -
  have valid: "rsdp_valid (mem acpi_machine) 0xF5A0"
    by (simp add: rsdp_valid_def acpi_machine_def bytes_of_def upt_rec)
  have "0xF5A0 \<le> a" if "rsdp_valid (mem acpi_machine) a" "a < 0x100000" for a
  proof -
    have "map (\<lambda>i. mem acpi_machine Phys (of_nat (a + i))) [0..<8] ! 0 = bytes_of ''RSD PTR '' ! 0"
      using that(1) by (simp only: rsdp_valid_def)
    then have "mem acpi_machine Phys (of_nat a) \<noteq> 0" by (simp add: bytes_of_def)
    then show ?thesis using acpi_machine_byte [of a] that(2) by (auto split: if_splits)
  qed
  then have "0xF5A0 \<le> a" if "rsdp_valid (mem acpi_machine) a" for a
    using that by (cases "a < 0x100000") auto
  then have "(LEAST a. rsdp_valid (mem acpi_machine) a) = 0xF5A0"
    using valid by (intro Least_equality)
  moreover have "\<exists>a < 0x100000. rsdp_valid (mem acpi_machine) a" using valid by (intro exI [of _ "0xF5A0"]) simp
  ultimately show ?thesis by (simp only: rsdp_found_at_def if_True)
qed

lemma acpi_machine_revision: "a < 0x100000 \<Longrightarrow> rsdp_revision (mem acpi_machine) a \<noteq> 2"
proof -
  assume "a < 0x100000"
  then have "a + 15 < 4294967296" by simp
  then show ?thesis
    using acpi_machine_byte [of "a + 15"]
    by (auto simp: rsdp_revision_def bytes_of_def nth_Cons split: nat.splits)
qed

lemma find_rsdp_first_witness:
  "find_rsdp ready_hw acpi_machine =
    printf_nolock ready_hw (lit ''acpi: RSDP Found [OEM: %s, SIG:  %s]\<newline>'')
      [Va_ptr (padd (at (of_nat 0xF5A0)) 9), Va_ptr (at (of_nat 0xF5A0))] acpi_machine"
  unfolding acpi_machine_found [symmetric]
  by (rule find_rsdp_first) (rule acpi_machine_revision)

end
