(* ===== verification/Scheduler.thy ===== *)
theory Scheduler
  imports Io
begin

text \<open>
  Processes: arch/i386/asm/asm.h (\<open>struct regs\<close>), arch/i386/scheduler/scheduler.c and
  kernel/scheduler/scheduler.c.

  The process table is a list of \<open>MAX_PROCESSES\<close> tasks; an access checks its index. A process
  name is a pointer into physical memory, where the process's own address space is. The search for
  the next process runs around the table without end, so it does not return when no process is in
  the state looked for.

  What these operations guarantee is in \<open>Scheduling\<close>.
\<close>

section \<open>Registers (arch/i386)\<close>

record regs =
  r_gs :: u32
  r_fs :: u32
  r_es :: u32
  r_ds :: u32
  r_edi :: u32
  r_esi :: u32
  r_ebp :: u32
  r_esp :: u32
  r_ebx :: u32
  r_edx :: u32
  r_ecx :: u32
  r_eax :: u32
  r_int_no :: u32
  r_err_code :: u32
  r_eip :: u32
  r_cs :: u32
  r_eflags :: u32
  r_useresp :: u32
  r_ss :: u32

definition EFLAG_INTERRUPT :: u32 where
  "EFLAG_INTERRUPT = 0x0200"

definition initialize_registers :: "regs \<Rightarrow> u32 \<Rightarrow> u32 \<Rightarrow> u32 \<Rightarrow> regs" where
  "initialize_registers new_regs entrypoint address_base address_space_size =
     (let useresp = address_base + address_space_size - 1
      in new_regs\<lparr>r_eip := entrypoint, r_edi := 0, r_esi := 0, r_ebx := 0, r_edx := 0, r_ecx := 0,
           r_eax := 0, r_eflags := EFLAG_INTERRUPT, r_useresp := useresp, r_ebp := useresp,
           r_ds := 35, r_es := 35, r_fs := 35, r_gs := 35, r_ss := 27\<rparr>)"

definition store_registers :: "regs \<Rightarrow> regs \<Rightarrow> regs" where
  "store_registers machine_regs current_regs =
     current_regs\<lparr>r_edi := r_edi machine_regs, r_esi := r_esi machine_regs,
       r_ebx := r_ebx machine_regs, r_edx := r_edx machine_regs, r_ecx := r_ecx machine_regs,
       r_eax := r_eax machine_regs, r_eip := r_eip machine_regs, r_eflags := r_eflags machine_regs,
       r_useresp := r_useresp machine_regs, r_ebp := r_ebp machine_regs\<rparr>"

definition switch_context :: "regs \<Rightarrow> regs \<Rightarrow> regs" where
  "switch_context machine_regs new_regs =
     machine_regs\<lparr>r_edi := r_edi new_regs, r_esi := r_esi new_regs, r_ebx := r_ebx new_regs,
       r_edx := r_edx new_regs, r_ecx := r_ecx new_regs, r_eax := r_eax new_regs,
       r_eip := r_eip new_regs, r_eflags := r_eflags new_regs, r_esp := r_esp machine_regs,
       r_useresp := r_useresp new_regs, r_ebp := r_ebp new_regs,
       r_ds := 35, r_es := 35, r_fs := 35, r_gs := 35, r_ss := 35, r_cs := 27\<rparr>"

section \<open>The process table\<close>

abbreviation ADDRESS_SPACE_SIZE :: u32 where "ADDRESS_SPACE_SIZE \<equiv> 1000000"
abbreviation MAX_PROCESSES :: nat where "MAX_PROCESSES \<equiv> 128"

datatype task_state_t = TASKSTATE_unused | TASKSTATE_ready | TASKSTATE_blocked

record task_struct =
  ts_pid :: u32
  ts_state :: task_state_t
  ts_registers :: regs
  ts_address_base :: u32
  ts_allocd_addr :: u32
  ts_process_name :: u32

record sched =
  process_table :: "task_struct list"
  current_pid :: u32

definition pt_get :: "task_struct list \<Rightarrow> u32 \<Rightarrow> task_struct res" where
  "pt_get tbl i = (if unat i < length tbl then ok (tbl ! unat i) else fail Read_oob)"

definition pt_update :: "u32 \<Rightarrow> (task_struct \<Rightarrow> task_struct) \<Rightarrow> sched \<Rightarrow> sched res" where
  "pt_update i f s =
     (if unat i < length (process_table s)
      then ok (s\<lparr>process_table := (process_table s)[unat i := f (process_table s ! unat i)]\<rparr>)
      else fail Write_oob)"

definition init_process_table :: "sched \<Rightarrow> sched res" where
  "init_process_table s =
     bind_res
       (for_range 0 MAX_PROCESSES
          (\<lambda>i. pt_update (of_nat i) (\<lambda>t. t\<lparr>ts_state := TASKSTATE_unused\<rparr>)) s)
       (\<lambda>s. ok (s\<lparr>current_pid := 129\<rparr>))"

partial_function (option) pid_scan :: "task_struct list \<Rightarrow> task_state_t \<Rightarrow> u32 \<Rightarrow> u32 res" where
  "pid_scan tbl st i =
     bind_res (pt_get tbl i) (\<lambda>t.
     if ts_state t \<noteq> st then pid_scan tbl st ((i + 1) mod of_nat MAX_PROCESSES) else ok i)"

definition get_next_pid :: "task_struct list \<Rightarrow> u32 \<Rightarrow> task_state_t \<Rightarrow> u32 res" where
  "get_next_pid tbl start st = pid_scan tbl st (start mod of_nat MAX_PROCESSES)"

definition balloc_pid :: "u32 \<Rightarrow> u32 \<Rightarrow> sched \<Rightarrow> (u32 \<times> sched) res" where
  "balloc_pid sz pid s =
     bind_res (pt_get (process_table s) pid) (\<lambda>t.
     bind_res (pt_update pid (\<lambda>t. t\<lparr>ts_allocd_addr := ts_allocd_addr t + sz\<rparr>) s) (\<lambda>s.
     ok (ts_allocd_addr t, s)))"

definition balloc :: "u32 \<Rightarrow> sched \<Rightarrow> (u32 \<times> sched) res" where
  "balloc sz s = balloc_pid sz (current_pid s) s"

definition start_process :: "ptr \<Rightarrow> u32 \<Rightarrow> sched \<Rightarrow> mem \<Rightarrow> (sched \<times> mem) res" where
  "start_process name entrypoint s m =
     bind_res (get_next_pid (process_table s) 0 TASKSTATE_unused) (\<lambda>pid.
     let base = ADDRESS_SPACE_SIZE * (pid + 6) in
     bind_res (pt_update pid (\<lambda>t. t\<lparr>ts_address_base := base\<rparr>) s) (\<lambda>s.
     bind_res (pt_update pid (\<lambda>t. t\<lparr>ts_allocd_addr := ts_address_base t, ts_state := TASKSTATE_ready\<rparr>) s) (\<lambda>s.
     bind_res (balloc_pid 16 pid s) (\<lambda>(addr, s).
     bind_res (pt_update pid (\<lambda>t. t\<lparr>ts_process_name := addr, ts_pid := pid\<rparr>) s) (\<lambda>s.
     bind_res (strncpy name (Phys, addr) 16 m) (\<lambda>m.
     bind_res (pt_update pid (\<lambda>t. t\<lparr>ts_registers :=
         initialize_registers (ts_registers t) entrypoint (ts_address_base t) ADDRESS_SPACE_SIZE\<rparr>) s) (\<lambda>s.
     ok (s, m))))))))"

definition schedule :: "regs \<Rightarrow> sched \<Rightarrow> (regs \<times> sched) res" where
  "schedule r s =
     bind_res
       (if unat (current_pid s) < MAX_PROCESSES
        then pt_update (current_pid s) (\<lambda>t. t\<lparr>ts_registers := store_registers r (ts_registers t)\<rparr>) s
        else ok s) (\<lambda>s.
     bind_res (get_next_pid (process_table s) ((current_pid s + 1) mod of_nat MAX_PROCESSES) TASKSTATE_ready) (\<lambda>pid.
     let s = s\<lparr>current_pid := pid\<rparr> in
     bind_res (pt_get (process_table s) (current_pid s)) (\<lambda>t.
     ok (switch_context r (ts_registers t), s))))"

section \<open>Printing the table\<close>

definition single_process_debug :: "hw \<Rightarrow> u32 \<Rightarrow> sched \<Rightarrow> machine \<Rightarrow> machine res" where
  "single_process_debug hw pid s k =
     bind_res (pt_get (process_table s) pid) (\<lambda>proc.
     bind_res (printf_nolock hw (lit ''pid: %u (%s)\<newline>'')
        [Va_int pid, Va_ptr (Phys, ts_process_name proc)] k) (\<lambda>k.
     bind_res (printf_nolock hw (lit ''eip: %x esp: %x (%d)\<newline>'')
        [Va_int (r_eip (ts_registers proc)), Va_int (r_useresp (ts_registers proc)),
         Va_int (r_useresp (ts_registers proc))] k) (\<lambda>k.
     printf_nolock hw (lit ''ass: %d ase: %d\<newline>\<newline>'')
        [Va_int (ts_address_base proc), Va_int (r_ebp (ts_registers proc))] k)))"

definition process_debug :: "hw \<Rightarrow> sched \<Rightarrow> machine \<Rightarrow> machine res" where
  "process_debug hw s k =
     bind_res (printf_nolock hw
        (lit ''RAZZLE Debugger: Process Table | current pid: %u\<newline>'') [Va_int (current_pid s)] k)
     (for_range 0 MAX_PROCESSES (\<lambda>i k.
        bind_res (pt_get (process_table s) (of_nat i)) (\<lambda>t.
        if ts_state t \<noteq> TASKSTATE_unused then single_process_debug hw (of_nat i) s k else ok k)))"

end
