(* ===== verification/Scheduling.thy ===== *)
theory Scheduling
  imports Scheduler
begin

text \<open>
  What the scheduler guarantees. \<open>bounded_array\<close> is the contract of the kernel's fixed arrays of
  structures: an access inside the array reads or replaces one element, and the loop that
  initialises an array changes every element. \<open>first_on_ring\<close> is the specification of the search
  for a process: the first one in the state looked for, going round the table from the start.
  \<open>ticks\<close> is a sequence of timer interrupts, each with the registers the interrupted code had.
\<close>

section \<open>Fixed arrays of structures\<close>

locale bounded_array =
  fixes cells :: "'s \<Rightarrow> 'e list" and with_cells :: "'e list \<Rightarrow> 's \<Rightarrow> 's"
    and upd :: "u32 \<Rightarrow> ('e \<Rightarrow> 'e) \<Rightarrow> 's \<Rightarrow> 's res"
  assumes upd_in: "unat i < length (cells s) \<Longrightarrow>
      upd i f s = ok (with_cells ((cells s)[unat i := f (cells s ! unat i)]) s)"
    and upd_out: "\<not> unat i < length (cells s) \<Longrightarrow> upd i f s = fail Write_oob"
    and cells_with [simp]: "cells (with_cells xs s) = xs"
    and with_with [simp]: "with_cells xs (with_cells ys s) = with_cells xs s"
    and with_same [simp]: "with_cells (cells s) s = s"
begin

lemma upd_length: "upd i f s = ok s' \<Longrightarrow> length (cells s') = length (cells s)"
  using upd_in [of i s f] upd_out [of i s f] by (cases "unat i < length (cells s)") auto

lemma upd_twice:
  "unat i < length (cells s) \<Longrightarrow>
   bind_res (upd i f s) (upd i g) = upd i (\<lambda>x. g (f x)) s"
  by (simp add: upd_in)

lemma upd_all:
  assumes "length (cells s) = n" and "n < 4294967296"
  shows "for_range 0 n (\<lambda>i. upd (of_nat i) f) s = ok (with_cells (map f (cells s)) s)"
proof -
  let ?F = "\<lambda>i. with_cells (map f (take i (cells s)) @ drop i (cells s)) s"
  have "upd (of_nat i) f (?F i) = ok (?F (Suc i))" if "i < n" for i
  proof -
    have "(map f (take i (cells s)) @ drop i (cells s))[i := f (cells s ! i)]
        = map f (take (Suc i) (cells s)) @ drop (Suc i) (cells s)"
      using that assms(1)
      by (simp add: list_update_append take_Suc_conv_app_nth flip: Cons_nth_drop_Suc)
    then show ?thesis using that assms by (simp add: upd_in nth_append)
  qed
  then have "for_range 0 n (\<lambda>i. upd (of_nat i) f) (?F 0) = ok (?F n)"
    by (intro for_range_exact) auto
  then show ?thesis using assms(1) by simp
qed

end

interpretation ptable: bounded_array process_table "\<lambda>xs s. s\<lparr>process_table := xs\<rparr>" pt_update
  by unfold_locales (auto simp: pt_update_def)

definition table_ok :: "sched \<Rightarrow> bool" where
  "table_ok s \<longleftrightarrow> length (process_table s) = MAX_PROCESSES"

definition state_of :: "sched \<Rightarrow> nat \<Rightarrow> task_state_t" where
  "state_of s p = ts_state (process_table s ! p)"

lemma init_process_table_eq:
  "table_ok s \<Longrightarrow> init_process_table s =
     ok (s\<lparr>process_table := map (\<lambda>t. t\<lparr>ts_state := TASKSTATE_unused\<rparr>) (process_table s), current_pid := 129\<rparr>)"
  by (simp add: init_process_table_def table_ok_def ptable.upd_all)

section \<open>The search around the table\<close>

definition first_on_ring :: "(nat \<Rightarrow> bool) \<Rightarrow> nat \<Rightarrow> nat \<Rightarrow> bool" where
  "first_on_ring P a p \<longleftrightarrow>
     (\<exists>k < MAX_PROCESSES. p = (a + k) mod MAX_PROCESSES \<and> P p \<and> (\<forall>j < k. \<not> P ((a + j) mod MAX_PROCESSES)))"

lemma ring_offset:
  assumes "p < MAX_PROCESSES"
  obtains k where "k < MAX_PROCESSES" and "p = (a + k) mod MAX_PROCESSES"
proof
  let ?k = "(p + (MAX_PROCESSES - a mod MAX_PROCESSES)) mod MAX_PROCESSES"
  show "?k < MAX_PROCESSES" by simp
  have "(a + ?k) mod MAX_PROCESSES = (a mod MAX_PROCESSES + (p + (MAX_PROCESSES - a mod MAX_PROCESSES))) mod MAX_PROCESSES"
    by (simp only: mod_add_left_eq mod_add_right_eq)
  also have "\<dots> = (p + MAX_PROCESSES) mod MAX_PROCESSES"
    by (rule arg_cong [where f = "\<lambda>x. x mod MAX_PROCESSES"]) (use mod_less_divisor [of MAX_PROCESSES a] in linarith)
  finally show "p = (a + ?k) mod MAX_PROCESSES" using assms by simp
qed

lemma first_on_ring_exists:
  assumes "P p" and "p < MAX_PROCESSES"
  obtains q where "first_on_ring P a q"
proof -
  obtain k where k: "k < MAX_PROCESSES" "p = (a + k) mod MAX_PROCESSES"
    using assms(2) by (rule ring_offset)
  then have "P ((a + k) mod MAX_PROCESSES)" using assms by simp
  then obtain m where m: "P ((a + m) mod MAX_PROCESSES)" "\<forall>j < m. \<not> P ((a + j) mod MAX_PROCESSES)"
    by (rule first_nat)
  have "m \<le> k" using m(2) assms(1) k(2) by (metis not_le_imp_less)
  with m k(1) have "first_on_ring P a ((a + m) mod MAX_PROCESSES)"
    unfolding first_on_ring_def by (intro exI [of _ m]) simp
  then show thesis by (rule that)
qed

lemma first_on_ring_unique:
  assumes "first_on_ring P a p" and "first_on_ring P a q"
  shows "p = q"
proof -
  obtain k where k: "p = (a + k) mod MAX_PROCESSES" "P p" "\<forall>j < k. \<not> P ((a + j) mod MAX_PROCESSES)"
    using assms(1) by (auto simp: first_on_ring_def)
  obtain l where l: "q = (a + l) mod MAX_PROCESSES" "P q" "\<forall>j < l. \<not> P ((a + j) mod MAX_PROCESSES)"
    using assms(2) by (auto simp: first_on_ring_def)
  have "k = l" using k l by (metis linorder_neqE_nat)
  with k l show ?thesis by simp
qed

lemma first_on_ring_less: "first_on_ring P a p \<Longrightarrow> p < MAX_PROCESSES \<and> P p"
  by (auto simp: first_on_ring_def)

lemma first_on_ring_mod [simp]: "first_on_ring P (a mod MAX_PROCESSES) p = first_on_ring P a p"
  by (simp add: first_on_ring_def mod_simps)

lemma unat_mod_128 [simp, word_facts]: "unat (w mod 128 :: u32) = unat w mod 128"
  by (simp add: unat_mod)

lemma pid_scan_skip:
  assumes "length tbl = MAX_PROCESSES" and "a < MAX_PROCESSES" and "ts_state (tbl ! a) \<noteq> st"
  shows "pid_scan tbl st (of_nat a) = pid_scan tbl st (of_nat ((a + 1) mod MAX_PROCESSES))"
proof -
  have eq: "(of_nat a + 1) mod (128 :: u32) = of_nat ((a + 1) mod 128)"
    using assms(2) unat_offset [of "of_nat a" 1] by (simp add: word_unat_eq_iff)
  show ?thesis
    using assms by (subst pid_scan.simps) (simp add: pt_get_def eq)
qed

lemma pid_scan_first:
  assumes "length tbl = MAX_PROCESSES" and "first_on_ring (\<lambda>p. ts_state (tbl ! p) = st) a p"
    and "a < MAX_PROCESSES"
  shows "pid_scan tbl st (of_nat a) = ok (of_nat p)"
proof -
  have "pid_scan tbl st (of_nat a) = ok (of_nat ((a + k) mod MAX_PROCESSES))"
    if "a < MAX_PROCESSES" and "ts_state (tbl ! ((a + k) mod MAX_PROCESSES)) = st"
      and "\<forall>j < k. ts_state (tbl ! ((a + j) mod MAX_PROCESSES)) \<noteq> st" for a k
    using that
  proof (induction k arbitrary: a)
    case 0
    then show ?case using assms(1) by (subst pid_scan.simps) (simp add: pt_get_def)
  next
    case (Suc k)
    let ?b = "(a + 1) mod MAX_PROCESSES"
    have shift: "(?b + j) mod MAX_PROCESSES = (a + Suc j) mod MAX_PROCESSES" for j
      by (simp add: mod_simps)
    have "pid_scan tbl st (of_nat ?b) = ok (of_nat ((?b + k) mod MAX_PROCESSES))"
    proof (rule Suc.IH)
      show "ts_state (tbl ! ((?b + k) mod MAX_PROCESSES)) = st"
        using Suc.prems(2) by (simp only: shift)
      show "\<forall>j < k. ts_state (tbl ! ((?b + j) mod MAX_PROCESSES)) \<noteq> st"
        using Suc.prems(3) by (simp only: shift) (blast intro: Suc_mono)
    qed simp
    then have rest: "pid_scan tbl st (of_nat ?b) = ok (of_nat ((a + Suc k) mod MAX_PROCESSES))"
      by (simp only: shift)
    have "ts_state (tbl ! a) \<noteq> st"
      using Suc.prems(1,3) by (metis add.right_neutral mod_less zero_less_Suc)
    with assms(1) Suc.prems(1) have "pid_scan tbl st (of_nat a) = pid_scan tbl st (of_nat ?b)"
      by (rule pid_scan_skip)
    from this rest show ?case by (rule trans)
  qed
  then show ?thesis using assms by (auto simp: first_on_ring_def)
qed

lemma pid_scan_found:
  assumes "pid_scan tbl st i = Some r" and "length tbl = MAX_PROCESSES" and "unat i < MAX_PROCESSES"
  shows "\<exists>p < MAX_PROCESSES. ts_state (tbl ! p) = st"
proof -
  let ?P = "\<lambda>tbl st i (r :: fault + u32). length tbl = MAX_PROCESSES \<longrightarrow> unat i < MAX_PROCESSES
              \<longrightarrow> (\<exists>p < MAX_PROCESSES. ts_state (tbl ! p) = st)"
  have "?P tbl st i r"
  proof (rule pid_scan.raw_induct [where P = ?P, OF _ assms(1)])
    fix f and tbl :: "task_struct list" and st i r
    assume IH: "\<And>tbl st i r. f tbl st i = Some r \<Longrightarrow> ?P tbl st i r"
      and eq: "bind_res (pt_get tbl i) (\<lambda>t. if ts_state t \<noteq> st
                 then f tbl st ((i + 1) mod of_nat MAX_PROCESSES) else ok i) = Some r"
    show "?P tbl st i r"
    proof (intro impI)
      assume len: "length tbl = MAX_PROCESSES" and i: "unat i < MAX_PROCESSES"
      show "\<exists>p < MAX_PROCESSES. ts_state (tbl ! p) = st"
      proof (cases "ts_state (tbl ! unat i) = st")
        case False
        then have "f tbl st ((i + 1) mod 128) = Some r"
          using eq len i by (simp add: pt_get_def)
        then show ?thesis using IH len by fastforce
      qed (use i in blast)
    qed
  qed
  then show ?thesis using assms by blast
qed

lemma pid_scan_hangs:
  assumes "length tbl = MAX_PROCESSES" and "unat i < MAX_PROCESSES"
    and "\<forall>p < MAX_PROCESSES. ts_state (tbl ! p) \<noteq> st"
  shows "pid_scan tbl st i = hang"
  using assms pid_scan_found [of tbl st i] by (cases "pid_scan tbl st i") auto

lemma get_next_pid_first:
  assumes "table_ok s" and "first_on_ring (\<lambda>p. state_of s p = st) (unat a) p"
  shows "get_next_pid (process_table s) a st = ok (of_nat p)"
proof -
  have "a mod 128 = of_nat (unat a mod 128)" by (simp add: word_unat_eq_iff)
  then show ?thesis
    using assms pid_scan_first [of "process_table s" st "unat a mod 128" p]
    by (simp add: get_next_pid_def table_ok_def state_of_def del: of_nat_mod)
qed

lemma get_next_pid_hangs:
  "table_ok s \<Longrightarrow> \<forall>p < MAX_PROCESSES. state_of s p \<noteq> st \<Longrightarrow> get_next_pid (process_table s) a st = hang"
  by (auto simp: get_next_pid_def table_ok_def state_of_def intro!: pid_scan_hangs)

section \<open>Switching\<close>

text \<open>The registers a process keeps across a switch.\<close>

definition user_view :: "regs \<Rightarrow> u32 list" where
  "user_view r = [r_edi r, r_esi r, r_ebx r, r_edx r, r_ecx r, r_eax r, r_eip r, r_eflags r,
     r_useresp r, r_ebp r]"

definition saved :: "regs \<Rightarrow> sched \<Rightarrow> sched" where
  "saved r s =
     (if unat (current_pid s) < MAX_PROCESSES
      then s\<lparr>process_table := (process_table s)[unat (current_pid s) :=
             (process_table s ! unat (current_pid s))
               \<lparr>ts_registers := store_registers r (ts_registers (process_table s ! unat (current_pid s)))\<rparr>]\<rparr>
      else s)"

abbreviation ready :: "sched \<Rightarrow> nat \<Rightarrow> bool" where
  "ready s p \<equiv> state_of s p = TASKSTATE_ready"

definition after_current :: "sched \<Rightarrow> nat" where
  "after_current s = unat (current_pid s + 1) mod MAX_PROCESSES"

lemma user_view_store [simp]: "user_view (store_registers r t) = user_view r"
  and user_view_switch [simp]: "user_view (switch_context r t) = user_view t"
  by (simp_all add: user_view_def store_registers_def switch_context_def)

lemma saved_simps [simp]:
  "table_ok (saved r s) = table_ok s" "current_pid (saved r s) = current_pid s"
  "length (process_table (saved r s)) = length (process_table s)"
  by (simp_all add: saved_def table_ok_def)

lemma state_of_saved [simp]: "state_of (saved r s) p = state_of s p"
  by (cases "p = unat (current_pid s)"; cases "unat (current_pid s) < length (process_table s)")
    (simp_all add: saved_def state_of_def list_update_beyond)

lemma current_pid_simps [simp]:
  "table_ok (s\<lparr>current_pid := p\<rparr>) = table_ok s" "state_of (s\<lparr>current_pid := p\<rparr>) = state_of s"
  by (simp_all add: table_ok_def state_of_def fun_eq_iff)

lemma saved_nth:
  "table_ok s \<Longrightarrow> p < MAX_PROCESSES \<Longrightarrow>
   process_table (saved r s) ! p =
     (if p = unat (current_pid s)
      then (process_table s ! p)\<lparr>ts_registers := store_registers r (ts_registers (process_table s ! p))\<rparr>
      else process_table s ! p)"
  by (auto simp: saved_def table_ok_def nth_list_update)

lemma schedule_eq:
  assumes "table_ok s" and "first_on_ring (ready s) (after_current s) p"
  shows "schedule r s =
    ok (switch_context r (ts_registers (process_table (saved r s) ! p)), (saved r s)\<lparr>current_pid := of_nat p\<rparr>)"
proof -
  have p: "p < 128" using assms(2) first_on_ring_less by blast
  have save: "(if unat (current_pid s) < MAX_PROCESSES
        then pt_update (current_pid s) (\<lambda>t. t\<lparr>ts_registers := store_registers r (ts_registers t)\<rparr>) s
        else ok s) = ok (saved r s)"
    using assms(1) by (simp add: saved_def pt_update_def table_ok_def)
  have "get_next_pid (process_table (saved r s)) ((current_pid s + 1) mod 128) TASKSTATE_ready = ok (of_nat p)"
    using assms by (intro get_next_pid_first) (simp_all add: after_current_def)
  then show ?thesis
    using assms(1) p unfolding schedule_def save by (simp add: pt_get_def table_ok_def)
qed

lemma schedule_hangs:
  assumes "table_ok s" and "\<forall>p < MAX_PROCESSES. \<not> ready s p"
  shows "schedule r s = hang"
proof -
  have save: "(if unat (current_pid s) < MAX_PROCESSES
        then pt_update (current_pid s) (\<lambda>t. t\<lparr>ts_registers := store_registers r (ts_registers t)\<rparr>) s
        else ok s) = ok (saved r s)"
    using assms(1) by (simp add: saved_def pt_update_def table_ok_def)
  show ?thesis
    using assms unfolding schedule_def save by (simp add: get_next_pid_hangs)
qed

lemma schedule_cases:
  assumes "table_ok s" and "schedule r s = ok (r', s')"
  obtains p where "first_on_ring (ready s) (after_current s) p"
    and "s' = (saved r s)\<lparr>current_pid := of_nat p\<rparr>"
    and "r' = switch_context r (ts_registers (process_table s' ! p))"
proof (cases "\<exists>p < MAX_PROCESSES. ready s p")
  case True
  then obtain p where "first_on_ring (ready s) (after_current s) p"
    using first_on_ring_exists [of "ready s"] by blast
  with assms schedule_eq [OF assms(1) this] that show thesis by auto
next
  case False
  with assms schedule_hangs show thesis by auto
qed

section \<open>Sequences of timer interrupts\<close>

fun ticks :: "regs list \<Rightarrow> regs \<times> sched \<Rightarrow> (regs \<times> sched) res" where
  "ticks [] x = ok x"
| "ticks (r # rs) x = bind_res (schedule r (snd x)) (ticks rs)"

lemma schedule_keeps:
  assumes "table_ok s" and "schedule r s = ok (r', s')"
  shows "table_ok s'" and "state_of s' = state_of s" and "unat (current_pid s') < MAX_PROCESSES"
    and "ready s' (unat (current_pid s'))"
proof -
  obtain p where p: "first_on_ring (ready s) (after_current s) p"
      and s': "s' = (saved r s)\<lparr>current_pid := of_nat p\<rparr>"
    using assms by (rule schedule_cases)
  have "p < 128" "ready s p" using first_on_ring_less [OF p] by auto
  then show "table_ok s'" "state_of s' = state_of s" "unat (current_pid s') < MAX_PROCESSES"
    "ready s' (unat (current_pid s'))"
    using assms(1) by (simp_all add: s' fun_eq_iff)
qed

lemma ticks_append: "ticks (xs @ ys) x = bind_res (ticks xs x) (ticks ys)"
  by (induction xs arbitrary: x) (simp_all add: bind_res_assoc cong: bind_res_cong)

lemma ticks_reach:
  assumes "table_ok s" and "ready s p" and "g < MAX_PROCESSES"
    and "p = (after_current s + g) mod MAX_PROCESSES" and "g < length rs"
  shows "\<exists>n x. 1 \<le> n \<and> n \<le> Suc g \<and> ticks (take n rs) (r0, s) = ok x \<and> unat (current_pid (snd x)) = p"
  using assms
proof (induction g arbitrary: s rs r0 rule: less_induct)
  case (less g)
  let ?a = "after_current s"
  obtain r rs' where rs: "rs = r # rs'" using less.prems(5) by (cases rs) auto
  have p: "p < 128" using less.prems(4) by simp
  obtain q where q: "first_on_ring (ready s) ?a q"
    using first_on_ring_exists [of "ready s"] less.prems(2) p by blast
  then obtain k where k: "q = (?a + k) mod 128" "\<forall>j < k. \<not> ready s ((?a + j) mod 128)"
    by (auto simp: first_on_ring_def)
  have q128: "q < 128" using k(1) by simp
  obtain r' s' where s': "schedule r s = ok (r', s')" "s' = (saved r s)\<lparr>current_pid := of_nat q\<rparr>"
    using schedule_eq [OF less.prems(1) q] by blast
  show ?case
  proof (cases "q = p")
    case True
    then have "ticks (take 1 rs) (r0, s) = ok (r', s') \<and> unat (current_pid s') = p"
      using s' q128 by (simp add: rs)
    then show ?thesis by (intro exI [of _ 1] exI [of _ "(r', s')"]) simp
  next
    case False
    have "k < g"
      using k less.prems(2,4) False by (metis linorder_neqE_nat)
    let ?h = "g - Suc k"
    have after: "after_current s' = Suc q mod 128"
      using q128 unat_offset [of "of_nat q" 1] by (simp add: after_current_def s'(2))
    have "(after_current s' + ?h) mod 128 = (?a + (k + 1 + ?h)) mod 128"
      unfolding after k(1) by (simp add: mod_simps add.assoc)
    then have "p = (after_current s' + ?h) mod 128"
      using \<open>k < g\<close> less.prems(4) by simp
    moreover have "table_ok s'" "ready s' p"
      using schedule_keeps [OF less.prems(1) s'(1)] less.prems(2) by simp_all
    moreover have "?h < g" "?h < 128" "?h < length rs'"
      using \<open>k < g\<close> less.prems(3,5) by (auto simp: rs)
    ultimately have "\<exists>n x. 1 \<le> n \<and> n \<le> Suc ?h \<and> ticks (take n rs') (r', s') = ok x
        \<and> unat (current_pid (snd x)) = p"
      by (intro less.IH)
    then obtain n x where n: "1 \<le> n" "n \<le> Suc ?h" "ticks (take n rs') (r', s') = ok x"
        "unat (current_pid (snd x)) = p"
      by blast
    then show ?thesis
      using s'(1) \<open>k < g\<close> by (intro exI [of _ "Suc n"] exI [of _ x]) (simp add: rs)
  qed
qed

text \<open>What a process saved stays as it is until the process is current again.\<close>

lemma ticks_keep_registers:
  assumes "table_ok s" and "p < MAX_PROCESSES" and "unat (current_pid s) \<noteq> p"
    and "ticks rs (r0, s) = ok (r', s')" and "rs \<noteq> []" and "unat (current_pid s') = p"
    and "\<And>n x. 1 \<le> n \<Longrightarrow> n < length rs \<Longrightarrow> ticks (take n rs) (r0, s) = ok x \<Longrightarrow> unat (current_pid (snd x)) \<noteq> p"
  shows "user_view r' = user_view (ts_registers (process_table s ! p))"
  using assms
proof (induction rs arbitrary: r0 s)
  case (Cons r rs)
  obtain r1 s1 where s1: "schedule r s = ok (r1, s1)" and rest: "ticks rs (r1, s1) = ok (r', s')"
    using Cons.prems(4) by auto
  obtain q where q: "first_on_ring (ready s) (after_current s) q"
      "s1 = (saved r s)\<lparr>current_pid := of_nat q\<rparr>" "r1 = switch_context r (ts_registers (process_table s1 ! q))"
    using Cons.prems(1) s1 by (rule schedule_cases)
  have q128: "q < 128" using first_on_ring_less q(1) by blast
  have same: "process_table s1 ! p = process_table s ! p"
    using Cons.prems(1-3) by (simp add: q(2) saved_nth)
  show ?case
  proof (cases "rs = []")
    case True
    then have "q = p" "r' = r1" using rest Cons.prems(6) q(2) q128 by auto
    then show ?thesis using q(3) same by simp
  next
    case False
    have "unat (current_pid s1) \<noteq> p"
      using Cons.prems(7) [of 1 "(r1, s1)"] s1 False by simp
    moreover have "unat (current_pid (snd x)) \<noteq> p"
      if "1 \<le> n" "n < length rs" "ticks (take n rs) (r1, s1) = ok x" for n x
      using that Cons.prems(7) [of "Suc n" x] s1 by simp
    ultimately have "user_view r' = user_view (ts_registers (process_table s1 ! p))"
      using Cons.prems(2,6) rest False schedule_keeps(1) [OF Cons.prems(1) s1] by (intro Cons.IH) auto
    then show ?thesis by (simp add: same)
  qed
qed simp

section \<open>Starting a process\<close>

definition space_base :: "nat \<Rightarrow> u32" where
  "space_base p = ADDRESS_SPACE_SIZE * (of_nat p + 6)"

definition started :: "nat \<Rightarrow> u32 \<Rightarrow> task_struct \<Rightarrow> task_struct" where
  "started p entrypoint t =
     t\<lparr>ts_address_base := space_base p, ts_state := TASKSTATE_ready,
       ts_allocd_addr := space_base p + 16, ts_process_name := space_base p, ts_pid := of_nat p,
       ts_registers := initialize_registers (ts_registers t) entrypoint (space_base p) ADDRESS_SPACE_SIZE\<rparr>"

lemma unat_space_base: "p < MAX_PROCESSES \<Longrightarrow> unat (space_base p) = 1000000 * (p + 6)"
  by (simp add: space_base_def unat_word_ariths)

lemma valid_space: "p < MAX_PROCESSES \<Longrightarrow> n \<le> 1000000 \<Longrightarrow> valid (Phys, space_base p) n"
  by (simp add: valid_def unat_space_base)

text \<open>The address spaces of two processes have no byte in common.\<close>

lemma spaces_disjoint:
  "p < MAX_PROCESSES \<Longrightarrow> q < MAX_PROCESSES \<Longrightarrow> p \<noteq> q \<Longrightarrow>
   disjoint (Phys, space_base p) 1000000 (Phys, space_base q) 1000000"
  by (auto simp: disjoint_def unat_space_base)

lemma pt_update_nth:
  "table_ok s \<Longrightarrow> p < MAX_PROCESSES \<Longrightarrow>
   pt_update (of_nat p) f s = ok (s\<lparr>process_table := (process_table s)[p := f (process_table s ! p)]\<rparr>)"
  by (simp add: pt_update_def table_ok_def)

lemma table_ok_update [simp]: "table_ok (s\<lparr>process_table := (process_table s)[p := t]\<rparr>) = table_ok s"
  by (simp add: table_ok_def)

lemma start_process_eq:
  assumes "table_ok s" and "first_on_ring (\<lambda>p. state_of s p = TASKSTATE_unused) 0 p"
    and "cstring m name xs" and "disjoint (Phys, space_base p) 16 name (Suc (length xs))"
  shows "start_process name entrypoint s m =
    ok (s\<lparr>process_table := (process_table s)[p := started p entrypoint (process_table s ! p)]\<rparr>,
        upd_bytes m (Phys, space_base p) (min (Suc (length xs)) 16) (\<lambda>k. (xs @ [0]) ! k))"
proof -
  have p: "p < 128" using assms(2) first_on_ring_less by blast
  have len: "length (process_table s) = 128" using assms(1) by (simp add: table_ok_def)
  have pid: "get_next_pid (process_table s) 0 TASKSTATE_unused = ok (of_nat p)"
    using assms(1,2) by (intro get_next_pid_first) simp_all
  have copy: "strncpy name (Phys, space_base p) 16 m
      = ok (upd_bytes m (Phys, space_base p) (min (Suc (length xs)) 16) (\<lambda>k. (xs @ [0]) ! k))"
    using strncpy_upd [OF assms(3), of "(Phys, space_base p)" 16] valid_space [OF p, of 16] assms(4)
    by simp
  have base: "ADDRESS_SPACE_SIZE * of_nat p + 6000000 = space_base p"
    by (simp add: space_base_def)
  show ?thesis
    using assms(1) p len copy
    by (simp add: start_process_def pid balloc_pid_def pt_get_def Let_def started_def
        table_ok_def pt_update_def base)
qed

lemma start_process_hangs:
  "table_ok s \<Longrightarrow> \<forall>p < MAX_PROCESSES. state_of s p \<noteq> TASKSTATE_unused \<Longrightarrow>
   start_process name entrypoint s m = hang"
  by (simp add: start_process_def get_next_pid_hangs)

section \<open>Properties\<close>

text \<open>
  C23: \<open>schedule\<close> is round robin: it saves the interrupted registers in the entry of the current process,
  if there is one, and leaves every other entry of the table as it is; it gives the processor to the
  first ready process after the current one, in cyclic order of the numbers (the current one comes
  last), and delivers the registers that process saved; no process changes its state. When no
  process is ready it never returns.
\<close>

lemma schedule_round_robin:
  assumes "table_ok s"
  shows "if \<exists>p < MAX_PROCESSES. ready s p
    then \<exists>p r' s'. schedule r s = ok (r', s') \<and> first_on_ring (ready s) (after_current s) p \<and>
      unat (current_pid s') = p \<and> state_of s' = state_of s \<and> table_ok s' \<and>
      (unat (current_pid s) < MAX_PROCESSES \<longrightarrow>
        user_view (ts_registers (process_table s' ! unat (current_pid s))) = user_view r) \<and>
      (\<forall>q < MAX_PROCESSES. q \<noteq> unat (current_pid s) \<longrightarrow> process_table s' ! q = process_table s ! q) \<and>
      user_view r' = user_view (if p = unat (current_pid s) then r else ts_registers (process_table s ! p))
    else schedule r s = hang"
proof (cases "\<exists>p < MAX_PROCESSES. ready s p")
  case True
  then obtain p where p: "first_on_ring (ready s) (after_current s) p"
    using first_on_ring_exists [of "ready s"] by blast
  have p128: "p < 128" using first_on_ring_less [OF p] by blast
  let ?s = "(saved r s)\<lparr>current_pid := of_nat p\<rparr>"
  have "state_of ?s = state_of s" by (simp add: fun_eq_iff)
  moreover have "user_view (ts_registers (process_table ?s ! p)) =
      user_view (if p = unat (current_pid s) then r else ts_registers (process_table s ! p))"
    using assms p128 by (simp add: saved_nth)
  moreover have "table_ok ?s" using assms by simp
  moreover have "user_view (ts_registers (process_table ?s ! unat (current_pid s))) = user_view r"
    if "unat (current_pid s) < 128" using assms that by (simp add: saved_nth)
  moreover have "\<forall>q < 128. q \<noteq> unat (current_pid s) \<longrightarrow> process_table ?s ! q = process_table s ! q"
    using assms by (simp add: saved_nth)
  moreover have "unat (current_pid ?s) = p" using p128 by simp
  ultimately have "\<exists>p r' s'. schedule r s = ok (r', s') \<and> first_on_ring (ready s) (after_current s) p \<and>
      unat (current_pid s') = p \<and> state_of s' = state_of s \<and> table_ok s' \<and>
      (unat (current_pid s) < MAX_PROCESSES \<longrightarrow>
        user_view (ts_registers (process_table s' ! unat (current_pid s))) = user_view r) \<and>
      (\<forall>q < MAX_PROCESSES. q \<noteq> unat (current_pid s) \<longrightarrow> process_table s' ! q = process_table s ! q) \<and>
      user_view r' = user_view (if p = unat (current_pid s) then r else ts_registers (process_table s ! p))"
    using p schedule_eq [OF assms p, of r]
    by (intro exI [of _ p] exI [of _ "switch_context r (ts_registers (process_table (saved r s) ! p))"] exI [of _ ?s]) simp
  then show ?thesis using True by (simp only: if_True)
next
  case False
  then show ?thesis using schedule_hangs [OF assms] by auto
qed

text \<open>A table with two ready processes, 3 and 5, and process 3 running.\<close>

definition demo_regs :: regs where
  "demo_regs = \<lparr>r_gs = 0, r_fs = 0, r_es = 0, r_ds = 0, r_edi = 0, r_esi = 0, r_ebp = 0, r_esp = 0,
     r_ebx = 0, r_edx = 0, r_ecx = 0, r_eax = 7, r_int_no = 32, r_err_code = 0, r_eip = 0, r_cs = 0,
     r_eflags = 0, r_useresp = 0, r_ss = 0\<rparr>"

definition demo_task :: task_struct where
  "demo_task = \<lparr>ts_pid = 0, ts_state = TASKSTATE_unused, ts_registers = demo_regs,
     ts_address_base = 0, ts_allocd_addr = 0, ts_process_name = 0\<rparr>"

definition demo_sched :: sched where
  "demo_sched = \<lparr>process_table =
       (replicate 128 demo_task)[3 := demo_task\<lparr>ts_state := TASKSTATE_ready\<rparr>,
                                 5 := demo_task\<lparr>ts_state := TASKSTATE_ready\<rparr>],
     current_pid = 3\<rparr>"

lemma demo_table: "table_ok demo_sched"
  by (simp add: demo_sched_def table_ok_def)

lemma demo_state: "p < 128 \<Longrightarrow> state_of demo_sched p =
    (if p = 3 \<or> p = 5 then TASKSTATE_ready else TASKSTATE_unused)"
  by (auto simp: demo_sched_def state_of_def demo_task_def nth_list_update)

lemma schedule_round_robin_witness:
  "\<exists>r' s'. schedule demo_regs demo_sched = ok (r', s') \<and> unat (current_pid s') = 5 \<and>
    user_view (ts_registers (process_table s' ! 3)) = user_view demo_regs"
proof -
  have "\<exists>p < 128. ready demo_sched p" using demo_state [of 3] by (intro exI [of _ 3]) simp
  then obtain p r' s' where *: "schedule demo_regs demo_sched = ok (r', s')"
    "first_on_ring (ready demo_sched) (after_current demo_sched) p" "unat (current_pid s') = p"
    "unat (current_pid demo_sched) < 128 \<longrightarrow>
      user_view (ts_registers (process_table s' ! unat (current_pid demo_sched))) = user_view demo_regs"
    using schedule_round_robin [OF demo_table, of demo_regs] by auto
  have "unat (current_pid demo_sched) = 3" by (simp add: demo_sched_def)
  with *(4) have saved: "user_view (ts_registers (process_table s' ! 3)) = user_view demo_regs" by simp
  have "first_on_ring (ready demo_sched) (after_current demo_sched) 5"
    unfolding first_on_ring_def
    by (intro exI [of _ 1]) (simp add: after_current_def demo_state, simp add: demo_sched_def demo_state)
  with * saved show ?thesis using first_on_ring_unique by blast
qed

text \<open>
  C7: a process does not notice that others ran: when the timer interrupts it and it next gets the
  processor, its ten general registers are the ones it was interrupted with, however many
  interrupts came in between.
\<close>

lemma context_preserved:
  assumes "table_ok s" and "unat (current_pid s) = p" and "p < MAX_PROCESSES"
    and "ticks (r # rs) (r0, s) = ok (r', s')" and "unat (current_pid s') = p"
    and "\<And>n x. 1 \<le> n \<Longrightarrow> n \<le> length rs \<Longrightarrow> ticks (take n (r # rs)) (r0, s) = ok x \<Longrightarrow>
           unat (current_pid (snd x)) \<noteq> p"
  shows "user_view r' = user_view r"
proof -
  obtain r1 s1 where s1: "schedule r s = ok (r1, s1)" and rest: "ticks rs (r1, s1) = ok (r', s')"
    using assms(4) by auto
  obtain q where q: "s1 = (saved r s)\<lparr>current_pid := of_nat q\<rparr>"
      "first_on_ring (ready s) (after_current s) q" "r1 = switch_context r (ts_registers (process_table s1 ! q))"
    using assms(1) s1 by (rule schedule_cases) blast
  have q128: "q < 128" using first_on_ring_less q(2) by blast
  have stored: "user_view (ts_registers (process_table s1 ! p)) = user_view r"
    using assms(1-3) by (simp add: q(1) saved_nth)
  show ?thesis
  proof (cases "rs = []")
    case True
    then have "r' = r1" "q = p" using rest assms(5) q(1) q128 by auto
    then show ?thesis using q(3) stored by simp
  next
    case False
    have away: "unat (current_pid s1) \<noteq> p"
      using assms(6) [of 1 "(r1, s1)"] s1 False by (cases rs) auto
    have "unat (current_pid (snd x)) \<noteq> p"
      if "1 \<le> n" "n < length rs" "ticks (take n rs) (r1, s1) = ok x" for n x
      using that assms(6) [of "Suc n" x] s1 by simp
    from ticks_keep_registers [OF schedule_keeps(1) [OF assms(1) s1] assms(3) away rest False assms(5) this]
    show ?thesis by (simp add: stored)
  qed
qed

lemma context_preserved_witness:
  "\<exists>r' s'. ticks [demo_regs\<lparr>r_eax := 42\<rparr>, demo_regs] (demo_regs, demo_sched) = ok (r', s') \<and>
    user_view r' = user_view (demo_regs\<lparr>r_eax := 42\<rparr>)"
proof -
  let ?r = "demo_regs\<lparr>r_eax := 42\<rparr>"
  have first: "first_on_ring (ready demo_sched) (after_current demo_sched) 5"
    unfolding first_on_ring_def
    by (intro exI [of _ 1]) (simp add: after_current_def demo_state, simp add: demo_sched_def demo_state)
  let ?s1 = "(saved ?r demo_sched)\<lparr>current_pid := of_nat 5\<rparr>"
  obtain r1 where s1: "schedule ?r demo_sched = ok (r1, ?s1)"
    using schedule_eq [OF demo_table first] by blast
  have st1: "state_of ?s1 = state_of demo_sched" by (simp add: fun_eq_iff)
  have "\<not> ready demo_sched ((6 + j) mod 128)" if "j < 125" for j
  proof -
    have "(6 + j) mod 128 = (if j < 122 then 6 + j else j - 122)"
      using that by (auto simp: le_mod_geq)
    then have "(6 + j) mod 128 \<noteq> 3 \<and> (6 + j) mod 128 \<noteq> 5" using that by auto
    then show ?thesis by (simp add: demo_state)
  qed
  then have "first_on_ring (ready ?s1) (after_current ?s1) 3"
    unfolding first_on_ring_def st1
    by (intro exI [of _ 125]) (simp add: after_current_def demo_state)
  then obtain r2 s2 where s2: "schedule demo_regs ?s1 = ok (r2, s2)" "unat (current_pid s2) = 3"
    using schedule_eq [of ?s1 3 demo_regs] demo_table by auto
  have t: "ticks [?r, demo_regs] (demo_regs, demo_sched) = ok (r2, s2)"
    using s1 s2 by simp
  have "user_view r2 = user_view ?r"
  proof (rule context_preserved [OF demo_table _ _ t s2(2)])
    fix n x assume "1 \<le> n" "n \<le> length [demo_regs]"
      "ticks (take n [?r, demo_regs]) (demo_regs, demo_sched) = ok x"
    then have "x = (r1, ?s1)" using s1 by (cases "n = 1") auto
    then show "unat (current_pid (snd x)) \<noteq> 3" by simp
  qed (simp_all add: demo_sched_def)
  with t show ?thesis by blast
qed

text \<open>
  C33: \<open>start_process\<close> takes the first unused place of the table: the process is ready, starts at its
  entry point with the interrupt flag set and its stack at the top of its own address space, and
  its name, cut to 16 bytes, stands at the bottom of that space; no other process changes.
\<close>

lemma start_process_first_free:
  assumes "table_ok s" and "first_on_ring (\<lambda>p. state_of s p = TASKSTATE_unused) 0 p"
    and "cstring m name xs" and "disjoint (Phys, space_base p) 16 name (Suc (length xs))"
  shows "\<exists>s' m'. start_process name entrypoint s m = ok (s', m') \<and> ready s' p \<and>
    (let t = process_table s' ! p; g = ts_registers t
     in ts_pid t = of_nat p \<and> r_eip g = entrypoint \<and> r_eflags g = EFLAG_INTERRUPT \<and>
        unat (ts_address_base t) = 1000000 * (p + 6) \<and>
        unat (r_useresp g) = 1000000 * (p + 6) + 999999 \<and> r_ebp g = r_useresp g) \<and>
    (\<forall>k < min (Suc (length xs)) 16. m' Phys (space_base p + of_nat k) = (xs @ [0]) ! k) \<and>
    (\<forall>q. q \<noteq> p \<longrightarrow> process_table s' ! q = process_table s ! q)"
proof -
  have p: "p < 128" using assms(2) first_on_ring_less by blast
  let ?t = "started p entrypoint (process_table s ! p)"
  let ?s = "s\<lparr>process_table := (process_table s)[p := ?t]\<rparr>"
  let ?m = "upd_bytes m (Phys, space_base p) (min (Suc (length xs)) 16) (\<lambda>k. (xs @ [0]) ! k)"
  have t: "process_table ?s ! p = ?t" using assms(1) p by (simp add: table_ok_def)
  have "unat (space_base p + 999999) = 1000000 * (p + 6) + 999999"
    using p unat_offset [of "space_base p" 999999] by (simp add: unat_space_base)
  then have "unat (space_base p + 1000000 - 1) = 1000000 * (p + 6) + 999999"
    by (simp add: algebra_simps)
  moreover have "?m Phys (space_base p + of_nat k) = (xs @ [0]) ! k" if "k < min (Suc (length xs)) 16" for k
    using peek_upd_bytes_in [of "(Phys, space_base p)" "min (Suc (length xs)) 16" k m "\<lambda>k. (xs @ [0]) ! k"]
      valid_space [OF p] that by simp
  ultimately show ?thesis
    using start_process_eq [OF assms, of entrypoint] t p
    by (intro exI [of _ ?s] exI [of _ ?m])
      (simp add: state_of_def started_def initialize_registers_def unat_space_base Let_def)
qed

lemma start_process_first_free_witness:
  "\<exists>s' m'. start_process (lit ''razzle'') 0x200000 demo_sched (\<lambda>_ _. 0) = ok (s', m') \<and> ready s' 0"
proof -
  have "first_on_ring (\<lambda>p. state_of demo_sched p = TASKSTATE_unused) 0 0"
    unfolding first_on_ring_def by (intro exI [of _ 0]) (simp add: demo_state)
  moreover have "cstring (\<lambda>_ _. 0) (lit ''razzle'') (bytes_of ''razzle'')"
    by (intro cstring_lit) (simp_all add: bytes_of_def)
  moreover have "disjoint (Phys, space_base 0) 16 (lit ''razzle'') (Suc (length (bytes_of ''razzle'')))"
    by (simp add: disjoint_def lit_def)
  ultimately show ?thesis using start_process_first_free [OF demo_table] by blast
qed

end
