(* ===== verification/Ps2.thy ===== *)
theory Ps2
  imports Scheduling
begin

text \<open>
  The keyboard: kernel/drivers/ps2/ps2.c.

  \<open>key_code_t\<close> has the enumerators of the source with the prefix \<open>Key\<close>; the number of each is in
  \<open>key_codes\<close>. A byte of the controller that is no enumerator's number is \<open>None\<close>: C's switch then
  takes its default branch. The processes that wait for a key are the list \<open>ps2_waiters\<close>.

  The lemmas: the characters the keyboard can produce, what a key does to the modifiers, and
  \<open>handle_keypress_char_eq\<close>, the exact effect of a character: \<^emph>\<open>every\<close> process that waits gets it and
  becomes ready, and nobody waits any more.
\<close>

section \<open>State\<close>

record ps2_waiter_t =
  alloc :: u8
  waiter_pid :: u32

record kb_state =
  l_shift :: u8
  r_shift :: u8
  l_ctrl :: u8
  r_ctrl :: u8
  caps :: u8

record ps2 =
  ps2_waiters :: "ps2_waiter_t list"
  kstate :: kb_state

datatype key_code_t =
  Key_backtick_tilde | Key_one_bang | Key_two_at | Key_three_crunch | Key_four_dollar
    | Key_five_percent | Key_six_carat | Key_seven_amp | Key_eight_star | Key_nine_lparen
    | Key_zero_rparen | Key_minus_underscore | Key_equal_plus | Key_backspace | Key_tab
    | Key_lbracket_lbrace | Key_rbracket_rbrace | Key_backslash_pipe | Key_caps_lock
    | Key_semicolon_colon | Key_quote_dquote | Key_a | Key_b | Key_c | Key_d | Key_e | Key_f
    | Key_g | Key_h | Key_i | Key_j | Key_k | Key_l | Key_m | Key_n | Key_o | Key_p | Key_q
    | Key_r | Key_s | Key_t | Key_u | Key_v | Key_w | Key_x | Key_y | Key_z | Key_space
    | Key_l_shift | Key_r_shift | Key_period_rarr | Key_enter | Key_comma_larr
    | Key_slash_question

definition key_codes :: "(u8 \<times> key_code_t) list" where
  "key_codes =
    [(1, Key_backtick_tilde), (2, Key_one_bang), (3, Key_two_at), (4, Key_three_crunch),
     (5, Key_four_dollar), (6, Key_five_percent), (7, Key_six_carat), (8, Key_seven_amp),
     (9, Key_eight_star), (10, Key_nine_lparen), (11, Key_zero_rparen),
     (12, Key_minus_underscore), (13, Key_equal_plus), (14, Key_backspace), (15, Key_tab),
     (26, Key_lbracket_lbrace), (27, Key_rbracket_rbrace), (43, Key_backslash_pipe),
     (58, Key_caps_lock), (39, Key_semicolon_colon), (40, Key_quote_dquote), (30, Key_a),
     (48, Key_b), (46, Key_c), (32, Key_d), (18, Key_e), (33, Key_f), (34, Key_g), (35, Key_h),
     (23, Key_i), (36, Key_j), (37, Key_k), (38, Key_l), (50, Key_m), (49, Key_n), (24, Key_o),
     (25, Key_p), (16, Key_q), (19, Key_r), (31, Key_s), (20, Key_t), (22, Key_u), (47, Key_v),
     (17, Key_w), (45, Key_x), (21, Key_y), (44, Key_z), (57, Key_space), (42, Key_l_shift),
     (54, Key_r_shift), (52, Key_period_rarr), (28, Key_enter), (51, Key_comma_larr),
     (53, Key_slash_question)]"

section \<open>Characters\<close>

definition is_shifted :: "kb_state \<Rightarrow> u8" where
  "is_shifted k = caps k OR r_shift k OR l_shift k"

abbreviation ch :: "char \<Rightarrow> u8" where
  "ch c \<equiv> of_char c"

abbreviation shift_char :: "kb_state \<Rightarrow> char \<Rightarrow> char \<Rightarrow> u8" where
  "shift_char k up low \<equiv> (if is_shifted k \<noteq> 0 then ch up else ch low)"

fun keycode_to_char :: "kb_state \<Rightarrow> key_code_t \<Rightarrow> u8" where
  "keycode_to_char k Key_a = shift_char k (CHR ''A'') (CHR ''a'')"
| "keycode_to_char k Key_b = shift_char k (CHR ''B'') (CHR ''b'')"
| "keycode_to_char k Key_c = shift_char k (CHR ''C'') (CHR ''c'')"
| "keycode_to_char k Key_d = shift_char k (CHR ''D'') (CHR ''d'')"
| "keycode_to_char k Key_e = shift_char k (CHR ''E'') (CHR ''e'')"
| "keycode_to_char k Key_f = shift_char k (CHR ''F'') (CHR ''f'')"
| "keycode_to_char k Key_g = shift_char k (CHR ''G'') (CHR ''g'')"
| "keycode_to_char k Key_h = shift_char k (CHR ''H'') (CHR ''h'')"
| "keycode_to_char k Key_i = shift_char k (CHR ''I'') (CHR ''i'')"
| "keycode_to_char k Key_j = shift_char k (CHR ''J'') (CHR ''j'')"
| "keycode_to_char k Key_k = shift_char k (CHR ''K'') (CHR ''k'')"
| "keycode_to_char k Key_l = shift_char k (CHR ''L'') (CHR ''l'')"
| "keycode_to_char k Key_m = shift_char k (CHR ''M'') (CHR ''m'')"
| "keycode_to_char k Key_n = shift_char k (CHR ''N'') (CHR ''n'')"
| "keycode_to_char k Key_o = shift_char k (CHR ''O'') (CHR ''o'')"
| "keycode_to_char k Key_p = shift_char k (CHR ''P'') (CHR ''p'')"
| "keycode_to_char k Key_q = shift_char k (CHR ''Q'') (CHR ''q'')"
| "keycode_to_char k Key_r = shift_char k (CHR ''R'') (CHR ''r'')"
| "keycode_to_char k Key_s = shift_char k (CHR ''S'') (CHR ''s'')"
| "keycode_to_char k Key_t = shift_char k (CHR ''T'') (CHR ''t'')"
| "keycode_to_char k Key_u = shift_char k (CHR ''U'') (CHR ''u'')"
| "keycode_to_char k Key_v = shift_char k (CHR ''V'') (CHR ''v'')"
| "keycode_to_char k Key_w = shift_char k (CHR ''W'') (CHR ''w'')"
| "keycode_to_char k Key_x = shift_char k (CHR ''X'') (CHR ''x'')"
| "keycode_to_char k Key_y = shift_char k (CHR ''Y'') (CHR ''y'')"
| "keycode_to_char k Key_z = shift_char k (CHR ''Z'') (CHR ''z'')"
| "keycode_to_char k Key_space = ch (CHR '' '')"
| "keycode_to_char k Key_comma_larr = shift_char k (CHR ''<'') (CHR '','')"
| "keycode_to_char k Key_period_rarr = shift_char k (CHR ''>'') (CHR ''.'')"
| "keycode_to_char k Key_enter = ch (CHR 0x0A)"
| "keycode_to_char k Key_backspace = ch (CHR 0x08)"
| "keycode_to_char k Key_backtick_tilde = shift_char k (CHR ''~'') (CHR 0x60)"
| "keycode_to_char k Key_one_bang = shift_char k (CHR ''!'') (CHR ''1'')"
| "keycode_to_char k Key_two_at = shift_char k (CHR ''@'') (CHR ''2'')"
| "keycode_to_char k Key_three_crunch = shift_char k (CHR ''#'') (CHR ''3'')"
| "keycode_to_char k Key_four_dollar = shift_char k (CHR ''$'') (CHR ''4'')"
| "keycode_to_char k Key_five_percent = shift_char k (CHR ''%'') (CHR ''5'')"
| "keycode_to_char k Key_six_carat = shift_char k (CHR ''^'') (CHR ''6'')"
| "keycode_to_char k Key_seven_amp = shift_char k (CHR ''&'') (CHR ''7'')"
| "keycode_to_char k Key_eight_star = shift_char k (CHR ''*'') (CHR ''8'')"
| "keycode_to_char k Key_nine_lparen = shift_char k (CHR ''('') (CHR ''9'')"
| "keycode_to_char k Key_zero_rparen = shift_char k (CHR '')'') (CHR ''0'')"
| "keycode_to_char k Key_minus_underscore = shift_char k (CHR ''_'') (CHR ''-'')"
| "keycode_to_char k Key_equal_plus = shift_char k (CHR ''+'') (CHR ''='')"
| "keycode_to_char k Key_tab = ch (CHR 0x09)"
| "keycode_to_char k Key_lbracket_lbrace = shift_char k (CHR ''{'') (CHR ''['')"
| "keycode_to_char k Key_rbracket_rbrace = shift_char k (CHR ''}'') (CHR '']'')"
| "keycode_to_char k Key_semicolon_colon = shift_char k (CHR '':'') (CHR '';'')"
| "keycode_to_char k Key_quote_dquote = shift_char k (CHR 0x22) (CHR 0x27)"
| "keycode_to_char k Key_backslash_pipe = shift_char k (CHR ''|'') (CHR 0x5C)"
| "keycode_to_char k Key_slash_question = shift_char k (CHR ''?'') (CHR ''/'')"
| "keycode_to_char k Key_caps_lock = 0"
| "keycode_to_char k Key_r_shift = 0"
| "keycode_to_char k Key_l_shift = 0"

section \<open>Operations\<close>

definition wt_get :: "ps2_waiter_t list \<Rightarrow> u32 \<Rightarrow> ps2_waiter_t res" where
  "wt_get ws i = (if unat i < length ws then ok (ws ! unat i) else fail Read_oob)"

definition wt_update :: "u32 \<Rightarrow> (ps2_waiter_t \<Rightarrow> ps2_waiter_t) \<Rightarrow> ps2 \<Rightarrow> ps2 res" where
  "wt_update i f d =
     (if unat i < length (ps2_waiters d)
      then ok (d\<lparr>ps2_waiters := (ps2_waiters d)[unat i := f (ps2_waiters d ! unat i)]\<rparr>)
      else fail Write_oob)"

definition init_ps2 :: "ps2 \<Rightarrow> ps2 res" where
  "init_ps2 d = for_range 0 MAX_PROCESSES (\<lambda>i. wt_update (of_nat i) (\<lambda>w. w\<lparr>alloc := 0\<rparr>)) d"

definition handle_keypress_char :: "u8 \<Rightarrow> ps2 \<times> sched \<Rightarrow> (ps2 \<times> sched) res" where
  "handle_keypress_char c x =
     (if c \<noteq> 0
      then for_range 0 MAX_PROCESSES (\<lambda>i (d, s).
             bind_res (wt_get (ps2_waiters d) (of_nat i)) (\<lambda>w.
             if alloc w \<noteq> 0
             then bind_res (pt_update (waiter_pid w)
                    (\<lambda>t. t\<lparr>ts_registers := (ts_registers t)\<lparr>r_eax := scast c\<rparr>\<rparr>) s) (\<lambda>s.
                  bind_res (wt_update (of_nat i) (\<lambda>w. w\<lparr>alloc := 0\<rparr>) d) (\<lambda>d.
                  bind_res (wt_get (ps2_waiters d) (of_nat i)) (\<lambda>w.
                  bind_res (pt_update (waiter_pid w) (\<lambda>t. t\<lparr>ts_state := TASKSTATE_ready\<rparr>) s) (\<lambda>s.
                  ok (d, s)))))
             else ok (d, s))) x
      else ok x)"

definition handle_keypress :: "u8 \<Rightarrow> ps2 \<times> sched \<Rightarrow> (ps2 \<times> sched) res" where
  "handle_keypress char_code x =
     (let (is_down, key) =
        (if char_code AND 0xC0 = 0x80 then (0, char_code AND 0x3F) else (1, char_code));
        (d, s) = x; k = kstate d
      in case map_of key_codes key of
           Some Key_l_shift \<Rightarrow> ok (d\<lparr>kstate := k\<lparr>l_shift := is_down\<rparr>\<rparr>, s)
         | Some Key_r_shift \<Rightarrow> ok (d\<lparr>kstate := k\<lparr>r_shift := is_down\<rparr>\<rparr>, s)
         | Some Key_caps_lock \<Rightarrow>
             (if is_down \<noteq> 0 then ok (d\<lparr>kstate := k\<lparr>caps := (if caps k = 0 then 1 else 0)\<rparr>\<rparr>, s)
              else ok (d, s))
         | None \<Rightarrow> (if is_down \<noteq> 0 then handle_keypress_char 0 (d, s) else ok (d, s))
         | Some key \<Rightarrow>
             (if is_down \<noteq> 0 then handle_keypress_char (keycode_to_char k key) (d, s)
              else ok (d, s)))"

section \<open>The processes that wait\<close>

interpretation waiters: bounded_array ps2_waiters "\<lambda>xs d. d\<lparr>ps2_waiters := xs\<rparr>" wt_update
  by unfold_locales (auto simp: wt_update_def)

definition waiters_ok :: "ps2 \<Rightarrow> bool" where
  "waiters_ok d \<longleftrightarrow> length (ps2_waiters d) = MAX_PROCESSES \<and>
     (\<forall>w \<in> set (ps2_waiters d). alloc w \<noteq> 0 \<longrightarrow> unat (waiter_pid w) < MAX_PROCESSES)"

text \<open>\<open>waits_in n ws p\<close>: one of the first \<open>n\<close> entries is taken by process \<open>p\<close>.\<close>

definition waits_in :: "nat \<Rightarrow> ps2_waiter_t list \<Rightarrow> nat \<Rightarrow> bool" where
  "waits_in n ws p \<longleftrightarrow> (\<exists>w \<in> set (take n ws). alloc w \<noteq> 0 \<and> unat (waiter_pid w) = p)"

abbreviation waits :: "ps2 \<Rightarrow> nat \<Rightarrow> bool" where
  "waits d \<equiv> waits_in (length (ps2_waiters d)) (ps2_waiters d)"

definition wake :: "u8 \<Rightarrow> task_struct \<Rightarrow> task_struct" where
  "wake c t = t\<lparr>ts_registers := (ts_registers t)\<lparr>r_eax := scast c\<rparr>, ts_state := TASKSTATE_ready\<rparr>"

definition wake_all :: "u8 \<Rightarrow> (nat \<Rightarrow> bool) \<Rightarrow> task_struct list \<Rightarrow> task_struct list" where
  "wake_all c W tbl = map (\<lambda>p. if W p then wake c (tbl ! p) else tbl ! p) [0..<length tbl]"

lemma init_ps2_eq:
  "length (ps2_waiters d) = MAX_PROCESSES \<Longrightarrow>
   init_ps2 d = ok (d\<lparr>ps2_waiters := map (\<lambda>w. w\<lparr>alloc := 0\<rparr>) (ps2_waiters d)\<rparr>)"
  by (simp add: init_ps2_def waiters.upd_all)

lemma wake_wake [simp]: "wake c (wake c t) = wake c t"
  by (simp add: wake_def)

lemma length_wake_all [simp]: "length (wake_all c W tbl) = length tbl"
  by (simp add: wake_all_def)

lemma wake_all_nth: "p < length tbl \<Longrightarrow> wake_all c W tbl ! p = (if W p then wake c (tbl ! p) else tbl ! p)"
  by (simp add: wake_all_def)

lemma wake_all_none: "wake_all c (\<lambda>_. False) tbl = tbl"
  by (simp add: wake_all_def map_nth)

lemma wake_all_one:
  assumes "p < length tbl"
  shows "(wake_all c W tbl)[p := wake c (wake_all c W tbl ! p)] = wake_all c (\<lambda>q. W q \<or> q = p) tbl"
  using assms by (auto intro!: nth_equalityI simp: wake_all_nth nth_list_update)

lemma waits_in_Suc:
  "k < length ws \<Longrightarrow> waits_in (Suc k) ws =
     (\<lambda>p. waits_in k ws p \<or> (alloc (ws ! k) \<noteq> 0 \<and> p = unat (waiter_pid (ws ! k))))"
  by (auto simp: waits_in_def take_Suc_conv_app_nth fun_eq_iff)

lemma waits_in_0: "waits_in 0 ws = (\<lambda>_. False)"
  by (simp add: waits_in_def fun_eq_iff)

definition calm :: "ps2_waiter_t \<Rightarrow> ps2_waiter_t" where
  "calm w = w\<lparr>alloc := 0\<rparr>"

lemma calm_free [simp]: "alloc w = 0 \<Longrightarrow> calm w = w"
  by (simp add: calm_def)

lemma handle_keypress_char_eq:
  assumes "table_ok s" and "waiters_ok d" and "c \<noteq> 0"
  shows "handle_keypress_char c (d, s) =
    ok (d\<lparr>ps2_waiters := map calm (ps2_waiters d)\<rparr>,
        s\<lparr>process_table := wake_all c (waits d) (process_table s)\<rparr>)"
proof -
  define ws where "ws = ps2_waiters d"
  define tbl where "tbl = process_table s"
  have len: "length ws = 128" "length tbl = 128"
    using assms by (simp_all add: ws_def tbl_def waiters_ok_def table_ok_def)
  define D where "D i = d\<lparr>ps2_waiters := map calm (take i ws) @ drop i ws\<rparr>" for i
  define S where "S i = s\<lparr>process_table := wake_all c (waits_in i ws) tbl\<rparr>" for i
  let ?body = "\<lambda>i (d, s).
             bind_res (wt_get (ps2_waiters d) (of_nat i)) (\<lambda>w.
             if alloc w \<noteq> 0
             then bind_res (pt_update (waiter_pid w)
                    (\<lambda>t. t\<lparr>ts_registers := (ts_registers t)\<lparr>r_eax := scast c\<rparr>\<rparr>) s) (\<lambda>s.
                  bind_res (wt_update (of_nat i) (\<lambda>w. w\<lparr>alloc := 0\<rparr>) d) (\<lambda>d.
                  bind_res (wt_get (ps2_waiters d) (of_nat i)) (\<lambda>w.
                  bind_res (pt_update (waiter_pid w) (\<lambda>t. t\<lparr>ts_state := TASKSTATE_ready\<rparr>) s) (\<lambda>s.
                  ok (d, s)))))
             else ok (d, s))"
  have "?body i (D i, S i) = ok (D (Suc i), S (Suc i))" if i: "i < 128" for i
  proof -
    have ws_i: "ps2_waiters (D i) ! i = ws ! i" using i len by (simp add: D_def nth_append)
    have D_Suc: "D (Suc i) = d\<lparr>ps2_waiters := (ps2_waiters (D i))[i := calm (ws ! i)]\<rparr>"
      using i len by (simp add: D_def list_update_append take_Suc_conv_app_nth flip: Cons_nth_drop_Suc)
    show ?thesis
    proof (cases "alloc (ws ! i) = 0")
      case True
      then have "S (Suc i) = S i" "D (Suc i) = D i"
        using i len D_Suc ws_i by (simp_all add: S_def waits_in_Suc D_def list_update_append take_Suc_conv_app_nth
            flip: Cons_nth_drop_Suc)
      with True i len ws_i show ?thesis by (simp add: wt_get_def) (simp add: D_def)
    next
      case False
      define p where "p = unat (waiter_pid (ws ! i))"
      have p: "p < 128"
        using False assms(2) i len by (auto simp: p_def waiters_ok_def ws_def)
      have S_Suc: "S (Suc i) = s\<lparr>process_table := (process_table (S i))[p := wake c (process_table (S i) ! p)]\<rparr>"
        using i len p False by (simp add: S_def waits_in_Suc wake_all_one p_def)
      show ?thesis
        using False i len p ws_i
        by (simp add: wt_get_def wt_update_def pt_update_def S_Suc D_Suc flip: p_def)
          (simp add: D_def S_def wake_def calm_def p_def nth_append)
    qed
  qed
  then have "for_range 0 128 ?body (D 0, S 0) = ok (D 128, S 128)"
    by (intro for_range_exact [where F = "\<lambda>i. (D i, S i)"]) simp_all
  moreover have "(D 0, S 0) = (d, s)"
    by (simp add: D_def S_def waits_in_0 wake_all_none ws_def tbl_def)
  ultimately show ?thesis
    using assms(3) len by (simp add: handle_keypress_char_def D_def S_def ws_def tbl_def)
qed

lemma handle_keypress_char_0: "handle_keypress_char 0 x = ok x"
  by (simp add: handle_keypress_char_def)

section \<open>Properties\<close>

text \<open>The keyboard state with every modifier up, and with the left shift key down.\<close>

definition keys_up :: kb_state where
  "keys_up = \<lparr>l_shift = 0, r_shift = 0, l_ctrl = 0, r_ctrl = 0, caps = 0\<rparr>"

definition typeable :: "u8 list" where
  "typeable = concat (map (\<lambda>k. map (\<lambda>s. keycode_to_char s k) [keys_up, keys_up\<lparr>l_shift := 1\<rparr>])
     (map snd key_codes))"

text \<open>
  Every printable ASCII character, from the space to the tilde, is produced by some key with or
  without shift.
\<close>

lemma all_printable_typeable: "set (map of_nat [32..<127]) \<subseteq> set typeable"
proof -
  have shifts: "is_shifted keys_up = 0" "is_shifted (keys_up\<lparr>l_shift := 1\<rparr>) = 1"
    by (simp_all add: is_shifted_def keys_up_def)
  show ?thesis by (simp add: typeable_def key_codes_def shifts upt_rec)
qed

text \<open>
  A character other than 0 is broadcast: every process that waits becomes ready with the
  sign-extended character in \<open>eax\<close>, every other process is unchanged, and nobody waits afterwards;
  the character 0 (a key that has no character) wakes nobody.
\<close>

lemma keypress_broadcast:
  assumes "table_ok s" and "waiters_ok d"
  shows "\<exists>d' s'. handle_keypress_char c (d, s) = ok (d', s') \<and>
    (c = 0 \<longrightarrow> d' = d \<and> s' = s) \<and>
    (c \<noteq> 0 \<longrightarrow> (\<forall>p < MAX_PROCESSES. \<not> waits d' p \<and>
       process_table s' ! p =
         (if waits d p
          then (process_table s ! p)\<lparr>ts_registers := (ts_registers (process_table s ! p))\<lparr>r_eax := scast c\<rparr>,
                                     ts_state := TASKSTATE_ready\<rparr>
          else process_table s ! p)))"
proof (cases "c = 0")
  case True
  then show ?thesis by (simp add: handle_keypress_char_0)
next
  case False
  have "\<not> waits_in n (map calm ws) p" for n ws p
    by (auto simp: waits_in_def calm_def take_map)
  then show ?thesis
    using handle_keypress_char_eq [OF assms False] assms(1) False
    by (auto simp: wake_all_nth wake_def table_ok_def)
qed

definition demo_waiters :: ps2 where
  "demo_waiters = \<lparr>ps2_waiters = (replicate 128 \<lparr>alloc = 0, waiter_pid = 0\<rparr>)[0 := \<lparr>alloc = 1, waiter_pid = 9\<rparr>],
     kstate = keys_up\<rparr>"

lemma keypress_broadcast_witness:
  "\<exists>d' s'. handle_keypress_char 65 (demo_waiters, demo_sched) = ok (d', s') \<and>
    ts_state (process_table s' ! 9) = TASKSTATE_ready \<and> r_eax (ts_registers (process_table s' ! 9)) = 65"
proof -
  have w: "waiters_ok demo_waiters"
    by (auto simp: waiters_ok_def demo_waiters_def all_set_conv_all_nth nth_list_update)
  have "waits demo_waiters 9"
    unfolding waits_in_def demo_waiters_def
    by (intro bexI [of _ "\<lparr>alloc = 1, waiter_pid = 9\<rparr>"]) (auto intro: set_update_memI)
  moreover obtain d' s' where "handle_keypress_char 65 (demo_waiters, demo_sched) = ok (d', s')"
    and "\<forall>p < 128. process_table s' ! p =
         (if waits demo_waiters p
          then (process_table demo_sched ! p)\<lparr>ts_registers := (ts_registers (process_table demo_sched ! p))\<lparr>r_eax := scast (65 :: u8)\<rparr>,
                                     ts_state := TASKSTATE_ready\<rparr>
          else process_table demo_sched ! p)"
    using keypress_broadcast [OF demo_table w, of 65] by auto
  ultimately show ?thesis by (auto dest!: spec [of _ 9])
qed

lemma handle_keypress_char_kstate:
  assumes "handle_keypress_char c x = ok y"
  shows "kstate (fst y) = kstate (fst x)"
proof (cases "c = 0")
  case False
  show ?thesis
  proof (rule for_range_rel [where R = "\<lambda>x y. kstate (fst y) = kstate (fst x)"])
    show "for_range 0 MAX_PROCESSES (\<lambda>i (d, s).
             bind_res (wt_get (ps2_waiters d) (of_nat i)) (\<lambda>w.
             if alloc w \<noteq> 0
             then bind_res (pt_update (waiter_pid w)
                    (\<lambda>t. t\<lparr>ts_registers := (ts_registers t)\<lparr>r_eax := scast c\<rparr>\<rparr>) s) (\<lambda>s.
                  bind_res (wt_update (of_nat i) (\<lambda>w. w\<lparr>alloc := 0\<rparr>) d) (\<lambda>d.
                  bind_res (wt_get (ps2_waiters d) (of_nat i)) (\<lambda>w.
                  bind_res (pt_update (waiter_pid w) (\<lambda>t. t\<lparr>ts_state := TASKSTATE_ready\<rparr>) s) (\<lambda>s.
                  ok (d, s)))))
             else ok (d, s))) x = ok y"
      using assms False by (simp add: handle_keypress_char_def)
  qed (auto simp: bind_res_eq_ok wt_update_def split: if_splits prod.splits)
qed (use assms in \<open>simp add: handle_keypress_char_def\<close>)

lemma small_code:
  fixes code :: u8
  assumes "code < 64"
  shows "code AND 0xC0 = 0" and "(code OR 0x80) AND 0xC0 = 0x80" and "(code OR 0x80) AND 0x3F = code"
proof -
  have m: "code AND 0x3F = code"
    using assms less_mask_eq [of code 6] by (simp add: mask_eq_exp_minus_1)
  then show c: "code AND 0xC0 = 0"
  proof -
    have "code AND 0xC0 = (code AND 0x3F) AND 0xC0" by (simp only: m)
    also have "\<dots> = code AND (0x3F AND 0xC0)" by (simp only: and.assoc)
    finally show ?thesis by simp
  qed
  show "(code OR 0x80) AND 0xC0 = 0x80" using c by (simp add: bit.conj_disj_distrib2)
  show "(code OR 0x80) AND 0x3F = code" using m by (simp add: bit.conj_disj_distrib2)
qed

lemma modifier_codes:
  "map_of key_codes code = Some Key_l_shift \<longleftrightarrow> code = 42"
  "map_of key_codes code = Some Key_r_shift \<longleftrightarrow> code = 54"
  "map_of key_codes code = Some Key_caps_lock \<longleftrightarrow> code = 58"
  by (auto simp: key_codes_def split: if_splits)

text \<open>
  C32: pressing a key and letting it go leaves the modifiers as they were, unless the key is caps
  lock, whose press toggles \<open>caps\<close>, or a shift key that was already down; and the release of a key
  never wakes a process. The release code of a key is its code plus 128.
\<close>

lemma press_release:
  assumes "code < 64" and "handle_keypress code (d, s) = ok (d1, s1)"
  shows "\<exists>d2. handle_keypress (code OR 0x80) (d1, s1) = ok (d2, s1) \<and> ps2_waiters d2 = ps2_waiters d1 \<and>
    kstate d2 =
      (if code = 58 then (kstate d)\<lparr>caps := if caps (kstate d) = 0 then 1 else 0\<rparr>
       else if code = 42 then (kstate d)\<lparr>l_shift := 0\<rparr>
       else if code = 54 then (kstate d)\<lparr>r_shift := 0\<rparr>
       else kstate d)"
proof -
  have z: "(0 :: u8) \<noteq> 0x80" by simp
  note press = assms(2) [unfolded handle_keypress_def small_code(1) [OF assms(1)] if_not_P [OF z] Let_def prod.case]
  note release = handle_keypress_def [of "code OR 0x80",
      unfolded small_code(2,3) [OF assms(1)] if_P [OF refl] Let_def prod.case]
  consider "code = 42" | "code = 54" | "code = 58" | "code \<notin> {42, 54, 58}" by auto
  then show ?thesis
  proof cases
    case 1
    then have k: "map_of key_codes code = Some Key_l_shift" by (simp add: modifier_codes)
    show ?thesis using press 1 unfolding release k option.case key_code_t.case by auto
  next
    case 2
    then have k: "map_of key_codes code = Some Key_r_shift" by (simp add: modifier_codes)
    show ?thesis using press 2 unfolding release k option.case key_code_t.case by auto
  next
    case 3
    then have k: "map_of key_codes code = Some Key_caps_lock" by (simp add: modifier_codes)
    show ?thesis using press 3 unfolding release k option.case key_code_t.case by auto
  next
    case 4
    then have k: "map_of key_codes code \<notin> {Some Key_l_shift, Some Key_r_shift, Some Key_caps_lock}"
      by (simp add: modifier_codes)
    have "\<exists>c. handle_keypress_char c (d, s) = ok (d1, s1)"
    proof (cases "map_of key_codes code")
      case None
      then show ?thesis using press by auto
    next
      case (Some key)
      then show ?thesis using press k by (cases key) auto
    qed
    then have "kstate d1 = kstate d" using handle_keypress_char_kstate by fastforce
    moreover have "handle_keypress (code OR 0x80) (d1, s1) = ok (d1, s1)"
    proof (cases "map_of key_codes code")
      case None
      then show ?thesis unfolding release by simp
    next
      case (Some key)
      then show ?thesis using k unfolding release by (cases key) auto
    qed
    ultimately show ?thesis using 4 by simp
  qed
qed

lemma press_release_witness:
  "\<exists>d1 s1 d2. handle_keypress 42 (demo_waiters, demo_sched) = ok (d1, s1) \<and>
    handle_keypress (42 OR 0x80) (d1, s1) = ok (d2, s1) \<and> kstate d2 = keys_up"
proof -
  have "map_of key_codes 42 = Some Key_l_shift" by (simp add: modifier_codes)
  then obtain d1 s1 where p: "handle_keypress 42 (demo_waiters, demo_sched) = ok (d1, s1)"
    by (simp add: handle_keypress_def)
  then show ?thesis using press_release [OF _ p] by (auto simp: demo_waiters_def keys_up_def)
qed

end
