(* ===== verification/Pci.thy ===== *)
theory Pci
  imports Io
begin

text \<open>
  PCI: kernel/pci/pci.c and kernel/pci/pci.h.

  The file \<open>pci.ids\<close> that the build turns into supp/pci_supp.c is an argument \<open>ids\<close> of the functions
  that search it (\<open>Pci_Ids\<close> has its beginning). A device's name buffers are lists of
  \<open>PCI_MAX_NAMESIZE\<close> bytes; writing past the end of one fails. A \<open>struct pci_device\<close> that the code
  leaves uninitialised has the contents \<open>stale\<close>.
\<close>

abbreviation PCI_NO_VENDOR :: u16 where "PCI_NO_VENDOR \<equiv> 0xFFFF"
abbreviation PCI_MAX_NAMESIZE :: nat where "PCI_MAX_NAMESIZE \<equiv> 128"
abbreviation PCI_MAX_DEVICES :: nat where "PCI_MAX_DEVICES \<equiv> 256"

record pci_device =
  device_id :: u16
  vendor_id :: u16
  device_name :: "u8 list"
  vendor_name :: "u8 list"
  bar :: "u32 list"
  class_code :: u8
  subclass_code :: u8

record pci =
  pci_devices_list :: "pci_device list"
  pci_devices_count :: u32

section \<open>Configuration space\<close>

definition config_address :: "u8 \<Rightarrow> u8 \<Rightarrow> u8 \<Rightarrow> u8 \<Rightarrow> u32" where
  "config_address bus slot function offset =
     push_bit 16 (ucast bus) OR push_bit 11 (ucast slot) OR push_bit 8 (ucast function)
     OR (ucast offset AND 0xFC) OR push_bit 28 8"

definition pci_read_config :: "hw \<Rightarrow> u8 \<Rightarrow> u8 \<Rightarrow> u8 \<Rightarrow> u8 \<Rightarrow> io_trace \<Rightarrow> u16 \<times> io_trace" where
  "pci_read_config hw bus slot function offset log =
     (let log = outl 0xCF8 (config_address bus slot function offset) log;
          (v, log) = inl hw 0xCFC log
      in (ucast (drop_bit (unat (offset AND 2) * 8) v AND 0xFFFF), log))"

section \<open>Names\<close>

datatype PCI_PARSE_STATE =
    PPS_NUM_1 | PPS_NUM_2 | PPS_NUM_3 | PPS_NUM_4 | PPS_SP | PPS_NAME | PPS_NEXTLN | PPS_TAB

datatype PCI_PARSE_SSTATE = PPSS_VENDOR | PPSS_DEVICE

definition ascii_byte_to_num :: "u8 \<Rightarrow> u32" where
  "ascii_byte_to_num c =
     (if sint c \<ge> 48 \<and> sint c \<le> 57 then scast c - 48
      else if sint c \<ge> 65 \<and> sint c \<le> 70 then 10 + (scast c - 65)
      else if sint c \<ge> 97 \<and> sint c \<le> 102 then 10 + (scast c - 97)
      else -1)"

record parse =
  pps :: PCI_PARSE_STATE
  ppss :: PCI_PARSE_SSTATE
  name_pos :: nat
  vendor_buf :: "u8 list"
  device_buf :: "u8 list"

definition set_char :: "u8 list \<Rightarrow> nat \<Rightarrow> u8 \<Rightarrow> u8 list res" where
  "set_char buf j c = (if j < length buf then ok (buf[j := c]) else fail Write_oob)"

definition byte_at :: "u8 list \<Rightarrow> nat \<Rightarrow> u8 res" where
  "byte_at ids i = (if i < length ids then ok (ids ! i) else fail Read_oob)"

text \<open>One round of the loop; \<open>next_byte\<close> is \<open>buf[i + 1]\<close>, \<open>Stop\<close> is the \<open>return\<close> inside the loop.\<close>

definition parse_byte :: "u16 \<Rightarrow> u16 \<Rightarrow> u8 \<Rightarrow> u8 res \<Rightarrow> parse \<Rightarrow> (parse, parse) ctl res" where
  "parse_byte vendor device c next_byte st =
     (if c = 0x0A then
        bind_res
          (if pps st = PPS_NAME \<and> ppss st = PPSS_VENDOR
           then bind_res (set_char (vendor_buf st) (name_pos st) 0) (\<lambda>b.
                ok (st\<lparr>ppss := PPSS_DEVICE, pps := PPS_TAB, vendor_buf := b, name_pos := 0\<rparr>))
           else ok st) (\<lambda>st.
        if pps st = PPS_NAME \<and> ppss st = PPSS_DEVICE
        then bind_res (set_char (device_buf st) (name_pos st) 0) (\<lambda>b. ok (Stop (st\<lparr>device_buf := b\<rparr>)))
        else ok (Next (st\<lparr>pps := (if ppss st = PPSS_VENDOR then PPS_NUM_1 else PPS_TAB)\<rparr>)))
      else if pps st = PPS_NEXTLN then ok (Next st)
      else if c = 0x09 \<and> ppss st = PPSS_VENDOR then ok (Next (st\<lparr>pps := PPS_NEXTLN\<rparr>))
      else if c = 0x09 \<and> ppss st = PPSS_DEVICE then
        ok (Next (st\<lparr>pps := (if pps st = PPS_TAB then PPS_NUM_1 else PPS_NEXTLN)\<rparr>))
      else if c = 0x23 \<and> pps st = PPS_NUM_1 then ok (Next (st\<lparr>pps := PPS_NEXTLN\<rparr>))
      else
        let tablenum = ascii_byte_to_num c;
            vid = (if ppss st = PPSS_VENDOR then ucast vendor else ucast device :: u32)
        in (case pps st of
              PPS_NUM_1 \<Rightarrow> ok (Next (st\<lparr>pps :=
                if drop_bit 12 vid AND 0xF = tablenum then PPS_NUM_2 else PPS_NEXTLN\<rparr>))
            | PPS_NUM_2 \<Rightarrow> ok (Next (st\<lparr>pps :=
                if drop_bit 8 vid AND 0xF = tablenum then PPS_NUM_3 else PPS_NEXTLN\<rparr>))
            | PPS_NUM_3 \<Rightarrow> ok (Next (st\<lparr>pps :=
                if drop_bit 4 vid AND 0xF = tablenum then PPS_NUM_4 else PPS_NEXTLN\<rparr>))
            | PPS_NUM_4 \<Rightarrow> ok (Next (st\<lparr>pps :=
                if vid AND 0xF = tablenum then PPS_SP else PPS_NEXTLN\<rparr>))
            | PPS_SP \<Rightarrow> bind_res next_byte (\<lambda>n.
                ok (Next (st\<lparr>pps := (if n = 0x20 then PPS_SP else PPS_NAME)\<rparr>)))
            | PPS_NAME \<Rightarrow>
                (if ppss st = PPSS_VENDOR
                 then bind_res (set_char (vendor_buf st) (name_pos st) c) (\<lambda>b.
                      ok (Next (st\<lparr>vendor_buf := b, name_pos := name_pos st + 1\<rparr>)))
                 else bind_res (set_char (device_buf st) (name_pos st) c) (\<lambda>b.
                      ok (Next (st\<lparr>device_buf := b, name_pos := name_pos st + 1\<rparr>))))
            | _ \<Rightarrow> ok (Next st)))"

definition pci_get_vendor_dev_name ::
  "u8 list \<Rightarrow> u16 \<Rightarrow> u16 \<Rightarrow> u8 list \<Rightarrow> u8 list \<Rightarrow> (u8 list \<times> u8 list) res" where
  "pci_get_vendor_dev_name ids vendor device vname dname =
     bind_res
       (for_exit 0 (length ids)
         (\<lambda>i st. bind_res (byte_at ids i) (\<lambda>c.
                 parse_byte vendor device c (byte_at ids (i + 1)) st))
         \<lparr>pps = PPS_NUM_1, ppss = PPSS_VENDOR, name_pos = 0, vendor_buf = vname,
          device_buf = dname\<rparr>)
       (\<lambda>r. case r of
          Stop st \<Rightarrow> ok (vendor_buf st, device_buf st)
        | Next st \<Rightarrow> bind_res (set_char (device_buf st) 0 0) (\<lambda>d.
            bind_res (set_char (vendor_buf st) 0 0) (\<lambda>v. ok (v, d))))"

section \<open>Devices\<close>

text \<open>\<open>strncpy\<close> into a name buffer, which is an array of its own.\<close>

definition copy_name :: "string \<Rightarrow> u32 \<Rightarrow> u8 list \<Rightarrow> u8 list res" where
  "copy_name s n buf =
     bind_res (strncpy (lit s) (Local 0 (length buf), 0) n (\<lambda>_ a. buf ! unat a)) (\<lambda>m.
     ok (map (\<lambda>k. peek m (Local 0 (length buf), of_nat k)) [0..<length buf]))"

definition read_bars :: "hw \<Rightarrow> u8 \<Rightarrow> u8 \<Rightarrow> u32 list \<times> io_trace \<Rightarrow> (u32 list \<times> io_trace) res" where
  "read_bars hw bus slot =
     for_range 0 6 (\<lambda>i (bars, log).
       let (hi, log) = pci_read_config hw bus slot 0 (0x12 + of_nat i * 4) log;
           (lo, log) = pci_read_config hw bus slot 0 (0x10 + of_nat i * 4) log
       in if i < length bars
          then ok (bars[i := push_bit 16 (ucast hi) OR ucast lo], log) else fail Write_oob)"

definition pci_get_device ::
  "hw \<Rightarrow> u8 list \<Rightarrow> pci_device \<Rightarrow> u8 \<Rightarrow> u8 \<Rightarrow> io_trace \<Rightarrow> (pci_device \<times> io_trace) res" where
  "pci_get_device hw ids stale bus slot log =
     (let (vid, log) = pci_read_config hw bus slot 0 0 log;
          (did, log) = pci_read_config hw bus slot 0 2 log;
          dev = stale\<lparr>vendor_id := vid, device_id := did\<rparr>
      in bind_res
        (if vendor_id dev \<noteq> PCI_NO_VENDOR
         then bind_res (pci_get_vendor_dev_name ids (vendor_id dev) (device_id dev)
                          (vendor_name dev) (device_name dev)) (\<lambda>(v, d).
              bind_res (read_bars hw bus slot (bar dev, log)) (\<lambda>(bars, log).
              let (class_subclass, log) = pci_read_config hw bus slot 0 4 log
              in ok (dev\<lparr>vendor_name := v, device_name := d, bar := bars,
                         class_code := ucast (class_subclass AND 0xFF),
                         subclass_code := ucast (drop_bit 8 class_subclass AND 0xFF)\<rparr>, log)))
         else ok (dev, log)) (\<lambda>(dev, log).
      bind_res (byte_at (vendor_name dev) 0) (\<lambda>first.
      if first = 0 \<or> vendor_id dev = PCI_NO_VENDOR
      then bind_res (copy_name ''Unknown Vendor'' 15 (vendor_name dev)) (\<lambda>v.
           bind_res (copy_name ''Unknown Device'' 15 (device_name dev)) (\<lambda>d.
           ok (dev\<lparr>vendor_name := v, device_name := d\<rparr>, log)))
      else ok (dev, log))))"

definition add_device :: "pci_device \<Rightarrow> pci \<Rightarrow> pci res" where
  "add_device dev p =
     (if unat (pci_devices_count p) < length (pci_devices_list p)
      then ok (p\<lparr>pci_devices_list := (pci_devices_list p)[unat (pci_devices_count p) := dev],
                 pci_devices_count := pci_devices_count p + 1\<rparr>)
      else fail Write_oob)"

definition pci_probe :: "hw \<Rightarrow> u8 list \<Rightarrow> (u8 \<Rightarrow> u8 \<Rightarrow> pci_device) \<Rightarrow> u8 \<Rightarrow> u8
  \<Rightarrow> pci \<times> machine \<Rightarrow> (pci \<times> machine) res" where
  "pci_probe hw ids stale bus slot x =
     (case x of (p, k) \<Rightarrow>
     bind_res (pci_get_device hw ids (stale bus slot) bus slot (io_log k)) (\<lambda>(dev, log).
     let k = k\<lparr>io_log := log\<rparr>; b = ucast bus; s = ucast slot
     in if vendor_id dev \<noteq> PCI_NO_VENDOR
        then bind_res (add_device dev p) (\<lambda>p.
             bind_res (printf_nolock hw
               (lit ''pci: %d.%d: PCI device found bus %d slot %d vendor %x, device %x (%d %d)\<newline>'')
               [Va_int b, Va_int s, Va_int b, Va_int s, Va_int (ucast (vendor_id dev)),
                Va_int (ucast (device_id dev)), Va_int (ucast (class_code dev)),
                Va_int (ucast (subclass_code dev))] k) (\<lambda>k.
             bind_res (printf_nolock hw (lit ''pci: %d.%d: %s %s\<newline>'')
               [Va_int b, Va_int s, Va_ptr (Const (vendor_name dev), 0),
                Va_ptr (Const (device_name dev), 0)] k) (\<lambda>k.
             ok (p, k))))
        else ok (p, k)))"

definition pci_enumerate_devices :: "hw \<Rightarrow> u8 list \<Rightarrow> (u8 \<Rightarrow> u8 \<Rightarrow> pci_device)
  \<Rightarrow> pci \<times> machine \<Rightarrow> (pci \<times> machine) res" where
  "pci_enumerate_devices hw ids stale =
     for_range 0 256 (\<lambda>bus. for_range 0 256 (\<lambda>slot. pci_probe hw ids stale (of_nat bus) (of_nat slot)))"

section \<open>Properties\<close>

text \<open>
  What a configuration address selects, for any arguments. The slot field has 5 bits and the
  function field 3, but the arguments are not cut: what does not fit spills into the field above, so
  slot 32 + s of bus 0 is slot s of bus 1. The enumeration asks for slots up to 255, and meets a device
  of a bus once for each way of writing its number as a bus and a spill.
\<close>

lemma config_address_fields:
  "drop_bit 31 (config_address bus slot function offset) = 1 \<and>
   drop_bit 16 (config_address bus slot function offset) AND 0xFF = ucast (bus OR drop_bit 5 slot) \<and>
   drop_bit 11 (config_address bus slot function offset) AND 0x1F = ucast ((slot OR drop_bit 3 function) AND 0x1F) \<and>
   drop_bit 8 (config_address bus slot function offset) AND 7 = ucast (function AND 7) \<and>
   config_address bus slot function offset AND 0xFF = ucast (offset AND 0xFC)"
proof -
  let ?a = "config_address bus slot function offset"
  have m: "(0xFF :: u32) = mask 8" "(0x1F :: u32) = mask 5" "(7 :: u32) = mask 3" "(1 :: u32) = mask 1"
    "(8 :: u32) = push_bit 3 1" "(0x1F :: u8) = mask 5" "(7 :: u8) = mask 3"
    "(0xFC :: u32) = push_bit 2 (mask 6)" "(0xFC :: u8) = push_bit 2 (mask 6)"
    by (simp_all add: mask_eq_exp_minus_1)
  have u8: "n < 8" if "bit (w :: u8) n" for w n using bit_imp_le_length [OF that] by simp
  note bits = bit_eq_iff bit_simps config_address_def m
  have "drop_bit 31 ?a = 1" unfolding bits by (auto dest: u8)
  moreover have "drop_bit 16 ?a AND 0xFF = ucast (bus OR drop_bit 5 slot)" unfolding bits by (auto dest: u8)
  moreover have "drop_bit 11 ?a AND 0x1F = ucast ((slot OR drop_bit 3 function) AND 0x1F)" unfolding bits by (auto dest: u8)
  moreover have "drop_bit 8 ?a AND 7 = ucast (function AND 7)" unfolding bits by (auto dest: u8)
  moreover have "?a AND 0xFF = ucast (offset AND 0xFC)" unfolding bits by (auto dest: u8)
  ultimately show ?thesis by blast
qed

end
