(* ===== verification/Syscall.thy ===== *)
theory Syscall
  imports Ps2 Pci
begin

text \<open>
  System calls: kernel/syscall/syscall.c.

  \<open>kernel\<close> is the whole state an interrupt works on. \<open>lspci\<close> and \<open>lsproc\<close> write structures to
  an address the caller gives, without any check; \<open>user_procs\<close> and \<open>user_devs\<close> are the typed views
  of that memory, by the address of each structure. The model keeps them apart from the kernel's own
  arrays, so what it says of these two calls is for callers that pass a buffer of their own.
\<close>

record kernel =
  k_machine :: machine
  k_sched :: sched
  k_ps2 :: ps2
  k_pci :: pci
  user_procs :: "u32 \<Rightarrow> task_struct"
  user_devs :: "u32 \<Rightarrow> pci_device"

datatype syscall_type_d =
    SYSCALL_yield | SYSCALL_getc | SYSCALL_exit | SYSCALL_lspci | SYSCALL_lsproc | SYSCALL_powerctl

definition syscall_numbers :: "(u32 \<times> syscall_type_d) list" where
  "syscall_numbers =
     [(0, SYSCALL_yield), (1, SYSCALL_getc), (2, SYSCALL_exit), (3, SYSCALL_lspci),
      (4, SYSCALL_lsproc), (5, SYSCALL_powerctl)]"

text \<open>\<open>sizeof (struct task_struct)\<close> and \<open>sizeof (struct pci_device)\<close>.\<close>

abbreviation task_size :: u32 where "task_size \<equiv> 96"
abbreviation device_size :: u32 where "device_size \<equiv> 288"

definition syscall_powerctl :: "hw \<Rightarrow> machine \<Rightarrow> machine res" where
  "syscall_powerctl hw k =
     bind_res (printf_nolock hw (lit ''Attempting shutdown using hypervisor-specific methods.'') [] k) (\<lambda>k.
     bind_res (printf_nolock hw (lit ''ACPI is not yet supported.'') [] k) (\<lambda>k.
     ok (k\<lparr>io_log := outw 0xB004 0x2000 (outw 0x600 0x34 (outw 0x4004 0x3400 (outw 0x604 0x2000 (io_log k))))\<rparr>)))"

definition syscall_yield :: "regs \<Rightarrow> sched \<Rightarrow> (regs \<times> sched) res" where
  "syscall_yield r s = schedule r s"

text \<open>The loop of \<open>getc\<close> that takes the first free place in the list of waiting processes.\<close>

definition add_waiter :: "u32 \<Rightarrow> ps2 \<Rightarrow> ps2 res" where
  "add_waiter pid d =
     bind_res
       (for_exit 0 MAX_PROCESSES (\<lambda>i d.
          bind_res (wt_get (ps2_waiters d) (of_nat i)) (\<lambda>w.
          if alloc w = 0
          then bind_res (wt_update (of_nat i) (\<lambda>w. w\<lparr>alloc := 1\<rparr>) d) (\<lambda>d.
               bind_res (wt_update (of_nat i) (\<lambda>w. w\<lparr>waiter_pid := pid\<rparr>) d) (\<lambda>d.
               ok (Stop d)))
          else ok (Next d))) d)
       (\<lambda>r. case r of Stop d \<Rightarrow> ok d | Next d \<Rightarrow> ok d)"

definition syscall_getc :: "regs \<Rightarrow> ps2 \<times> sched \<Rightarrow> (regs \<times> ps2 \<times> sched) res" where
  "syscall_getc r x =
     (case x of (d, s) \<Rightarrow>
      bind_res (pt_update (current_pid s) (\<lambda>t. t\<lparr>ts_state := TASKSTATE_blocked\<rparr>) s) (\<lambda>s.
      bind_res (add_waiter (current_pid s) d) (\<lambda>d.
      bind_res (syscall_yield r s) (\<lambda>(r, s).
      ok (r, d, s)))))"

definition syscall_exit :: "regs \<Rightarrow> sched \<Rightarrow> (regs \<times> sched) res" where
  "syscall_exit r s =
     bind_res (pt_update (current_pid s) (\<lambda>t. t\<lparr>ts_state := TASKSTATE_unused\<rparr>) s) (syscall_yield r)"

definition syscall_lspci :: "regs \<Rightarrow> pci \<Rightarrow> (u32 \<Rightarrow> pci_device) \<Rightarrow> (regs \<times> (u32 \<Rightarrow> pci_device)) res" where
  "syscall_lspci r p devs =
     (let len = (if r_ecx r < pci_devices_count p then r_ecx r else pci_devices_count p);
          devlist = r_ebx r
      in bind_res
        (for_range 0 (unat len) (\<lambda>i devs.
           if i < length (pci_devices_list p)
           then ok (devs(devlist + device_size * of_nat i := pci_devices_list p ! i))
           else fail Read_oob) devs) (\<lambda>devs.
      ok (r\<lparr>r_eax := len\<rparr>, devs)))"

function lsproc_skip :: "task_struct list \<Rightarrow> nat \<Rightarrow> nat res" where
  "lsproc_skip tbl j =
     (if j < MAX_PROCESSES
      then bind_res (pt_get tbl (of_nat j)) (\<lambda>t.
           if ts_state t = TASKSTATE_unused then lsproc_skip tbl (j + 1) else ok j)
      else ok j)"
  by pat_completeness auto
termination by (relation "measure (\<lambda>(tbl, j). MAX_PROCESSES - j)") auto

function lsproc_loop :: "task_struct list \<Rightarrow> u32 \<Rightarrow> u32 \<Rightarrow> nat \<Rightarrow> nat \<Rightarrow> (u32 \<Rightarrow> task_struct)
  \<Rightarrow> (nat \<times> (u32 \<Rightarrow> task_struct)) res" where
  "lsproc_loop tbl proclist len i j procs =
     (if i < unat len
      then bind_res (lsproc_skip tbl j) (\<lambda>j.
           if j = MAX_PROCESSES then ok (i, procs)
           else bind_res (pt_get tbl (of_nat j)) (\<lambda>t.
                lsproc_loop tbl proclist len (i + 1) (j + 1)
                  (procs(proclist + task_size * of_nat i := t))))
      else ok (i, procs))"
  by pat_completeness auto
termination by (relation "measure (\<lambda>(tbl, proclist, len, i, j, procs). unat len - i)") auto

definition syscall_lsproc :: "regs \<Rightarrow> sched \<Rightarrow> (u32 \<Rightarrow> task_struct) \<Rightarrow> (regs \<times> (u32 \<Rightarrow> task_struct)) res" where
  "syscall_lsproc r s procs =
     bind_res (lsproc_loop (process_table s) (r_ebx r) (r_ecx r) 0 0 procs) (\<lambda>(i, procs).
     ok (r\<lparr>r_eax := of_nat i\<rparr>, procs))"

definition syscall :: "hw \<Rightarrow> regs \<Rightarrow> kernel \<Rightarrow> (regs \<times> kernel) res" where
  "syscall hw r k =
     (case map_of syscall_numbers (r_eax r) of
        Some SYSCALL_powerctl \<Rightarrow>
          bind_res (syscall_powerctl hw (k_machine k)) (\<lambda>m. ok (r, k\<lparr>k_machine := m\<rparr>))
      | Some SYSCALL_yield \<Rightarrow>
          bind_res (syscall_yield r (k_sched k)) (\<lambda>(r, s). ok (r, k\<lparr>k_sched := s\<rparr>))
      | Some SYSCALL_getc \<Rightarrow>
          bind_res (syscall_getc r (k_ps2 k, k_sched k)) (\<lambda>(r, d, s). ok (r, k\<lparr>k_ps2 := d, k_sched := s\<rparr>))
      | Some SYSCALL_lspci \<Rightarrow>
          bind_res (syscall_lspci r (k_pci k) (user_devs k)) (\<lambda>(r, devs). ok (r, k\<lparr>user_devs := devs\<rparr>))
      | Some SYSCALL_lsproc \<Rightarrow>
          bind_res (syscall_lsproc r (k_sched k) (user_procs k)) (\<lambda>(r, procs). ok (r, k\<lparr>user_procs := procs\<rparr>))
      | Some SYSCALL_exit \<Rightarrow>
          bind_res (syscall_exit r (k_sched k)) (\<lambda>(r, s). ok (r, k\<lparr>k_sched := s\<rparr>))
      | None \<Rightarrow> ok (r, k))"

end
