(* ===== verification/Irq.thy ===== *)
theory Irq
  imports Syscall Serial
begin

text \<open>
  Hardware interrupts: arch/i386/irq.c, without the vector table (\<open>Descriptors\<close> has it).
  \<open>irq_handler\<close> is what the assembly stubs call, with the registers they pushed.
\<close>

abbreviation IRQCODE_PIT :: u32 where "IRQCODE_PIT \<equiv> 32"
abbreviation IRQCODE_PS2 :: u32 where "IRQCODE_PS2 \<equiv> 33"
abbreviation IRQCODE_COM1 :: u32 where "IRQCODE_COM1 \<equiv> 36"
abbreviation IRQCODE_SYSCALL :: u32 where "IRQCODE_SYSCALL \<equiv> 128"

definition kb_handler :: "hw \<Rightarrow> kernel \<Rightarrow> kernel res" where
  "kb_handler hw k =
     (case inb hw 0x60 (io_log (k_machine k)) of (char_code, log) \<Rightarrow>
      bind_res (handle_keypress char_code (k_ps2 k, k_sched k)) (\<lambda>(d, s).
      ok (k\<lparr>k_machine := (k_machine k)\<lparr>io_log := log\<rparr>, k_ps2 := d, k_sched := s\<rparr>)))"

definition com1_handler :: "hw \<Rightarrow> kernel \<Rightarrow> kernel res" where
  "com1_handler hw k =
     bind_res (serial_rx hw (io_log (k_machine k))) (\<lambda>(c, log).
     let c = (if c = 0x0D then 0x0A else c);
         c = (if c = 127 then 0x08 else c)
     in bind_res (handle_keypress_char c (k_ps2 k, k_sched k)) (\<lambda>(d, s).
        ok (k\<lparr>k_machine := (k_machine k)\<lparr>io_log := log\<rparr>, k_ps2 := d, k_sched := s\<rparr>)))"

definition remap_irq :: "io_trace \<Rightarrow> io_trace" where
  "remap_irq log =
     outb 0xA1 0 (outb 0x21 0 (outb 0xA1 1 (outb 0x21 1 (outb 0xA1 2 (outb 0x21 4
    (outb 0xA1 0x28 (outb 0x21 0x20 (outb 0xA0 0x11 (outb 0x20 0x11 log)))))))))"

definition send_eoi :: "u32 \<Rightarrow> io_trace \<Rightarrow> io_trace" where
  "send_eoi int_no log =
     outb 0x20 0x20 (if int_no \<ge> 40 \<and> int_no < 48 then outb 0xA0 0x20 log else log)"

definition irq_handler :: "hw \<Rightarrow> regs \<Rightarrow> kernel \<Rightarrow> (regs \<times> kernel) res" where
  "irq_handler hw r k =
     bind_res
       (if r_int_no r = IRQCODE_SYSCALL then syscall hw r k
        else if r_int_no r = IRQCODE_PIT
             then bind_res (schedule r (k_sched k)) (\<lambda>(r, s). ok (r, k\<lparr>k_sched := s\<rparr>))
        else if r_int_no r = IRQCODE_PS2
             then bind_res (kb_handler hw k) (\<lambda>k. ok (r, k))
        else if r_int_no r = IRQCODE_COM1
             then bind_res (com1_handler hw k) (\<lambda>k. ok (r, k))
        else ok (r, k)) (\<lambda>(r, k).
     ok (r, k\<lparr>k_machine := (k_machine k)\<lparr>io_log := send_eoi (r_int_no r) (io_log (k_machine k))\<rparr>\<rparr>))"

end
