(* ===== verification/Descriptors.thy ===== *)
theory Descriptors
  imports Irq
begin

text \<open>
  The tables the processor reads: arch/i386/gdt.c, arch/i386/idt.c, \<open>init_irq\<close> of arch/i386/irq.c and
  arch/i386/init.c. \<open>tables\<close> is their state: the segment descriptors, the task state segment and the
  interrupt gates. The addresses the linker chooses (of the tables, of the local variable used as
  kernel stack, of the assembly stubs) are the record \<open>link\<close>. The instructions that load the tables
  are events of the port history.

  \<open>row_base\<close>, \<open>row_limit\<close>, \<open>gate_base\<close> read a row as the processor does, so that the writing
  functions are proved to be inverse to the reading ones.
\<close>

section \<open>Segments\<close>

record gdt_row_t =
  limit_low :: u16
  base_low :: u16
  base_middle :: u8
  gdt_access :: u8
  granularity_limit_high :: u8
  base_high :: u8

record tss_row_t =
  prev_tss :: u32
  esp_ring0 :: u32
  ss_ring0 :: u32
  tss_padding :: "u32 list"

record idt_row_t =
  base_lo :: u16
  idt_sel :: u16
  idt_unset :: u8
  idt_flags :: u8
  base_hi :: u16

record tables =
  gdt :: "gdt_row_t list"
  tss_entry :: tss_row_t
  idt :: "idt_row_t list"
  t_log :: io_trace

record link =
  gdt_addr :: u32
  tss_addr :: u32
  kstack_addr :: u32
  idt_addr :: u32
  isr_stub :: "nat \<Rightarrow> u32"
  irq_stub :: "nat \<Rightarrow> u32"

text \<open>\<open>enum gdt_access_t\<close> and \<open>enum gdt_granularity_t\<close>.\<close>

abbreviation GDT_ACCESS_PRESENT :: u8 where "GDT_ACCESS_PRESENT \<equiv> 0x80"
abbreviation GDT_ACCESS_DPL_KERNEL :: u8 where "GDT_ACCESS_DPL_KERNEL \<equiv> 0"
abbreviation GDT_ACCESS_DPL_USER :: u8 where "GDT_ACCESS_DPL_USER \<equiv> 0x60"
abbreviation GDT_ACCESS_CODEDATA :: u8 where "GDT_ACCESS_CODEDATA \<equiv> 0x10"
abbreviation GDT_ACCESS_EXECUTABLE :: u8 where "GDT_ACCESS_EXECUTABLE \<equiv> 0x08"
abbreviation GDT_ACCESS_RW :: u8 where "GDT_ACCESS_RW \<equiv> 0x02"
abbreviation GDT_ACCESS_ACCESSED :: u8 where "GDT_ACCESS_ACCESSED \<equiv> 0x01"
abbreviation GDT_GRANULARITY_4K :: u8 where "GDT_GRANULARITY_4K \<equiv> 0x8F"
abbreviation GDT_GRANULARITY_MODE_32BIT :: u8 where "GDT_GRANULARITY_MODE_32BIT \<equiv> 0x4F"

abbreviation GDT_SIZE :: nat where "GDT_SIZE \<equiv> 6"
abbreviation KERNEL_CODE_SEL :: u16 where "KERNEL_CODE_SEL \<equiv> 0x08"

definition gdt_put :: "u32 \<Rightarrow> (gdt_row_t \<Rightarrow> gdt_row_t) \<Rightarrow> tables \<Rightarrow> tables res" where
  "gdt_put num f t =
     (if unat num < length (gdt t)
      then ok (t\<lparr>gdt := (gdt t)[unat num := f (gdt t ! unat num)]\<rparr>) else fail Write_oob)"

definition set_gdt_row :: "u32 \<Rightarrow> u32 \<Rightarrow> u32 \<Rightarrow> u8 \<Rightarrow> u8 \<Rightarrow> tables \<Rightarrow> tables res" where
  "set_gdt_row num base limit access granularity t =
     bind_res (gdt_put num (\<lambda>r. r\<lparr>base_low := ucast (base AND 0xFFFF)\<rparr>) t) (\<lambda>t.
     bind_res (gdt_put num (\<lambda>r. r\<lparr>base_middle := ucast (drop_bit 16 base AND 0xFF)\<rparr>) t) (\<lambda>t.
     bind_res (gdt_put num (\<lambda>r. r\<lparr>base_high := ucast (drop_bit 24 base AND 0xFF)\<rparr>) t) (\<lambda>t.
     bind_res (gdt_put num (\<lambda>r. r\<lparr>limit_low := ucast (limit AND 0xFFFF)\<rparr>) t) (\<lambda>t.
     bind_res (gdt_put num (\<lambda>r. r\<lparr>granularity_limit_high := ucast (drop_bit 16 limit AND 0x0F)\<rparr>) t) (\<lambda>t.
     bind_res (gdt_put num (\<lambda>r. r\<lparr>granularity_limit_high :=
       granularity_limit_high r OR (granularity AND 0xF0)\<rparr>) t) (\<lambda>t.
     gdt_put num (\<lambda>r. r\<lparr>gdt_access := access\<rparr>) t))))))"

text \<open>\<open>lgdt\<close> and \<open>ltr\<close>; the latter takes a selector, eight times the number of the row.\<close>

definition load_gdt :: "u16 \<Rightarrow> u32 \<Rightarrow> tables \<Rightarrow> tables" where
  "load_gdt sz address t = t\<lparr>t_log := Lgdt sz address # t_log t\<rparr>"

definition load_tss :: "u16 \<Rightarrow> tables \<Rightarrow> tables" where
  "load_tss gdt_row_num t = t\<lparr>t_log := Ltr (gdt_row_num * 8) # t_log t\<rparr>"

definition init_gdt :: "link \<Rightarrow> tables \<Rightarrow> tables res" where
  "init_gdt l t =
     bind_res (set_gdt_row 0 0 0 0 0 t) (\<lambda>t.
     bind_res (set_gdt_row 1 0 0xFFFFFFFF
       (GDT_ACCESS_PRESENT OR GDT_ACCESS_DPL_KERNEL OR GDT_ACCESS_CODEDATA OR
        GDT_ACCESS_EXECUTABLE OR GDT_ACCESS_RW OR GDT_ACCESS_ACCESSED)
       (GDT_GRANULARITY_4K OR GDT_GRANULARITY_MODE_32BIT) t) (\<lambda>t.
     bind_res (set_gdt_row 2 0 0xFFFFFFFF
       (GDT_ACCESS_PRESENT OR GDT_ACCESS_DPL_KERNEL OR GDT_ACCESS_CODEDATA OR
        GDT_ACCESS_RW OR GDT_ACCESS_ACCESSED)
       (GDT_GRANULARITY_4K OR GDT_GRANULARITY_MODE_32BIT) t) (\<lambda>t.
     bind_res (set_gdt_row 3 0 0xFFFFFFFF
       (GDT_ACCESS_PRESENT OR GDT_ACCESS_DPL_USER OR GDT_ACCESS_CODEDATA OR
        GDT_ACCESS_EXECUTABLE OR GDT_ACCESS_RW OR GDT_ACCESS_ACCESSED)
       (GDT_GRANULARITY_4K OR GDT_GRANULARITY_MODE_32BIT) t) (\<lambda>t.
     bind_res (set_gdt_row 4 0 0xFFFFFFFF
       (GDT_ACCESS_PRESENT OR GDT_ACCESS_DPL_USER OR GDT_ACCESS_CODEDATA OR
        GDT_ACCESS_RW OR GDT_ACCESS_ACCESSED)
       (GDT_GRANULARITY_4K OR GDT_GRANULARITY_MODE_32BIT) t) (\<lambda>t.
     bind_res (set_gdt_row 5 (tss_addr l) 104
       (GDT_ACCESS_PRESENT OR GDT_ACCESS_EXECUTABLE OR GDT_ACCESS_ACCESSED)
       (GDT_GRANULARITY_4K OR GDT_GRANULARITY_MODE_32BIT) t) (\<lambda>t.
     let t = t\<lparr>tss_entry := \<lparr>prev_tss = 0, esp_ring0 = 0, ss_ring0 = 0, tss_padding = replicate 23 0\<rparr>\<rparr>;
         t = t\<lparr>tss_entry := (tss_entry t)\<lparr>ss_ring0 := 0x10\<rparr>\<rparr>;
         t = t\<lparr>tss_entry := (tss_entry t)\<lparr>esp_ring0 := kstack_addr l\<rparr>\<rparr>
     in ok (load_tss 5 (load_gdt (8 * of_nat GDT_SIZE - 1) (gdt_addr l) t))))))))"

section \<open>Gates\<close>

text \<open>\<open>enum idt_flag_t\<close> and the two combinations in use.\<close>

abbreviation IDTFLAG_PRESENT :: u8 where "IDTFLAG_PRESENT \<equiv> 0x80"
abbreviation IDTFLAG_DPL_KERNEL :: u8 where "IDTFLAG_DPL_KERNEL \<equiv> 0"
abbreviation IDTFLAG_DPL_USER :: u8 where "IDTFLAG_DPL_USER \<equiv> 0x60"
abbreviation IDTFLAG_INTERRUPT :: u8 where "IDTFLAG_INTERRUPT \<equiv> 0x0E"

definition KERNEL_INTERRUPT_FLAG :: u8 where
  "KERNEL_INTERRUPT_FLAG = IDTFLAG_PRESENT OR IDTFLAG_DPL_KERNEL OR IDTFLAG_INTERRUPT"

definition USER_TRAP_FLAG :: u8 where
  "USER_TRAP_FLAG = IDTFLAG_PRESENT OR IDTFLAG_DPL_USER OR IDTFLAG_INTERRUPT"

abbreviation IDT_SIZE :: nat where "IDT_SIZE \<equiv> 256"

definition load_idt :: "u16 \<Rightarrow> u32 \<Rightarrow> tables \<Rightarrow> tables" where
  "load_idt sz address t = t\<lparr>t_log := Lidt sz address # t_log t\<rparr>"

definition set_idt_row :: "u8 \<Rightarrow> u32 \<Rightarrow> u16 \<Rightarrow> u8 \<Rightarrow> tables \<Rightarrow> tables res" where
  "set_idt_row num base sel flags t =
     (if unat num < length (idt t)
      then ok (t\<lparr>idt := (idt t)[unat num := (idt t ! unat num)
        \<lparr>base_hi := ucast (drop_bit 16 base AND 0xFFFF), base_lo := ucast (base AND 0xFFFF),
         idt_sel := sel, idt_flags := flags, idt_unset := 0\<rparr>]\<rparr>)
      else fail Write_oob)"

definition zero_gate :: idt_row_t where
  "zero_gate = \<lparr>base_lo = 0, idt_sel = 0, idt_unset = 0, idt_flags = 0, base_hi = 0\<rparr>"

text \<open>The 32 calls for \<open>isr0\<close> to \<open>isr31\<close>, one after the other.\<close>

definition init_idt :: "link \<Rightarrow> tables \<Rightarrow> tables res" where
  "init_idt l t =
     bind_res (fold_res (\<lambda>n. set_idt_row (of_nat n) (isr_stub l n) KERNEL_CODE_SEL KERNEL_INTERRUPT_FLAG)
       [0..<32] (t\<lparr>idt := replicate IDT_SIZE zero_gate\<rparr>)) (\<lambda>t.
     ok (load_idt (8 * of_nat IDT_SIZE - 1) (idt_addr l) t))"

text \<open>\<open>irq0\<close> to \<open>irq15\<close> in rows 32 to 47, and \<open>irq128\<close>.\<close>

definition init_irq :: "link \<Rightarrow> tables \<Rightarrow> tables res" where
  "init_irq l t =
     bind_res (fold_res (\<lambda>n. set_idt_row (of_nat n) (irq_stub l (n - 32)) KERNEL_CODE_SEL KERNEL_INTERRUPT_FLAG)
       [32..<48] (t\<lparr>t_log := remap_irq (t_log t)\<rparr>)) (\<lambda>t.
     set_idt_row 128 (irq_stub l 128) KERNEL_CODE_SEL USER_TRAP_FLAG t)"

definition arch_init :: "link \<Rightarrow> tables \<Rightarrow> tables res" where
  "arch_init l t =
     bind_res (init_gdt l t) (\<lambda>t. bind_res (init_idt l t) (init_irq l))"

section \<open>Reading a row\<close>

definition row_base :: "gdt_row_t \<Rightarrow> u32" where
  "row_base r = ucast (base_low r) OR push_bit 16 (ucast (base_middle r)) OR push_bit 24 (ucast (base_high r))"

definition row_limit :: "gdt_row_t \<Rightarrow> u32" where
  "row_limit r = ucast (limit_low r) OR push_bit 16 (ucast (granularity_limit_high r AND 0x0F))"

text \<open>The last byte of the segment: with bit 7 of the flags, the limit counts pages of 4 KiB.\<close>

definition row_last :: "gdt_row_t \<Rightarrow> u32" where
  "row_last r = (if bit (granularity_limit_high r) 7 then push_bit 12 (row_limit r) OR 0xFFF else row_limit r)"

definition row_dpl :: "gdt_row_t \<Rightarrow> u8" where
  "row_dpl r = drop_bit 5 (gdt_access r) AND 3"

definition gate_base :: "idt_row_t \<Rightarrow> u32" where
  "gate_base r = ucast (base_lo r) OR push_bit 16 (ucast (base_hi r))"

definition gate_dpl :: "idt_row_t \<Rightarrow> u8" where
  "gate_dpl r = drop_bit 5 (idt_flags r) AND 3"

definition gate_present :: "idt_row_t \<Rightarrow> bool" where
  "gate_present r \<longleftrightarrow> bit (idt_flags r) 7"

definition gdt_row :: "u32 \<Rightarrow> u32 \<Rightarrow> u8 \<Rightarrow> u8 \<Rightarrow> gdt_row_t" where
  "gdt_row base limit access granularity =
     \<lparr>limit_low = ucast (limit AND 0xFFFF), base_low = ucast (base AND 0xFFFF),
      base_middle = ucast (drop_bit 16 base AND 0xFF), gdt_access = access,
      granularity_limit_high = ucast (drop_bit 16 limit AND 0x0F) OR (granularity AND 0xF0),
      base_high = ucast (drop_bit 24 base AND 0xFF)\<rparr>"

lemma set_gdt_row_eq:
  "set_gdt_row num base limit access granularity t =
     (if unat num < length (gdt t)
      then ok (t\<lparr>gdt := (gdt t)[unat num := gdt_row base limit access granularity]\<rparr>) else fail Write_oob)"
  by (cases "gdt t ! unat num") (simp add: set_gdt_row_def gdt_put_def gdt_row_def)

lemma row_fields:
  "row_base (gdt_row base limit access granularity) = base"
  "row_limit (gdt_row base limit access granularity) = limit AND 0xFFFFF"
  "granularity_limit_high (gdt_row base limit access granularity) AND 0xF0 = granularity AND 0xF0"
proof -
  have m: "(0xFFFF :: u32) = mask 16" "(0xFF :: u32) = mask 8" "(0x0F :: u32) = mask 4" "(0x0F :: u8) = mask 4"
    "(0xFFFFF :: u32) = mask 20" "(0xF0 :: u8) = push_bit 4 (mask 4)"
    by (simp_all add: mask_eq_exp_minus_1)
  note bits = bit_eq_iff bit_simps gdt_row_def row_base_def row_limit_def m
  have top: "n - 16 < 8" if "bit base n" "\<not> bit base (24 + (n - 24))" for n
    using that by (cases "n < 24") auto
  show "row_base (gdt_row base limit access granularity) = base"
    unfolding bits by (auto simp: gdt_row_t.simps bit_simps intro: top)
  show "row_limit (gdt_row base limit access granularity) = limit AND 0xFFFFF"
    unfolding bits by (auto simp: gdt_row_t.simps bit_simps)
  show "granularity_limit_high (gdt_row base limit access granularity) AND 0xF0 = granularity AND 0xF0"
    unfolding bits by (auto simp: gdt_row_t.simps bit_simps)
qed

lemma gate_fields:
  "gate_base \<lparr>base_lo = ucast (base AND 0xFFFF), idt_sel = sel, idt_unset = x, idt_flags = flags,
     base_hi = ucast (drop_bit 16 base AND 0xFFFF)\<rparr> = base"
proof -
  have "(0xFFFF :: u32) = mask 16" by (simp add: mask_eq_exp_minus_1)
  then show ?thesis by (auto simp: bit_eq_iff bit_simps gate_base_def)
qed

section \<open>The tables after initialisation\<close>

definition gate :: "u32 \<Rightarrow> u8 \<Rightarrow> idt_row_t" where
  "gate base flags = \<lparr>base_lo = ucast (base AND 0xFFFF), idt_sel = KERNEL_CODE_SEL, idt_unset = 0,
     idt_flags = flags, base_hi = ucast (drop_bit 16 base AND 0xFFFF)\<rparr>"

lemma set_idt_row_eq:
  "unat num < length (idt t) \<Longrightarrow> set_idt_row num base KERNEL_CODE_SEL flags t =
     ok (t\<lparr>idt := (idt t)[unat num := gate base flags]\<rparr>)"
  by (cases "idt t ! unat num") (simp add: set_idt_row_def gate_def)

lemma set_idt_rows:
  assumes "length (idt t) = IDT_SIZE" and "lo \<le> hi" and "hi \<le> IDT_SIZE"
  shows "\<exists>rows. fold_res (\<lambda>n. set_idt_row (of_nat n) (f n) KERNEL_CODE_SEL flags) [lo..<hi] t = ok (t\<lparr>idt := rows\<rparr>)
    \<and> length rows = IDT_SIZE
    \<and> (\<forall>v < IDT_SIZE. rows ! v = (if lo \<le> v \<and> v < hi then gate (f v) flags else idt t ! v))"
proof -
  let ?body = "\<lambda>n. set_idt_row (of_nat n) (f n) KERNEL_CODE_SEL flags"
  let ?P = "\<lambda>i t'. \<exists>rows. t' = t\<lparr>idt := rows\<rparr> \<and> length rows = IDT_SIZE \<and>
    (\<forall>v < IDT_SIZE. rows ! v = (if lo \<le> v \<and> v < i then gate (f v) flags else idt t ! v))"
  have "\<exists>t'. for_range lo hi ?body t = ok t' \<and> ?P hi t'"
  proof (rule for_range_inv)
    show "?P lo t" using assms(1) by (intro exI [of _ "idt t"]) auto
  next
    fix i t' assume i: "lo \<le> i" "i < hi" and "?P i t'"
    then obtain rows where rows: "t' = t\<lparr>idt := rows\<rparr>" "length rows = IDT_SIZE"
        "\<forall>v < IDT_SIZE. rows ! v = (if lo \<le> v \<and> v < i then gate (f v) flags else idt t ! v)"
      by blast
    have "unat (of_nat i :: u8) = i" using i(2) assms(3) by (simp add: unat_of_nat take_bit_nat_eq_self)
    then have "?body i t' = ok (t\<lparr>idt := rows[i := gate (f i) flags]\<rparr>)"
      using rows(1,2) i(2) assms(3) by (simp add: set_idt_row_eq)
    moreover have "?P (Suc i) (t\<lparr>idt := rows[i := gate (f i) flags]\<rparr>)"
      using rows(2,3) i by (intro exI [of _ "rows[i := gate (f i) flags]"]) (auto simp: nth_list_update less_Suc_eq)
    ultimately show "\<exists>t''. ?body i t' = ok t'' \<and> ?P (Suc i) t''" by blast
  qed (rule assms(2))
  then show ?thesis unfolding for_range_def by auto
qed

lemma init_gdt_eq:
  assumes "length (gdt t) = GDT_SIZE"
  shows "init_gdt l t = ok (t\<lparr>gdt :=
      [gdt_row 0 0 0 0, gdt_row 0 0xFFFFFFFF 0x9B 0xCF, gdt_row 0 0xFFFFFFFF 0x93 0xCF,
       gdt_row 0 0xFFFFFFFF 0xFB 0xCF, gdt_row 0 0xFFFFFFFF 0xF3 0xCF,
       gdt_row (tss_addr l) 104 0x89 0xCF],
      tss_entry := \<lparr>prev_tss = 0, esp_ring0 = kstack_addr l, ss_ring0 = 0x10, tss_padding = replicate 23 0\<rparr>,
      t_log := Ltr 40 # Lgdt 47 (gdt_addr l) # t_log t\<rparr>)"
proof -
  obtain a b c d e f where "gdt t = [a, b, c, d, e, f]"
    using assms by (auto simp: eval_nat_numeral length_Suc_conv)
  then show ?thesis
    by (simp add: init_gdt_def set_gdt_row_eq load_gdt_def load_tss_def Let_def)
qed

definition gate_of :: "link \<Rightarrow> nat \<Rightarrow> idt_row_t" where
  "gate_of l v =
     (if v < 32 then gate (isr_stub l v) KERNEL_INTERRUPT_FLAG
      else if v < 48 then gate (irq_stub l (v - 32)) KERNEL_INTERRUPT_FLAG
      else if v = 128 then gate (irq_stub l 128) USER_TRAP_FLAG else zero_gate)"

lemma arch_init_eq:
  assumes "length (gdt t) = GDT_SIZE"
  shows "\<exists>t1 t'. init_gdt l t = ok t1 \<and> arch_init l t = ok t' \<and> gdt t' = gdt t1 \<and> tss_entry t' = tss_entry t1 \<and>
    length (idt t') = IDT_SIZE \<and> (\<forall>v < IDT_SIZE. idt t' ! v = gate_of l v) \<and>
    t_log t' = remap_irq (Lidt 2047 (idt_addr l) # t_log t1)"
proof -
  obtain t1 where t1: "init_gdt l t = ok t1" using init_gdt_eq [OF assms] by blast
  let ?t0 = "t1\<lparr>idt := replicate IDT_SIZE zero_gate\<rparr>"
  obtain r2 where r2: "fold_res (\<lambda>n. set_idt_row (of_nat n) (isr_stub l n) KERNEL_CODE_SEL KERNEL_INTERRUPT_FLAG)
      [0..<32] ?t0 = ok (?t0\<lparr>idt := r2\<rparr>)" "length r2 = IDT_SIZE"
      "\<forall>v < IDT_SIZE. r2 ! v = (if v < 32 then gate (isr_stub l v) KERNEL_INTERRUPT_FLAG else zero_gate)"
    using set_idt_rows [of ?t0 0 32 "isr_stub l" KERNEL_INTERRUPT_FLAG] by auto
  let ?t2 = "t1\<lparr>idt := r2, t_log := remap_irq (Lidt 2047 (idt_addr l) # t_log t1)\<rparr>"
  obtain r3 where r3: "fold_res (\<lambda>n. set_idt_row (of_nat n) (irq_stub l (n - 32)) KERNEL_CODE_SEL KERNEL_INTERRUPT_FLAG)
      [32..<48] ?t2 = ok (?t2\<lparr>idt := r3\<rparr>)" "length r3 = IDT_SIZE"
      "\<forall>v < IDT_SIZE. r3 ! v =
        (if 32 \<le> v \<and> v < 48 then gate (irq_stub l (v - 32)) KERNEL_INTERRUPT_FLAG else r2 ! v)"
    using set_idt_rows [of ?t2 32 48 "\<lambda>n. irq_stub l (n - 32)" KERNEL_INTERRUPT_FLAG] r2(2) by auto
  have idt: "init_idt l t1 = ok (t1\<lparr>idt := r2, t_log := Lidt 2047 (idt_addr l) # t_log t1\<rparr>)"
    using r2(1) by (simp add: init_idt_def load_idt_def)
  have irq: "init_irq l (t1\<lparr>idt := r2, t_log := Lidt 2047 (idt_addr l) # t_log t1\<rparr>) =
      ok (?t2\<lparr>idt := r3[128 := gate (irq_stub l 128) USER_TRAP_FLAG]\<rparr>)"
    using r3(1,2) by (simp add: init_irq_def set_idt_row_eq)
  have "arch_init l t = ok (?t2\<lparr>idt := r3[128 := gate (irq_stub l 128) USER_TRAP_FLAG]\<rparr>)"
    by (simp add: arch_init_def t1 idt irq)
  moreover have "r3[128 := gate (irq_stub l 128) USER_TRAP_FLAG] ! v = gate_of l v" if "v < IDT_SIZE" for v
    using that r2(3) r3(2,3) by (auto simp: gate_of_def nth_list_update)
  ultimately show ?thesis using t1 r3(2) by auto
qed

section \<open>Properties\<close>

text \<open>
  Writing a segment row and reading it back as the processor does gives the base in all its 32
  bits, the low 20 bits of the limit and the upper half of the flags; the other rows stay as they
  are, and a row number beyond the table is an access out of bounds.
\<close>

lemma gdt_row_roundtrip:
  "set_gdt_row num base limit access granularity t =
     (if unat num < length (gdt t)
      then ok (t\<lparr>gdt := (gdt t)[unat num := gdt_row base limit access granularity]\<rparr>) else fail Write_oob) \<and>
   row_base (gdt_row base limit access granularity) = base \<and>
   row_limit (gdt_row base limit access granularity) = limit AND 0xFFFFF \<and>
   granularity_limit_high (gdt_row base limit access granularity) AND 0xF0 = granularity AND 0xF0 \<and>
   gdt_access (gdt_row base limit access granularity) = access"
  using set_gdt_row_eq [of num base limit access granularity t] row_fields [of base limit access granularity]
  by (simp add: gdt_row_def)

text \<open>
  C24: after \<open>arch_init\<close> exactly the vectors 0 to 47 and 128 have a gate; each leads, through the kernel's
  code segment, to the stub of its number (the hardware interrupts to the stubs 0 to 15), and the system
  call is the only gate a process can use itself. The controllers are remapped after the table is
  loaded, with the offsets 32 and 40.
\<close>

lemma interrupt_vectors:
  assumes "length (gdt t) = GDT_SIZE"
  shows "\<exists>t'. arch_init l t = ok t' \<and> length (idt t') = 256 \<and>
    (\<forall>v < 256. gate_present (idt t' ! v) \<longleftrightarrow> v < 48 \<or> v = 128) \<and>
    (\<forall>v < 256. gate_present (idt t' ! v) \<longrightarrow> idt_sel (idt t' ! v) = KERNEL_CODE_SEL \<and>
       gate_dpl (idt t' ! v) = (if v = 128 then 3 else 0) \<and>
       gate_base (idt t' ! v) = (if v < 32 then isr_stub l v else if v < 48 then irq_stub l (v - 32) else irq_stub l 128)) \<and>
    take 12 (t_log t') = [Outb 0xA1 0, Outb 0x21 0, Outb 0xA1 1, Outb 0x21 1, Outb 0xA1 2, Outb 0x21 4,
      Outb 0xA1 40, Outb 0x21 32, Outb 0xA0 0x11, Outb 0x20 0x11, Lidt 2047 (idt_addr l), Ltr 40]"
proof -
  obtain t1 t' where t: "init_gdt l t = ok t1" "arch_init l t = ok t'" "length (idt t') = 256"
      "\<forall>v < 256. idt t' ! v = gate_of l v" "t_log t' = remap_irq (Lidt 2047 (idt_addr l) # t_log t1)"
    using arch_init_eq [OF assms, of l] by blast
  have log: "t_log t1 = Ltr 40 # Lgdt 47 (gdt_addr l) # t_log t"
    using t(1) init_gdt_eq [OF assms, of l] by auto
  have flags: "bit KERNEL_INTERRUPT_FLAG 7" "bit USER_TRAP_FLAG 7" "drop_bit 5 KERNEL_INTERRUPT_FLAG AND 3 = 0"
    "drop_bit 5 USER_TRAP_FLAG AND 3 = 3"
    by (simp_all add: KERNEL_INTERRUPT_FLAG_def USER_TRAP_FLAG_def)
  have base: "gate_base (gate b f) = b" for b f by (simp add: gate_def gate_fields)
  have parts: "idt_flags (gate b f) = f" "idt_sel (gate b f) = KERNEL_CODE_SEL" for b f
    by (simp_all add: gate_def)
  have present: "gate_present (gate_of l v) \<longleftrightarrow> v < 48 \<or> v = 128" for v
    using flags by (simp add: gate_of_def gate_present_def parts) (simp add: zero_gate_def)
  have "idt_sel (gate_of l v) = KERNEL_CODE_SEL \<and> gate_dpl (gate_of l v) = (if v = 128 then 3 else 0) \<and>
      gate_base (gate_of l v) = (if v < 32 then isr_stub l v else if v < 48 then irq_stub l (v - 32) else irq_stub l 128)"
    if "v < 48 \<or> v = 128" for v
    using that flags by (auto simp: gate_of_def gate_dpl_def parts base)
  then show ?thesis
    using t(2-4) present by (intro exI [of _ t']) (simp add: t(5) log remap_irq_def outb_def)
qed

definition empty_tables :: tables where
  "empty_tables = \<lparr>gdt = replicate 6 (gdt_row 0 0 0 0),
     tss_entry = \<lparr>prev_tss = 0, esp_ring0 = 0, ss_ring0 = 0, tss_padding = []\<rparr>, idt = [], t_log = []\<rparr>"

definition demo_link :: link where
  "demo_link = \<lparr>gdt_addr = 0x101000, tss_addr = 0x102000, kstack_addr = 0x103000, idt_addr = 0x104000,
     isr_stub = (\<lambda>n. 0x110000 + 32 * of_nat n), irq_stub = (\<lambda>n. 0x120000 + 32 * of_nat n)\<rparr>"

lemma interrupt_vectors_witness:
  "\<exists>t'. arch_init demo_link empty_tables = ok t' \<and> gate_dpl (idt t' ! 128) = 3 \<and> gate_base (idt t' ! 33) = 0x120020"
proof -
  have "length (gdt empty_tables) = 6" by (simp add: empty_tables_def)
  from interrupt_vectors [OF this, of demo_link] obtain t' where t': "arch_init demo_link empty_tables = ok t'"
      "\<forall>v < 256. gate_present (idt t' ! v) \<longleftrightarrow> v < 48 \<or> v = 128"
      "\<forall>v < 256. gate_present (idt t' ! v) \<longrightarrow> idt_sel (idt t' ! v) = KERNEL_CODE_SEL \<and>
        gate_dpl (idt t' ! v) = (if v = 128 then 3 else 0) \<and> gate_base (idt t' ! v) =
          (if v < 32 then isr_stub demo_link v else if v < 48 then irq_stub demo_link (v - 32) else irq_stub demo_link 128)"
    by blast
  from t'(2) have "gate_present (idt t' ! 128)" "gate_present (idt t' ! 33)" by simp_all
  with t'(3) have "gate_dpl (idt t' ! 128) = 3" "gate_base (idt t' ! 33) = irq_stub demo_link 1" by simp_all
  then show ?thesis using t'(1) by (simp add: demo_link_def)
qed

text \<open>
  Memory is flat: after \<open>init_gdt\<close> the kernel's and the users' code and data segments all start at
  0 and end at the last byte of the 4 GiB address space, so segmentation keeps no process out of the
  kernel or of another process. Row 5 describes the task state segment, with a limit counted in pages
  (104 of them, for a structure of 104 bytes).
\<close>

lemma segments_flat:
  assumes "length (gdt t) = GDT_SIZE"
  shows "\<exists>t'. init_gdt l t = ok t' \<and>
    (\<forall>i \<in> {1, 2, 3, 4}. row_base (gdt t' ! i) = 0 \<and> row_last (gdt t' ! i) = 0xFFFFFFFF \<and>
       row_dpl (gdt t' ! i) = (if i \<le> 2 then 0 else 3)) \<and>
    row_base (gdt t' ! 5) = tss_addr l \<and> row_last (gdt t' ! 5) = 104 * 4096 + 4095 \<and>
    ss_ring0 (tss_entry t') = 0x10 \<and> esp_ring0 (tss_entry t') = kstack_addr l"
proof -
  have flat: "row_last (gdt_row 0 0xFFFFFFFF a 0xCF) = 0xFFFFFFFF" for a
    unfolding row_last_def row_fields by (simp add: gdt_row_def)
  have tss: "row_last (gdt_row b 104 a 0xCF) = 104 * 4096 + 4095" for a b
    unfolding row_last_def row_fields by (simp add: gdt_row_def)
  have access: "gdt_access (gdt_row b l a f) = a" for b l a f by (simp add: gdt_row_def)
  show ?thesis
    using init_gdt_eq [OF assms, of l]
    by (simp add: flat tss row_fields access row_dpl_def)
qed

lemma segments_flat_witness:
  "\<exists>t'. init_gdt demo_link empty_tables = ok t' \<and> row_last (gdt t' ! 4) = 0xFFFFFFFF"
  using segments_flat [of empty_tables demo_link] by (auto simp: empty_tables_def)

end
