(* ===== verification/Ramblk.thy ===== *)
theory Ramblk
  imports Memory
begin

text \<open>
  Block devices: drivers/blk/blk.h and drivers/blk/ramblk/ramblk.c.

  \<open>block_dev\<close> is the structure a driver hands to the rest of the kernel; its two function pointers are
  functions on the memory. The registry the structure goes into (\<open>BLK__register_device\<close>) has no code in
  the repository, so it is a parameter of \<open>RAMBLK__init\<close>.

  The locale \<open>block_device\<close> is the contract between a driver and its clients: what a read delivers, what
  a write changes, and that nothing else changes. The RAM disk keeps it for 10239 sectors, one less than
  it announces; \<open>ram_sector\<close> is where the contents of a sector lie.
\<close>

type_synonym sector_fun = "u32 \<Rightarrow> u32 \<Rightarrow> ptr \<Rightarrow> mem \<Rightarrow> (u32 \<times> mem) res"

record block_dev =
  dev_name :: "u8 list"
  sector_size :: u32
  device_no :: u32
  num_sectors :: u32
  read_sector :: sector_fun
  write_sector :: sector_fun

section \<open>The RAM disk\<close>

abbreviation RAMFS_BYTES :: u32 where "RAMFS_BYTES \<equiv> 1024 * 1024 * 5"
abbreviation SECTOR_SIZE :: u32 where "SECTOR_SIZE \<equiv> 512"

definition ramfs_blocks :: ptr where
  "ramfs_blocks = (Ramfs_blocks, 0)"

definition RAMBLK__read_sector :: sector_fun where
  "RAMBLK__read_sector device sector out m =
     (if sector * SECTOR_SIZE \<ge> RAMFS_BYTES then ok (0, m)
      else let byte = sector * SECTOR_SIZE
           in bind_res (memcpy (padd ramfs_blocks byte) out SECTOR_SIZE m) (\<lambda>m. ok (1, m)))"

definition RAMBLK__write_sector :: sector_fun where
  "RAMBLK__write_sector device sector src m =
     (if (sector + 1) * SECTOR_SIZE \<ge> RAMFS_BYTES then ok (0, m)
      else let byte = sector * SECTOR_SIZE
           in bind_res (memcpy src (padd ramfs_blocks byte) SECTOR_SIZE m) (\<lambda>m. ok (1, m)))"

definition RAMBLK__device :: block_dev where
  "RAMBLK__device =
     \<lparr>dev_name = bytes_of ''RAM_BLK'' @ replicate 9 0, sector_size = SECTOR_SIZE, device_no = 0,
      num_sectors = RAMFS_BYTES div SECTOR_SIZE,
      read_sector = RAMBLK__read_sector, write_sector = RAMBLK__write_sector\<rparr>"

definition RAMBLK__init :: "(block_dev \<Rightarrow> 'b \<Rightarrow> 'b) \<Rightarrow> mem \<times> 'b \<Rightarrow> (mem \<times> 'b) res" where
  "RAMBLK__init register x =
     (case x of (m, devices) \<Rightarrow>
      bind_res (memset ramfs_blocks 0 RAMFS_BYTES m) (\<lambda>m.
      ok (m, register RAMBLK__device devices)))"

section \<open>The contract of a block device\<close>

locale block_device =
  fixes rd :: sector_fun and wr :: sector_fun
    and disk :: "mem \<Rightarrow> nat \<Rightarrow> nat \<Rightarrow> u8"
    and owned :: "obj \<Rightarrow> bool"
    and sectors :: nat
  assumes few: "sectors < 4294967296"
    and rd_ok: "s < sectors \<Longrightarrow> valid buf 512 \<Longrightarrow> \<not> is_const (fst buf) \<Longrightarrow> \<not> owned (fst buf) \<Longrightarrow>
      rd d (of_nat s) buf m = ok (1, upd_bytes m buf 512 (disk m s))"
    and wr_ok: "s < sectors \<Longrightarrow> valid buf 512 \<Longrightarrow> \<not> owned (fst buf) \<Longrightarrow>
      \<exists>m'. wr d (of_nat s) buf m = ok (1, m') \<and> (\<forall>b. \<not> owned b \<longrightarrow> m' b = m b) \<and>
        (\<forall>t < sectors. \<forall>k < 512. disk m' t k = (if t = s then peek m (padd buf (of_nat k)) else disk m t k))"
    and disk_cong: "(\<And>b. owned b \<Longrightarrow> m' b = m b) \<Longrightarrow> disk m' = disk m"
begin

lemma disk_upd_bytes: "\<not> owned (fst p) \<Longrightarrow> disk (upd_bytes m p n f) = disk m"
  by (rule disk_cong) (auto simp: upd_bytes_def)

text \<open>A sector read back after a write is what was written; another sector is as before.\<close>

lemma read_after_write:
  assumes "s < sectors" and "t < sectors" and "valid buf 512" and "\<not> owned (fst buf)"
    and "valid out 512" and "\<not> is_const (fst out)" and "\<not> owned (fst out)"
    and "wr d (of_nat s) buf m = ok (r, m')"
  shows "\<exists>m''. rd d (of_nat t) out m' = ok (1, m'') \<and>
    (\<forall>k < 512. peek m'' (padd out (of_nat k)) = (if t = s then peek m (padd buf (of_nat k)) else disk m t k))"
proof -
  have m': "\<forall>t < sectors. \<forall>k < 512. disk m' t k = (if t = s then peek m (padd buf (of_nat k)) else disk m t k)"
    using wr_ok [OF assms(1,3,4), of d m] assms(8) by auto
  have "rd d (of_nat t) out m' = ok (1, upd_bytes m' out 512 (disk m' t))"
    using assms(2,5-7) by (rule rd_ok)
  then show ?thesis using m' assms(2,5,6) by (simp add: peek_upd_bytes_in)
qed

end

section \<open>The RAM disk keeps it\<close>

definition ram_sector :: "mem \<Rightarrow> nat \<Rightarrow> nat \<Rightarrow> u8" where
  "ram_sector m s k = m Ramfs_blocks (of_nat (512 * s + k))"

text \<open>The product in both bounds checks wraps: a sector number counts modulo \<open>2 ^ 23\<close>.\<close>

lemma unat_sector_byte: "unat (sector * SECTOR_SIZE) = 512 * (unat sector mod 8388608)"
proof -
  have "unat (sector * SECTOR_SIZE) = (512 * unat sector) mod (512 * 8388608)"
    by (simp add: unat_word_ariths mult.commute)
  then show ?thesis by (simp only: mult_mod_right)
qed

lemma sector_valid:
  "unat sector mod 8388608 < 10240 \<Longrightarrow> valid (padd ramfs_blocks (sector * SECTOR_SIZE)) 512"
  by (simp add: valid_def padd_def ramfs_blocks_def unat_sector_byte)

lemma sector_address:
  "sector * SECTOR_SIZE + of_nat k = of_nat (512 * (unat sector mod 8388608) + k)"
  by (simp flip: unat_sector_byte)

lemma peek_sector:
  "peek m (padd (padd ramfs_blocks (sector * SECTOR_SIZE)) (of_nat k)) = ram_sector m (unat sector mod 8388608) k"
  by (simp only: padd_def ramfs_blocks_def fst_conv snd_conv add_0 sector_address ram_sector_def peek.simps)

lemma read_sector_eq:
  assumes "valid out 512" and "\<not> is_const (fst out)" and "fst out \<noteq> Ramfs_blocks"
  shows "RAMBLK__read_sector device sector out m =
    (if unat sector mod 8388608 < 10240
     then ok (1, upd_bytes m out 512 (ram_sector m (unat sector mod 8388608))) else ok (0, m))"
proof (cases "unat sector mod 8388608 < 10240")
  case True
  then have "\<not> sector * SECTOR_SIZE \<ge> RAMFS_BYTES"
    by (simp add: word_le_nat_alt unat_sector_byte)
  with True show ?thesis
    using memcpy_upd [of "padd ramfs_blocks (sector * SECTOR_SIZE)" SECTOR_SIZE out m] sector_valid assms
    by (simp add: RAMBLK__read_sector_def copy_period_def peek_sector Let_def) (simp add: ramfs_blocks_def)
next
  case False
  then have "sector * SECTOR_SIZE \<ge> RAMFS_BYTES" by (simp add: word_le_nat_alt unat_sector_byte)
  with False show ?thesis by (simp add: RAMBLK__read_sector_def)
qed

text \<open>
  The bound of the write is one sector too strict, and its wrap-around lets the last number of each
  round pass: there the destination lies beyond the array.
\<close>

lemma unat_next_sector: "unat ((sector + 1) * SECTOR_SIZE) =
    512 * (if unat sector mod 8388608 = 8388607 then 0 else Suc (unat sector mod 8388608))"
proof -
  have "unat (sector + 1) mod 8388608 = Suc (unat sector) mod 8388608"
    by (simp add: unat_word_ariths mod_mod_cancel)
  also have "\<dots> = Suc (unat sector mod 8388608) mod 8388608" by (rule mod_Suc_eq [symmetric])
  also have "\<dots> = (if unat sector mod 8388608 = 8388607 then 0 else Suc (unat sector mod 8388608))"
    using Suc_mod_ring [of "unat sector mod 8388608" 8388608] by simp
  finally show ?thesis by (simp only: unat_sector_byte)
qed

lemma write_sector_eq:
  assumes "valid src 512" and "fst src \<noteq> Ramfs_blocks"
  shows "RAMBLK__write_sector device sector src m =
    (if unat sector mod 8388608 < 10239
     then ok (1, upd_bytes m (padd ramfs_blocks (sector * SECTOR_SIZE)) 512 (\<lambda>k. peek m (padd src (of_nat k))))
     else if unat sector mod 8388608 = 8388607 then fail Write_oob else ok (0, m))"
proof -
  let ?x = "unat sector mod 8388608"
  have passes: "(sector + 1) * SECTOR_SIZE \<ge> RAMFS_BYTES \<longleftrightarrow> \<not> (?x < 10239 \<or> ?x = 8388607)"
    unfolding word_le_nat_alt unat_next_sector by auto
  consider "?x < 10239" | "?x = 8388607" | "\<not> (?x < 10239 \<or> ?x = 8388607)" by blast
  then show ?thesis
  proof cases
    case 1
    then show ?thesis
      using memcpy_upd [of src SECTOR_SIZE "padd ramfs_blocks (sector * SECTOR_SIZE)" m] assms
        sector_valid [of sector]
      unfolding RAMBLK__write_sector_def passes
      by (simp add: copy_period_def Let_def) (simp add: ramfs_blocks_def)
  next
    case 2
    then have "unat (sector * SECTOR_SIZE) = 4294966784" by (simp add: unat_sector_byte)
    then have "memcpy src (padd ramfs_blocks (sector * SECTOR_SIZE)) SECTOR_SIZE m = fail Write_oob"
      using load_valid [OF assms(1), of 0 m]
      by (simp add: memcpy_def for_range_step [of 0 512] store_def ramfs_blocks_def)
    with 2 show ?thesis unfolding RAMBLK__write_sector_def passes by (simp add: Let_def)
  next
    case 3
    then show ?thesis unfolding RAMBLK__write_sector_def passes by simp
  qed
qed

lemma ram_sector_upd:
  assumes "s < 10240" and "t < 10240" and "k < 512"
  shows "ram_sector (upd_bytes m (padd ramfs_blocks (of_nat s * SECTOR_SIZE)) 512 f) t k =
    (if t = s then f k else ram_sector m t k)"
proof -
  define u v :: u32 where "u = of_nat (512 * t + k)" and "v = of_nat (512 * s)"
  have "unat u = 512 * t + k" "unat v = 512 * s"
    unfolding u_def v_def using assms by (intro unat_u32_of_nat; simp)+
  then have "unat (u - v) < 512 \<longleftrightarrow> t = s" "t = s \<Longrightarrow> unat (u - v) = k"
    using assms by (auto simp: unat_sub_if')
  moreover have "of_nat s * SECTOR_SIZE = v" by (simp add: v_def mult.commute)
  ultimately show ?thesis unfolding u_def
    by (simp only: ram_sector_def upd_bytes_def ramfs_blocks_def padd_def fst_conv snd_conv add_0 fun_upd_same) simp
qed

interpretation ram: block_device RAMBLK__read_sector RAMBLK__write_sector ram_sector "\<lambda>b. b = Ramfs_blocks" 10239
proof
  fix s d buf m assume s: "s < (10239 :: nat)" and buf: "valid buf 512" "\<not> fst buf = Ramfs_blocks"
  have x: "unat (of_nat s :: u32) mod 8388608 = s" using s by simp
  show "RAMBLK__read_sector d (of_nat s) buf m = ok (1, upd_bytes m buf 512 (ram_sector m s))"
    if "\<not> is_const (fst buf)"
    using read_sector_eq [OF buf(1) that buf(2), of d "of_nat s" m] s unfolding x by simp
  let ?m' = "upd_bytes m (padd ramfs_blocks (of_nat s * SECTOR_SIZE)) 512 (\<lambda>k. peek m (padd buf (of_nat k)))"
  have "RAMBLK__write_sector d (of_nat s) buf m = ok (1, ?m')"
    using write_sector_eq [OF buf, of d "of_nat s" m] s unfolding x by simp
  moreover have "\<forall>t < 10239. \<forall>k < 512. ram_sector ?m' t k =
      (if t = s then peek m (padd buf (of_nat k)) else ram_sector m t k)"
    using s by (simp add: ram_sector_upd)
  moreover have "\<forall>b. \<not> b = Ramfs_blocks \<longrightarrow> ?m' b = m b"
    by (simp add: upd_bytes_def ramfs_blocks_def)
  ultimately show "\<exists>m'. RAMBLK__write_sector d (of_nat s) buf m = ok (1, m') \<and> (\<forall>b. \<not> b = Ramfs_blocks \<longrightarrow> m' b = m b) \<and>
      (\<forall>t < 10239. \<forall>k < 512. ram_sector m' t k = (if t = s then peek m (padd buf (of_nat k)) else ram_sector m t k))"
    by blast
next
  fix m' m :: mem assume "\<And>b. b = Ramfs_blocks \<Longrightarrow> m' b = m b"
  then show "ram_sector m' = ram_sector m" by (simp add: ram_sector_def fun_eq_iff)
qed simp

lemma RAMBLK__init_eq:
  "RAMBLK__init register (m, devices) =
     ok (upd_bytes m ramfs_blocks 5242880 (\<lambda>_. 0), register RAMBLK__device devices)"
proof -
  have "valid ramfs_blocks (unat RAMFS_BYTES)" by (simp add: valid_def ramfs_blocks_def)
  then show ?thesis
    using memset_upd [of ramfs_blocks RAMFS_BYTES 0 m] by (simp add: RAMBLK__init_def ramfs_blocks_def)
qed

section \<open>Properties\<close>

text \<open>
  C26: the two functions of the RAM disk, for every sector number. Numbers count modulo \<open>2 ^ 23\<close>; a read
  works for the 10240 sectors of the array and refuses the rest. A write works for the first 10239 only:
  the last sector the device announces cannot be written; and for the last number of each round the
  check passes and the write leaves the array.
\<close>

lemma ram_disk_exact:
  assumes "valid buf 512" and "\<not> is_const (fst buf)" and "fst buf \<noteq> Ramfs_blocks"
  shows "RAMBLK__read_sector device sector buf m =
      (if unat sector mod 2 ^ 23 < 10240
       then ok (1, upd_bytes m buf 512 (ram_sector m (unat sector mod 2 ^ 23))) else ok (0, m)) \<and>
    RAMBLK__write_sector device sector buf m =
      (if unat sector mod 2 ^ 23 < 10239
       then ok (1, upd_bytes m (padd ramfs_blocks (sector * SECTOR_SIZE)) 512 (\<lambda>k. peek m (padd buf (of_nat k))))
       else if unat sector mod 2 ^ 23 = 2 ^ 23 - 1 then fail Write_oob else ok (0, m)) \<and>
    num_sectors RAMBLK__device = 10240"
  using read_sector_eq [OF assms, of device sector m] write_sector_eq [OF assms(1,3), of device sector m]
  by (simp add: RAMBLK__device_def)

lemma ram_disk_exact_witness:
  "RAMBLK__write_sector 0 0xFFFFFFFF (Local 0 512, 0) (\<lambda>_ _. 0) = fail Write_oob \<and>
   RAMBLK__write_sector 0 10239 (Local 0 512, 0) (\<lambda>_ _. 0) = ok (0, \<lambda>_ _. 0)"
proof -
  have b: "valid (Local 0 512, 0) 512" "\<not> is_const (fst (Local 0 512, 0 :: u32))"
    "fst (Local 0 512, 0 :: u32) \<noteq> Ramfs_blocks"
    by (simp_all add: valid_def)
  show ?thesis
    using ram_disk_exact [OF b, of 0 "0xFFFFFFFF" "\<lambda>_ _. 0"] ram_disk_exact [OF b, of 0 10239 "\<lambda>_ _. 0"]
    by simp
qed

text \<open>
  What is written to a sector of the RAM disk is what is read back from it, and every other sector
  reads as before, for all sectors that can be written.
\<close>

lemma ram_disk_roundtrip:
  assumes "s < 10239" and "t < 10239" and "valid buf 512" and "fst buf \<noteq> Ramfs_blocks"
    and "valid out 512" and "\<not> is_const (fst out)" and "fst out \<noteq> Ramfs_blocks"
    and "RAMBLK__write_sector d (of_nat s) buf m = ok (r, m')"
  shows "\<exists>m''. RAMBLK__read_sector d (of_nat t) out m' = ok (1, m'') \<and>
    (\<forall>k < 512. peek m'' (padd out (of_nat k)) = (if t = s then peek m (padd buf (of_nat k)) else ram_sector m t k))"
  using ram.read_after_write assms by blast

lemma ram_disk_roundtrip_witness:
  "\<exists>m' m''. RAMBLK__write_sector 0 3 (Local 0 512, 0) (\<lambda>_ _. 7) = ok (1, m') \<and>
    RAMBLK__read_sector 0 3 (Local 1 512, 0) m' = ok (1, m'') \<and> peek m'' (Local 1 512, 511) = 7"
proof -
  have b: "valid (Local 0 512, 0) 512" "fst (Local 0 512, 0 :: u32) \<noteq> Ramfs_blocks"
    "valid (Local 1 512, 0) 512" "\<not> is_const (fst (Local 1 512, 0 :: u32))"
    "fst (Local 1 512, 0 :: u32) \<noteq> Ramfs_blocks"
    by (simp_all add: valid_def)
  obtain m' where w: "RAMBLK__write_sector 0 (of_nat 3) (Local 0 512, 0) (\<lambda>_ _. 7) = ok (1, m')"
    using write_sector_eq [OF b(1,2), of 0 3 "\<lambda>_ _. 7"] by simp
  obtain m'' where m'': "RAMBLK__read_sector 0 (of_nat 3) (Local 1 512, 0) m' = ok (1, m'')"
    "\<forall>k < 512. peek m'' (padd (Local 1 512, 0) (of_nat k)) = 7"
    using ram_disk_roundtrip [OF _ _ b w, of 3] by auto
  have "peek m'' (padd (Local 1 512, 0) (of_nat 511)) = 7" using m''(2) [rule_format, of 511] by simp
  then show ?thesis using w m''(1) by auto
qed

end
