(* ===== verification/Kernel.thy ===== *)
theory Kernel
  imports Acpi Descriptors Ramblk Pci Irq
begin

text \<open>
  The entry of the kernel and its panic: kernel.c. \<open>kernel_main\<close> runs up to the endless loop at its
  end, where only interrupts act any more; its result is the state in which they find the kernel.

  What the link editor and the hardware decide is the record \<open>boot_env\<close>: the devices behind the ports,
  the addresses of the tables and of the two processes, the array of PCI names, and the old contents of
  the structure \<open>pci_device\<close> on the stack. The registry of block devices (the functions \<open>BLK__\<close>) has no
  code in the repository; it is the record \<open>blk_registry\<close>, over a state of its own.
\<close>

record boot_env =
  boot_hw :: hw
  boot_link :: link
  boot_ids :: "u8 list"
  boot_stale :: "u8 \<Rightarrow> u8 \<Rightarrow> pci_device"
  razzle_entry :: u32
  dazzle_entry :: u32

record 'b blk_registry =
  BLK__init :: "'b \<Rightarrow> 'b"
  BLK__register_device :: "block_dev \<Rightarrow> 'b \<Rightarrow> 'b"
  BLK__get_block_devices :: "u32 \<Rightarrow> 'b \<Rightarrow> block_dev list \<times> u32"

record 'b system =
  sys_kernel :: kernel
  sys_tables :: tables
  sys_blk :: 'b

section \<open>The boot\<close>

text \<open>The port history moves with the part of the kernel that runs.\<close>

definition init_tables :: "boot_env \<Rightarrow> machine \<times> tables \<Rightarrow> (machine \<times> tables) res" where
  "init_tables e x =
     (case x of (m, t) \<Rightarrow>
      bind_res (arch_init (boot_link e) (t\<lparr>t_log := io_log m\<rparr>)) (\<lambda>t.
      ok (m\<lparr>io_log := t_log t\<rparr>, t)))"

text \<open>
  The local array of 128 descriptors; \<open>devices\<close> has the ones the registry wrote to it, from the first place
  on. The loop runs to the count it returned.
\<close>

definition print_blk :: "hw \<Rightarrow> block_dev list \<Rightarrow> nat \<Rightarrow> machine \<Rightarrow> machine res" where
  "print_blk hw devices i m =
     (if i < 128 \<and> i < length devices
      then let d = devices ! i
           in printf hw (lit ''blk: %d: %s with capacity %d Bytes\<newline>'')
                [Va_int (device_no d), Va_ptr (Const (dev_name d), 0), Va_int (num_sectors d * sector_size d)] m
      else fail Read_oob)"

definition kernel_main :: "boot_env \<Rightarrow> 'b blk_registry \<Rightarrow> 'b system \<Rightarrow> 'b system res" where
  "kernel_main e blk y =
     (let hw = boot_hw e; k = sys_kernel y; m = k_machine k;
          m = m\<lparr>io_log := serial_init (outb 0x3D5 0x20 (outb 0x3D4 0x0A (io_log m)))\<rparr>
      in bind_res (find_rsdp hw m) (\<lambda>m.
         bind_res (pci_enumerate_devices hw (boot_ids e) (boot_stale e) (k_pci k, m)) (\<lambda>(p, m).
         bind_res (VGA_clear_screen m) (\<lambda>m.
         bind_res (init_tables e (m\<lparr>io_log := interrupt_disable (io_log m)\<rparr>, sys_tables y)) (\<lambda>(m, t).
         bind_res (init_process_table (k_sched k)) (\<lambda>s.
         bind_res (init_ps2 (k_ps2 k)) (\<lambda>d.
         bind_res (RAMBLK__init (BLK__register_device blk) (mem m, BLK__init blk (sys_blk y))) (\<lambda>(mm, b).
         case BLK__get_block_devices blk 128 b of (devices, blkdev_cnt) \<Rightarrow>
         bind_res (for_range 0 (unat blkdev_cnt) (print_blk hw devices) (m\<lparr>mem := mm\<rparr>)) (\<lambda>m.
         bind_res (start_process (lit ''razzle'') (razzle_entry e) s (mem m)) (\<lambda>(s, mm).
         bind_res (start_process (lit ''dazzle'') (dazzle_entry e) s mm) (\<lambda>(s, mm).
         ok \<lparr>sys_kernel = k\<lparr>k_machine := m\<lparr>mem := mm, io_log := interrupt_enable (io_log m)\<rparr>,
               k_sched := s, k_ps2 := d, k_pci := p\<rparr>,
             sys_tables = t, sys_blk = b\<rparr>)))))))))))"

section \<open>Panic\<close>

definition fault_name :: "hw \<Rightarrow> u32 \<Rightarrow> machine \<Rightarrow> machine res" where
  "fault_name hw n m =
     (if n = 0 then printf hw (lit ''Error: Divide by Zero\<newline>'') [] m
      else if n = 6 then printf hw (lit ''Error: Illegal instruction\<newline>'') [] m
      else if n = 8 then printf hw (lit ''Error: Double Fault (Ignoring)\<newline>'') [] m
      else if n = 13 then printf hw (lit ''Error: General Protection Fault at\<newline>'') [] m
      else printf hw (lit ''Error: Unknown (no: %d)\<newline>'') [Va_int n] m)"

text \<open>The report; after it the handler loops for ever.\<close>

definition fault_report :: "hw \<Rightarrow> regs \<Rightarrow> sched \<Rightarrow> machine \<Rightarrow> machine res" where
  "fault_report hw r s m =
     bind_res (VGA_clear_screen m) (\<lambda>m.
     bind_res (printf hw (lit ''!!! Kernel Panic !!!\<newline>'') [] m) (\<lambda>m.
     bind_res (fault_name hw (r_int_no r) m) (\<lambda>m.
     bind_res (printf hw (lit ''EIP: %x\<newline>'') [Va_int (r_eip r)] m) (\<lambda>m.
     bind_res (load32 (mem m) (Phys, r_esp r + 8)) (\<lambda>v.
     bind_res (printf hw (lit ''ESPv: %x\<newline>'') [Va_int v] m) (\<lambda>m.
     bind_res (printf hw (lit ''ESP : %x\<newline>'') [Va_int (r_esp r)] m) (\<lambda>m.
     bind_res (printf hw (lit ''\<newline>'') [] m) (process_debug hw s))))))))"

definition fault_handler :: "hw \<Rightarrow> regs \<Rightarrow> sched \<Rightarrow> machine \<Rightarrow> machine res" where
  "fault_handler hw r s m = bind_res (fault_report hw r s m) (\<lambda>_. hang)"

end
