(* ===== verification/Effects.thy ===== *)
theory Effects
  imports Io
begin

text \<open>
  What printing leaves alone, whatever the format and the arguments: all memory but the text buffer of
  the VGA driver and physical memory, and the lock; and of physical memory all but the 4,000 bytes the
  screen shows (\<open>off_screen\<close>). Used by the components that print while they work on other memory.
\<close>

definition screen_only :: "machine \<Rightarrow> machine \<Rightarrow> bool" where
  "screen_only s s' \<longleftrightarrow> lock s' = lock s \<and> (\<forall>b. b \<noteq> Vga_buf \<longrightarrow> b \<noteq> Phys \<longrightarrow> mem s' b = mem s b)"

lemma screen_only_refl [simp]: "screen_only s s"
  by (simp add: screen_only_def)

lemma screen_only_trans: "screen_only s t \<Longrightarrow> screen_only t u \<Longrightarrow> screen_only s u"
  by (simp add: screen_only_def)

lemma screen_only_mem: "screen_only s s' \<Longrightarrow> b \<noteq> Vga_buf \<Longrightarrow> b \<noteq> Phys \<Longrightarrow> mem s' b = mem s b"
  by (simp add: screen_only_def)

lemma store_other: "store m p v = ok m' \<Longrightarrow> b \<noteq> fst p \<Longrightarrow> m' b = m b"
  by (auto simp: store_def split: if_splits)

lemma memcpy_other: "memcpy src dst n m = ok m' \<Longrightarrow> b \<noteq> fst dst \<Longrightarrow> m' b = m b"
  unfolding memcpy_def
  by (rule for_range_rel [where R = "\<lambda>m m'. m' b = m b"]) (auto simp: bind_res_eq_ok store_other)

lemma VGA_flush_screen: "VGA_flush s = ok s' \<Longrightarrow> screen_only s s'"
  by (auto simp: VGA_flush_def Let_def bind_res_eq_ok screen_only_def memcpy_other vram_def)

lemma VGA_clear_screen_screen: "VGA_clear_screen s = ok s' \<Longrightarrow> screen_only s s'"
proof -
  assume "VGA_clear_screen s = ok s'"
  then obtain t where t: "for_range 0 (HEIGHT - 1) (\<lambda>r. for_range 0 WIDTH (\<lambda>c. VGA_set r c 32 default_color_code)) s = ok t"
      "VGA_flush (t\<lparr>vgabuf_start_row := 0, vgabuf_col := 0, vgabuf_row := 0\<rparr>) = ok s'"
    unfolding VGA_clear_screen_def bind_res_eq_ok by blast
  have set: "screen_only a b" if "VGA_set r c 32 default_color_code a = ok b" for r c a b
    using that by (auto simp: VGA_set_def bind_res_eq_ok screen_only_def store_other)
  have "screen_only s t"
    using t(1) by (rule for_range_rel [rotated -1])
      (auto intro: screen_only_trans elim!: for_range_rel [rotated -1] dest: set)
  then show ?thesis using VGA_flush_screen [OF t(2)] by (simp add: screen_only_def)
qed

lemma putc_screen: "putc hw c s = ok s' \<Longrightarrow> screen_only s s'"
  by (simp add: screen_only_def putc_rest putc_lock)

lemma bind_screen:
  "bind_res (f s) g = ok s' \<Longrightarrow> (\<And>t. f s = ok t \<Longrightarrow> screen_only s t) \<Longrightarrow>
   (\<And>t. g t = ok s' \<Longrightarrow> screen_only t s') \<Longrightarrow> screen_only s s'"
  by (auto simp: bind_res_eq_ok intro: screen_only_trans)

lemma print_uint_screen: "print_uint hw x base s = ok s' \<Longrightarrow> screen_only s s'"
proof (induction hw x base s arbitrary: s' rule: print_uint.induct)
  case (1 hw x base s)
  show ?case
  proof (cases "x = 0")
    case True
    then show ?thesis using "1.prems" by (simp add: print_uint.simps putc_screen split: if_splits)
  next
    case False
    with "1.prems" obtain t where "print_uint hw (x div 10) 0 s = ok t" "putc hw (ucast (48 + x mod 10)) t = ok s'"
      by (subst (asm) print_uint.simps) (auto simp: bind_res_eq_ok)
    then show ?thesis using "1.IH" [OF False] putc_screen screen_only_trans by blast
  qed
qed

lemma print_int_screen: "print_int hw x base s = ok s' \<Longrightarrow> screen_only s s'"
proof (induction hw x base s arbitrary: s' rule: print_int.induct)
  case (1 hw x base s)
  consider "x = 0" | "x < 0" | "0 < x" by linarith
  then show ?case
  proof cases
    case 1
    then show ?thesis using "1.prems" by (simp add: print_int.simps putc_screen split: if_splits)
  next
    case 2
    with "1.prems" obtain t u where t: "putc hw 45 s = ok t" "print_int hw (- 1 * (x sdiv 10)) 0 t = ok u"
        "putc hw (of_int (48 + x smod 10)) u = ok s'"
      by (subst (asm) print_int.simps) (auto simp: bind_res_eq_ok)
    then show ?thesis using "1.IH"(1) [OF _ 2 t(1,2)] 2 putc_screen screen_only_trans by blast
  next
    case 3
    with "1.prems" obtain u where u: "print_int hw (x sdiv 10) 0 s = ok u" "putc hw (of_int (48 + x smod 10)) u = ok s'"
      by (subst (asm) print_int.simps) (auto simp: bind_res_eq_ok)
    then show ?thesis using "1.IH"(2) [OF _ _ u(1)] 3 putc_screen screen_only_trans by auto
  qed
qed

text \<open>For the loops that are partial functions: their result, if there is one.\<close>

abbreviation screen_result :: "machine \<Rightarrow> fault + machine \<Rightarrow> bool" where
  "screen_result s r \<equiv> (\<forall>s'. r = Inr s' \<longrightarrow> screen_only s s')"

lemma print_hex_loop_step:
  assumes "\<And>x fp s y. loop hw x fp s = Some y \<Longrightarrow> screen_result s y"
    and "(let digit = drop_bit 28 (x AND 0xF0000000);
          printed = (digit \<noteq> 0 \<or> \<not> fp \<or> x = 0);
          x' = push_bit 4 x
      in bind_res (if printed then putc hw (hex_char digit) s else ok s) (\<lambda>s.
         if x' \<noteq> 0 then loop hw x' (if printed then False else fp) s else ok s)) = ok s'"
  shows "screen_only s s'"
proof -
  let ?d = "drop_bit 28 (x AND 0xF0000000)"
  let ?p = "?d \<noteq> 0 \<or> \<not> fp \<or> x = 0"
  obtain t where t: "(if ?p then putc hw (hex_char ?d) s else ok s) = ok t"
      "(if push_bit 4 x \<noteq> 0 then loop hw (push_bit 4 x) (if ?p then False else fp) t else ok t) = ok s'"
    using assms(2) unfolding Let_def bind_res_eq_ok by blast
  have "screen_only s t"
    using t(1) putc_screen [of hw "hex_char ?d" s t] by (cases ?p) simp_all
  moreover have "screen_only t s'"
    using t(2) assms(1) by (cases "push_bit 4 x = 0") auto
  ultimately show ?thesis by (rule screen_only_trans)
qed

lemma print_hex_loop_screen:
  assumes "print_hex_loop hw x fp s = ok s'"
  shows "screen_only s s'"
  using print_hex_loop.raw_induct [of "\<lambda>hw x fp s y. screen_result s y" "(((hw, x), fp), s)" "Inr s'"]
    assms print_hex_loop_step by (simp (no_asm_use)) blast

lemma print_string_loop_screen:
  assumes "print_string_loop hw p i s = ok s'"
  shows "screen_only s s'"
proof -
  have "screen_result s (Inr s')"
  proof (rule print_string_loop.raw_induct [of "\<lambda>hw p i s y. screen_result s y", OF _ assms])
    fix loop hw p i s y
    assume IH: "\<And>p i s b y. loop p i s b = Some y \<Longrightarrow> screen_result b y"
      and "bind_res (load (mem s) (padd p i))
        (\<lambda>c. if c = 0 then ok s else bind_res (putc hw c s) (loop hw p (i + 1))) = Some y"
    then show "screen_result s y"
      by (auto simp: bind_res_eq_ok split: if_splits dest!: IH putc_screen) (blast intro: screen_only_trans)+
  qed
  then show ?thesis by blast
qed

lemma printf_conv_screen: "printf_conv hw d args s = ok (rest, s') \<Longrightarrow> screen_only s s'"
  unfolding printf_conv_def
  by (auto simp: bind_res_eq_ok print_hex_def print_string_def split: if_splits
      dest!: putc_screen print_uint_screen print_int_screen print_hex_loop_screen print_string_loop_screen
      intro: screen_only_trans)

lemma printf_loop_screen:
  assumes "printf_loop hw str i args s = ok s'"
  shows "screen_only s s'"
proof -
  have "screen_result s (Inr s')"
  proof (rule printf_loop.raw_induct [of "\<lambda>hw str i args s y. screen_result s y", OF _ assms])
    fix loop hw str i args s y
    assume IH: "\<And>hw str i args s y. loop hw str i args s = Some y \<Longrightarrow> screen_result s y"
      and eq: "bind_res (load (mem s) (padd str i)) (\<lambda>c.
         if c = 0 then VGA_flush s
         else if c = 37 then
           bind_res (load (mem s) (padd str (i + 1))) (\<lambda>d.
           if d = 0 then ok s
           else bind_res (printf_conv hw d args s) (\<lambda>r. loop hw str (i + 2) (fst r) (snd r)))
         else bind_res (putc hw c s) (loop hw str (i + 1) args)) = Some y"
    show "screen_result s y"
      using eq
      by (auto simp: bind_res_eq_ok split: if_splits dest!: IH putc_screen printf_conv_screen VGA_flush_screen)
        (blast intro: screen_only_trans)+
  qed
  then show ?thesis by blast
qed

lemma printf_nolock_screen: "printf_nolock hw str args s = ok s' \<Longrightarrow> screen_only s s'"
  by (simp add: printf_nolock_def printf_base_def printf_loop_screen)

lemma printf_screen:
  assumes "printf hw str args s = ok s'"
  shows "screen_only s s'"
proof -
  obtain l t where l: "sl_acquire (lock s) = ok l" "printf_base hw str args (s\<lparr>lock := l\<rparr>) = ok t"
      "s' = t\<lparr>lock := sl_release (lock t)\<rparr>"
    using assms by (auto simp: printf_def bind_res_eq_ok)
  have free: "\<not> bit (lock s) 0" "l = set_bit 0 (lock s)"
    using l(1) sl_acquire_held [of "lock s"] sl_acquire_free [of "lock s"] by (cases "bit (lock s) 0"; simp)+
  have "screen_only (s\<lparr>lock := l\<rparr>) t" using l(2) by (simp add: printf_base_def printf_loop_screen)
  then have "lock t = set_bit 0 (lock s)" "\<forall>b. b \<noteq> Vga_buf \<longrightarrow> b \<noteq> Phys \<longrightarrow> mem t b = mem s b"
    by (simp_all add: screen_only_def free)
  then show ?thesis using free(1) by (simp add: screen_only_def l(3) sl_release_acquire)
qed

section \<open>Physical memory outside the screen\<close>

definition off_screen :: "u32 \<Rightarrow> bool" where
  "off_screen a \<longleftrightarrow> unat a < 0xB8000 \<or> 0xB8FA0 \<le> unat a"

lemma upd_bytes_off:
  assumes "unat a < unat b \<or> unat b + n \<le> unat a" and "unat b + n \<le> 4294967296"
  shows "upd_bytes m (blk, b) n f blk a = m blk a"
  using assms by (auto simp: upd_bytes_def unat_sub_if')

lemma VGA_flush_off_screen:
  assumes "vga_inv s" and "VGA_flush s = ok s'" and "off_screen a"
  shows "mem s' Phys a = mem s Phys a"
proof -
  let ?start = "ucast (vgabuf_start_row s) :: u32"
  define n where "n = unat (vgabuf_start_row s)"
  have n: "?start = of_nat n" "n < HEIGHT" using assms(1) by (simp_all add: n_def vga_inv_def)
  obtain top where top: "top + 160 * n = 4000" using n(2) that [of "4000 - 160 * n"] by simp
  have first: "?start * of_nat WIDTH * 2 = of_nat (160 * n)" unfolding n by simp
  have "(of_nat top :: u32) + of_nat (160 * n) = of_nat 4000" using top by (metis of_nat_add)
  then have second: "(of_nat HEIGHT - ?start) * of_nat WIDTH * 2 = of_nat top" unfolding n by (simp add: algebra_simps)
  have un: "unat (of_nat (160 * n) :: u32) = 160 * n" "unat (of_nat top :: u32) = top"
    "unat (0xb8000 + of_nat top :: u32) = 0xb8000 + top"
    using n(2) top by (simp_all add: unat_offset del: of_nat_mult)
  obtain m1 m2 where m: "memcpy (padd (Vga_buf, 0) (of_nat (160 * n))) vram (of_nat top) (mem s) = ok m1"
    "memcpy (Vga_buf, 0) (padd vram (of_nat top)) (of_nat (160 * n)) m1 = ok m2" "s' = s\<lparr>mem := m2\<rparr>"
    using assms(2) unfolding VGA_flush_def Let_def first second by (auto simp: bind_res_eq_ok)
  obtain f where f: "m1 = upd_bytes (mem s) (Phys, 0xb8000) top f"
    using m(1) top un by (subst (asm) memcpy_upd) (auto simp: valid_def vram_def)
  obtain g where g: "m2 = upd_bytes m1 (Phys, 0xb8000 + of_nat top) (160 * n) g"
    using m(2) top un by (subst (asm) memcpy_upd) (auto simp: valid_def vram_def)
  have "m2 Phys a = m1 Phys a"
    unfolding g using assms(3) top un(3) by (intro upd_bytes_off) (auto simp: off_screen_def)
  also have "\<dots> = mem s Phys a"
    unfolding f using assms(3) top by (intro upd_bytes_off) (auto simp: off_screen_def)
  finally show ?thesis by (simp add: m(3))
qed

section \<open>Texts\<close>

text \<open>The texts of numbers have no backspaces in them.\<close>

lemma int_text_printable: "8 \<notin> set (int_text z)"
proof -
  have dec: "8 \<notin> set (dec_digits n)" for n
    using dec_digits_value [of n] by (auto simp: list_all_iff is_digit_def)
  have "of_int (48 - r) \<noteq> (8 :: u8)" if "0 \<le> r" "r < 10" for r
  proof -
    have "r \<in> {0, 1, 2, 3, 4, 5, 6, 7, 8, 9}" using that by simp presburger
    then show ?thesis by auto
  qed
  from this [of "- z mod 10"] show ?thesis
    by (auto simp: int_text_def uint_text_def dec)
qed

lemma uint_text_printable: "8 \<notin> set (uint_text n)"
  using dec_digits_value [of n] by (auto simp: uint_text_def list_all_iff is_digit_def)

lemma hex_char_printable:
  assumes "unat d < 16"
  shows "hex_char d \<noteq> 8"
proof -
  have "d = of_nat (unat d)" "unat d \<in> set [0..<16]" using assms by simp_all
  then have "d \<in> set (map of_nat [0..<16])" by (metis image_eqI set_map)
  then show ?thesis by (auto simp: upt_rec hex_char_def)
qed

lemma hex_text_printable: "8 \<notin> set (hex_text x)"
proof -
  have nib: "hex_char (nibble x k) \<noteq> 8" for k
  proof (rule hex_char_printable)
    have "unat (push_bit (4 * k) x AND 0xF0000000) < 4294967296" by (rule unat_u32_less)
    then show "unat (nibble x k) < 16" by (simp add: nibble_def drop_bit_eq_div unat_div)
  qed
  have "set (trim_zeros ds) \<subseteq> set ds" for ds
    unfolding trim_zeros_def by (auto dest!: set_dropWhileD)
  then have "set (trim_zeros (map (nibble x) [0..<8])) \<subseteq> range (nibble x)" by fastforce
  then have "8 \<notin> set (map hex_char (trim_zeros (map (nibble x) [0..<8])))" using nib by fastforce
  then show ?thesis by (simp add: hex_text_def)
qed

lemmas numbers_printable = int_text_printable uint_text_printable hex_text_printable

text \<open>A format without conversions is its own text.\<close>

lemma fmt_text_plain: "37 \<notin> set fmt \<Longrightarrow> fmt_text rd fmt args = Some (fmt, True)"
  by (induction rd fmt args rule: fmt_text.induct) auto

end
