(* ===== verification/Shell.thy ===== *)
theory Shell
  imports Layout Effects Irq
begin

text \<open>
  The two test processes: supp/test_processes.c, with the user side of the system calls they use
  (syscall.c). \<open>dazzle_key\<close> is the body of the shell's loop for one character that \<open>getc\<close> returned,
  up to the final \<open>yield\<close>; \<open>razzle_round\<close> is the body of the other process's loop.

  The record \<open>shell\<close> has the kernel the processes run on (their \<open>printf\<close> is the kernel's, called
  directly), the variables the two share and the position in the command line. The line itself is the
  local array \<open>command\<close>, an object of 2048 bytes. What the surroundings decide is the record \<open>shell_env\<close>:
  the registers at a system call, the addresses of the two local lists, and the answer of \<open>cpuid\<close>.
\<close>

record shell =
  sh_kernel :: kernel
  lock2 :: u32
  counter :: u32
  cmd_len :: u32

record shell_env =
  env_regs :: regs
  env_devlist :: u32
  env_proclist :: u32
  env_cpuid :: "u32 \<times> u32 \<times> u32"

definition command :: ptr where
  "command = (Local 4 2048, 0)"

abbreviation sh_mem :: "shell \<Rightarrow> mem" where
  "sh_mem st \<equiv> mem (k_machine (sh_kernel st))"

definition with_mem :: "mem \<Rightarrow> shell \<Rightarrow> shell" where
  "with_mem m st = st\<lparr>sh_kernel := (sh_kernel st)\<lparr>k_machine := (k_machine (sh_kernel st))\<lparr>mem := m\<rparr>\<rparr>\<rparr>"

definition print :: "hw \<Rightarrow> string \<Rightarrow> va list \<Rightarrow> kernel \<Rightarrow> kernel res" where
  "print hw fmt args k =
     bind_res (printf hw (lit fmt) args (k_machine k)) (\<lambda>m. ok (k\<lparr>k_machine := m\<rparr>))"

section \<open>System calls\<close>

text \<open>\<open>INVOKE_SYSCALL\<close>: the number goes to \<open>eax\<close>, interrupt 128 is raised.\<close>

definition invoke_syscall :: "hw \<Rightarrow> u32 \<Rightarrow> regs \<Rightarrow> kernel \<Rightarrow> (regs \<times> kernel) res" where
  "invoke_syscall hw n r k = irq_handler hw (r\<lparr>r_eax := n, r_int_no := IRQCODE_SYSCALL\<rparr>) k"

definition lspci :: "hw \<Rightarrow> regs \<Rightarrow> u32 \<Rightarrow> u32 \<Rightarrow> kernel \<Rightarrow> (u32 \<times> kernel) res" where
  "lspci hw r devlist len k =
     bind_res (invoke_syscall hw 3 (r\<lparr>r_ebx := devlist, r_ecx := len\<rparr>) k) (\<lambda>(r, k). ok (r_eax r, k))"

definition lsproc :: "hw \<Rightarrow> regs \<Rightarrow> u32 \<Rightarrow> u32 \<Rightarrow> kernel \<Rightarrow> (u32 \<times> kernel) res" where
  "lsproc hw r proclist len k =
     bind_res (invoke_syscall hw 4 (r\<lparr>r_ebx := proclist, r_ecx := len\<rparr>) k) (\<lambda>(r, k). ok (r_eax r, k))"

definition powerctl :: "hw \<Rightarrow> regs \<Rightarrow> kernel \<Rightarrow> kernel res" where
  "powerctl hw r k = bind_res (invoke_syscall hw 5 r k) (\<lambda>(r, k). ok k)"

section \<open>Commands\<close>

definition cpuid_model :: "u32 \<times> u32 \<times> u32 \<Rightarrow> u8 list" where
  "cpuid_model x =
     (case x of (b, d, c) \<Rightarrow>
      concat (map (\<lambda>w. [ucast (w AND 0xFF), ucast (drop_bit 8 w AND 0xFF), ucast (drop_bit 16 w AND 0xFF),
                       ucast (drop_bit 24 w AND 0xFF)]) [b, d, c]) @ [0])"

definition sh_cpuid :: "hw \<Rightarrow> shell_env \<Rightarrow> kernel \<Rightarrow> kernel res" where
  "sh_cpuid hw env k = print hw ''%s\<newline>'' [Va_ptr (Const (cpuid_model (env_cpuid env)), 0)] k"

definition sh_lspci :: "hw \<Rightarrow> shell_env \<Rightarrow> kernel \<Rightarrow> kernel res" where
  "sh_lspci hw env k =
     bind_res (lspci hw (env_regs env) (env_devlist env) 7 k) (\<lambda>(devices, k).
     for_range 0 (nat (sint devices)) (\<lambda>j k.
       let d = user_devs k (env_devlist env + device_size * of_nat j) in
       bind_res (print hw ''%s %s (%d %d)\<newline>''
         [Va_ptr (Const (vendor_name d), 0), Va_ptr (Const (device_name d), 0),
          Va_int (ucast (class_code d)), Va_int (ucast (subclass_code d))] k) (\<lambda>k.
       bind_res (print hw ''Device ID: %x\<newline>'' [Va_int (ucast (device_id d))] k) (\<lambda>k.
       bind_res (print hw ''Vendor ID: %x\<newline>'' [Va_int (ucast (vendor_id d))] k) (\<lambda>k.
       if 5 < length (bar d)
       then print hw ''Bar 5    : %x %u\<newline>\<newline>'' [Va_int (bar d ! 5), Va_int (bar d ! 5)] k
       else fail Read_oob)))) k)"

definition sh_lsproc :: "hw \<Rightarrow> shell_env \<Rightarrow> kernel \<Rightarrow> kernel res" where
  "sh_lsproc hw env k =
     bind_res (lsproc hw (env_regs env) (env_proclist env) 7 k) (\<lambda>(procs, k).
     for_range 0 (nat (sint procs)) (\<lambda>j k.
       let t = user_procs k (env_proclist env + task_size * of_nat j) in
       bind_res (print hw
         (case ts_state t of TASKSTATE_ready \<Rightarrow> ''R'' | TASKSTATE_blocked \<Rightarrow> ''B'' | _ \<Rightarrow> ''?'') [] k) (\<lambda>k.
       bind_res (print hw '' %d: %s'' [Va_int (ts_pid t), Va_ptr (Phys, ts_process_name t)] k)
         (print hw ''\<newline>'' []))) k)"

definition help_lines :: "string list" where
  "help_lines =
     [''dazzle, the shell for RAZZLE\<newline>'',
      ''--------------------------------------------------------\<newline>'',
      ''help    : print this menu\<newline>'',
      ''cpuid   : print CPU vendor id string\<newline>'',
      ''lspci   : print list of PCI devices\<newline>'',
      ''lsproc  : print list of running processes\<newline>'',
      ''counter : print counter maintained by background process\<newline>'',
      ''shutdown:  shuts down the VM using VM-specific methods\<newline>'']"

definition sh_help :: "hw \<Rightarrow> kernel \<Rightarrow> kernel res" where
  "sh_help hw k = fold_res (\<lambda>l. print hw l []) help_lines k"

definition sh_shutdown :: "hw \<Rightarrow> shell_env \<Rightarrow> kernel \<Rightarrow> kernel res" where
  "sh_shutdown hw env k =
     bind_res (powerctl hw (env_regs env) k)
       (print hw ''If the computer is still on, you must manually power it off. ACPI is not yet implemented.\<newline>'' [])"

definition is_command :: "shell \<Rightarrow> string \<Rightarrow> u8 res" where
  "is_command st name = streq (sh_mem st) command (lit name)"

definition run_command :: "hw \<Rightarrow> shell_env \<Rightarrow> shell \<Rightarrow> kernel res" where
  "run_command hw env st =
     (let k = sh_kernel st in
      bind_res (is_command st ''lspci'') (\<lambda>y. if y \<noteq> 0 then sh_lspci hw env k else
      bind_res (is_command st ''cpuid'') (\<lambda>y. if y \<noteq> 0 then sh_cpuid hw env k else
      bind_res (is_command st ''help'') (\<lambda>y. if y \<noteq> 0 then sh_help hw k else
      bind_res (is_command st ''counter'') (\<lambda>y. if y \<noteq> 0 then print hw ''%d\<newline>'' [Va_int (counter st)] k else
      bind_res (is_command st ''lsproc'') (\<lambda>y. if y \<noteq> 0 then sh_lsproc hw env k else
      bind_res (is_command st ''shutdown'') (\<lambda>y. if y \<noteq> 0 then sh_shutdown hw env k else
      print hw ''Unknown command\<newline>'' [] k)))))))"

section \<open>The loops\<close>

definition prompt :: ptr where
  "prompt = lit ''you@razzle ~$ ''"

definition on_kernel :: "(kernel \<Rightarrow> kernel res) \<Rightarrow> shell \<Rightarrow> shell res" where
  "on_kernel f st = bind_res (f (sh_kernel st)) (\<lambda>k. ok (st\<lparr>sh_kernel := k\<rparr>))"

definition key_action :: "hw \<Rightarrow> shell_env \<Rightarrow> u8 \<Rightarrow> shell \<Rightarrow> shell res" where
  "key_action hw env c st =
     (if c = 0x08 then
        if cmd_len st = 0 then ok st
        else bind_res (store (sh_mem st) (padd command (cmd_len st)) 0) (\<lambda>m.
             on_kernel (print hw (CHR 0x08 # '' '' @ [CHR 0x08]) []) (with_mem m (st\<lparr>cmd_len := cmd_len st - 1\<rparr>)))
      else if c = 0x0A then
        bind_res (store (sh_mem st) (padd command (cmd_len st)) 0) (\<lambda>m.
        bind_res (on_kernel (print hw ''\<newline>'' []) (with_mem m (st\<lparr>cmd_len := 0\<rparr>))) (\<lambda>st.
        bind_res (run_command hw env st) (\<lambda>k.
        on_kernel (print hw ''%s'' [Va_ptr prompt]) (st\<lparr>sh_kernel := k\<rparr>))))
      else
        bind_res (on_kernel (print hw ''%c'' [Va_int (scast c)]) st) (\<lambda>st.
        bind_res (store (sh_mem st) (padd command (cmd_len st)) c) (\<lambda>m.
        ok (with_mem m (st\<lparr>cmd_len := cmd_len st + 1\<rparr>)))))"

definition dazzle_key :: "hw \<Rightarrow> shell_env \<Rightarrow> u8 \<Rightarrow> shell \<Rightarrow> shell res" where
  "dazzle_key hw env c st =
     bind_res (sl_acquire (lock2 st)) (\<lambda>l.
     bind_res (key_action hw env c (st\<lparr>lock2 := l\<rparr>)) (\<lambda>st.
     ok (st\<lparr>lock2 := sl_release (lock2 st)\<rparr>)))"

text \<open>What the shell does before its loop: the prompt, and an empty line.\<close>

definition dazzle_start :: "hw \<Rightarrow> shell \<Rightarrow> shell res" where
  "dazzle_start hw st =
     bind_res (on_kernel (print hw ''%s'' [Va_ptr prompt]) st) (\<lambda>st. ok (st\<lparr>cmd_len := 0\<rparr>))"

definition razzle_start :: "shell \<Rightarrow> shell res" where
  "razzle_start st =
     bind_res (sl_acquire (lock2 st)) (\<lambda>l. ok (st\<lparr>counter := 0, lock2 := sl_release l\<rparr>))"

definition razzle_round :: "shell \<Rightarrow> shell res" where
  "razzle_round st =
     bind_res (sl_acquire (lock2 st)) (\<lambda>l. ok (st\<lparr>counter := counter st + 1, lock2 := sl_release l\<rparr>))"

end
