(* ===== verification/Interrupts.thy ===== *)
theory Interrupts
  imports Irq
begin

text \<open>
  The kernel as a state machine. A state is what the kernel keeps between two interrupts; a step is
  one interrupt, with any registers the interrupted code may have had. \<open>reachable\<close> starts from the
  initialisation in \<open>kernel_main\<close>, lets it start processes, and takes steps.

  \<open>procs_inv\<close> is the invariant: the process table and the list of waiting processes agree. A process
  is blocked exactly when it has a place in that list, no process has two, and every process that
  exists has the address space of its number. \<open>current_ok\<close>: a process is only ever running when it
  is ready. The lemmas show that each operation keeps both.
\<close>

section \<open>The invariant\<close>

abbreviation blocked :: "sched \<Rightarrow> nat \<Rightarrow> bool" where
  "blocked s p \<equiv> state_of s p = TASKSTATE_blocked"

definition one_place_each :: "ps2_waiter_t list \<Rightarrow> bool" where
  "one_place_each ws \<longleftrightarrow>
     (\<forall>i < length ws. \<forall>j < length ws. alloc (ws ! i) \<noteq> 0 \<longrightarrow> alloc (ws ! j) \<noteq> 0 \<longrightarrow>
        waiter_pid (ws ! i) = waiter_pid (ws ! j) \<longrightarrow> i = j)"

definition placed :: "nat \<Rightarrow> task_struct \<Rightarrow> bool" where
  "placed p t \<longleftrightarrow> ts_state t = TASKSTATE_unused \<or>
     (ts_pid t = of_nat p \<and> ts_address_base t = space_base p \<and> ts_process_name t = space_base p
      \<and> ts_allocd_addr t = space_base p + 16)"

definition procs_inv :: "ps2 \<Rightarrow> sched \<Rightarrow> bool" where
  "procs_inv d s \<longleftrightarrow> table_ok s \<and> waiters_ok d \<and> one_place_each (ps2_waiters d) \<and>
     (\<forall>p < MAX_PROCESSES. blocked s p \<longleftrightarrow> waits d p) \<and>
     (\<forall>p < MAX_PROCESSES. placed p (process_table s ! p))"

definition current_ok :: "sched \<Rightarrow> bool" where
  "current_ok s \<longleftrightarrow> current_pid s = 129 \<or>
     (unat (current_pid s) < MAX_PROCESSES \<and> ready s (unat (current_pid s)))"

lemma placed_regs [simp]: "placed p (t\<lparr>ts_registers := r\<rparr>) = placed p t"
  by (simp add: placed_def)

lemma waiters_ok_iff:
  "waiters_ok d \<longleftrightarrow> length (ps2_waiters d) = MAX_PROCESSES \<and>
     (\<forall>i < MAX_PROCESSES. alloc (ps2_waiters d ! i) \<noteq> 0 \<longrightarrow>
        unat (waiter_pid (ps2_waiters d ! i)) < MAX_PROCESSES)"
  by (auto simp: waiters_ok_def all_set_conv_all_nth)

lemma waits_iff:
  "waiters_ok d \<Longrightarrow> waits d p \<longleftrightarrow>
    (\<exists>i < MAX_PROCESSES. alloc (ps2_waiters d ! i) \<noteq> 0 \<and> unat (waiter_pid (ps2_waiters d ! i)) = p)"
  by (auto simp: waits_in_def waiters_ok_def in_set_conv_nth) (metis nth_mem)

section \<open>Timer\<close>

lemma schedule_procs_inv:
  assumes "procs_inv d s" and "schedule r s = ok (r', s')"
  shows "procs_inv d s'" and "current_ok s'"
proof -
  have t: "table_ok s" using assms(1) by (simp add: procs_inv_def)
  obtain q where q: "s' = (saved r s)\<lparr>current_pid := of_nat q\<rparr>"
    using t assms(2) by (rule schedule_cases)
  have "placed p (process_table s' ! p) = placed p (process_table s ! p)" if "p < 128" for p
    using t that by (simp add: q saved_nth)
  with assms schedule_keeps [OF t assms(2)] show "procs_inv d s'" "current_ok s'"
    by (auto simp: procs_inv_def current_ok_def)
qed

section \<open>Keys\<close>

lemma waits_calm [simp]: "waits_in n (map calm ws) p = False"
  by (simp add: waits_in_def calm_def take_map)

lemma keypress_procs_inv:
  assumes "procs_inv d s" and "current_ok s" and "handle_keypress_char c (d, s) = ok (d', s')"
  shows "procs_inv d' s'" and "current_ok s'"
proof -
  have len: "length (process_table s) = 128" "length (ps2_waiters d) = 128"
    using assms(1) by (simp_all add: procs_inv_def table_ok_def waiters_ok_def)
  have "procs_inv d' s' \<and> current_ok s'"
  proof (cases "c = 0")
    case True
    then show ?thesis using assms by (simp add: handle_keypress_char_0)
  next
    case False
    have eq: "d' = d\<lparr>ps2_waiters := map calm (ps2_waiters d)\<rparr>"
        "s' = s\<lparr>process_table := wake_all c (waits d) (process_table s)\<rparr>"
      using assms(1,3) False by (auto simp: procs_inv_def handle_keypress_char_eq)
    have state: "state_of s' p = (if waits d p then TASKSTATE_ready else state_of s p)" if "p < 128" for p
      using that len by (simp add: eq state_of_def wake_all_nth wake_def)
    have "waiters_ok d'" "one_place_each (ps2_waiters d')"
      using len by (auto simp: eq waiters_ok_def one_place_each_def calm_def)
    moreover have "placed p (process_table s' ! p)" if "p < 128" for p
    proof -
      have "placed p (process_table s ! p)" "blocked s p \<longleftrightarrow> waits d p"
        using assms(1) that by (simp_all add: procs_inv_def)
      then show ?thesis
        using that len by (auto simp: eq wake_all_nth wake_def placed_def state_of_def)
    qed
    moreover have "blocked s' p \<longleftrightarrow> waits d' p" if "p < 128" for p
      using that assms(1) by (simp add: state) (simp add: eq procs_inv_def)
    moreover have "current_ok s'"
      using assms(2) state [of "unat (current_pid s)"] by (auto simp: current_ok_def eq)
    ultimately show ?thesis using len by (simp add: procs_inv_def table_ok_def eq)
  qed
  then show "procs_inv d' s'" "current_ok s'" by auto
qed

section \<open>System calls\<close>

lemma free_place:
  assumes "waiters_ok d" and "one_place_each (ps2_waiters d)" and "p < MAX_PROCESSES" and "\<not> waits d p"
  shows "\<exists>i < MAX_PROCESSES. alloc (ps2_waiters d ! i) = 0"
proof (rule ccontr)
  assume "\<not> ?thesis"
  then have taken: "alloc (ps2_waiters d ! i) \<noteq> 0" if "i < 128" for i using that by blast
  let ?f = "\<lambda>i. unat (waiter_pid (ps2_waiters d ! i))"
  have len: "length (ps2_waiters d) = 128" using assms(1) by (simp add: waiters_ok_def)
  have "inj_on ?f {..<128}"
    using taken assms(2) len by (auto simp: inj_on_def one_place_each_def word_unat_eq_iff)
  moreover have "?f ` {..<128} \<subseteq> {..<128} - {p}"
    using taken assms(1,4) unfolding waiters_ok_iff waits_iff [OF assms(1)] by auto
  ultimately have "card {..<128::nat} \<le> card ({..<128} - {p})"
    by (intro card_inj_on_le) auto
  then show False using assms(3) by simp
qed

lemma add_waiter_eq:
  assumes "length (ps2_waiters d) = MAX_PROCESSES" and "i < MAX_PROCESSES"
    and "alloc (ps2_waiters d ! i) = 0" and "\<forall>j < i. alloc (ps2_waiters d ! j) \<noteq> 0"
  shows "add_waiter pid d =
    ok (d\<lparr>ps2_waiters := (ps2_waiters d)[i := (ps2_waiters d ! i)\<lparr>alloc := 1, waiter_pid := pid\<rparr>]\<rparr>)"
    (is "_ = ok ?d")
proof -
  have "for_exit 0 128 (\<lambda>i d.
          bind_res (wt_get (ps2_waiters d) (of_nat i)) (\<lambda>w.
          if alloc w = 0
          then bind_res (wt_update (of_nat i) (\<lambda>w. w\<lparr>alloc := 1\<rparr>) d) (\<lambda>d.
               bind_res (wt_update (of_nat i) (\<lambda>w. w\<lparr>waiter_pid := pid\<rparr>) d) (\<lambda>d.
               ok (Stop d)))
          else ok (Next d))) d = ok (Stop ?d)"
    using assms by (intro for_exit_stop [where k = i and F = "\<lambda>_. d"])
      (simp_all add: wt_get_def wt_update_def)
  then show ?thesis by (simp add: add_waiter_def)
qed

lemma waits_add:
  assumes "waiters_ok d" and "i < MAX_PROCESSES" and "alloc (ps2_waiters d ! i) = 0" and "p < MAX_PROCESSES"
    and "d' = d\<lparr>ps2_waiters := (ps2_waiters d)[i := (ps2_waiters d ! i)\<lparr>alloc := 1, waiter_pid := of_nat p\<rparr>]\<rparr>"
  shows "waiters_ok d'" and "waits d' q \<longleftrightarrow> waits d q \<or> q = p"
    and "one_place_each (ps2_waiters d) \<Longrightarrow> \<not> waits d p \<Longrightarrow> one_place_each (ps2_waiters d')"
proof -
  have len: "length (ps2_waiters d) = 128" using assms(1) by (simp add: waiters_ok_def)
  have nth: "ps2_waiters d' ! j = (if j = i then (ps2_waiters d ! i)\<lparr>alloc := 1, waiter_pid := of_nat p\<rparr>
      else ps2_waiters d ! j)" if "j < 128" for j
    using that len assms(5) by (simp add: nth_list_update)
  have len': "length (ps2_waiters d') = 128" by (simp add: assms(5) len)
  show ok: "waiters_ok d'"
    using assms(1,2,4) len' by (auto simp: waiters_ok_iff nth)
  have "waits d' q \<longleftrightarrow> (\<exists>j < 128. if j = i then q = p
      else alloc (ps2_waiters d ! j) \<noteq> 0 \<and> unat (waiter_pid (ps2_waiters d ! j)) = q)"
    unfolding waits_iff [OF ok] by (rule ex_cong) (use assms(4) in \<open>auto simp: nth\<close>)
  then show "waits d' q \<longleftrightarrow> waits d q \<or> q = p"
    using assms(2,3) unfolding waits_iff [OF assms(1)] by auto
  show "one_place_each (ps2_waiters d')" if "one_place_each (ps2_waiters d)" "\<not> waits d p"
  proof -
    have other: "waiter_pid (ps2_waiters d ! j) \<noteq> of_nat p"
      if "j < 128" "alloc (ps2_waiters d ! j) \<noteq> 0" for j
      using that \<open>\<not> waits d p\<close> assms(4) unfolding waits_iff [OF assms(1)] by auto
    show ?thesis
      unfolding one_place_each_def len'
    proof (intro allI impI)
      fix j k assume *: "j < 128" "k < 128" "alloc (ps2_waiters d' ! j) \<noteq> 0"
        "alloc (ps2_waiters d' ! k) \<noteq> 0" "waiter_pid (ps2_waiters d' ! j) = waiter_pid (ps2_waiters d' ! k)"
      have "j \<noteq> i \<Longrightarrow> alloc (ps2_waiters d ! j) \<noteq> 0" "k \<noteq> i \<Longrightarrow> alloc (ps2_waiters d ! k) \<noteq> 0"
        using * by (simp_all add: nth)
      moreover have "j = k" if "j \<noteq> i" "k \<noteq> i"
        using that calculation * \<open>one_place_each (ps2_waiters d)\<close> unfolding one_place_each_def len
        by (simp only: nth if_False) blast
      ultimately show "j = k"
        using * other [of j] other [of k] by (cases "j = i"; cases "k = i") (simp_all add: nth)
    qed
  qed
qed

lemma current_unat: "unat (current_pid s) < MAX_PROCESSES \<Longrightarrow> of_nat (unat (current_pid s)) = current_pid s"
  by simp

text \<open>Changing the state of the current process, the first action of \<open>getc\<close> and \<open>exit\<close>.\<close>

definition with_state :: "task_state_t \<Rightarrow> sched \<Rightarrow> sched" where
  "with_state st s = s\<lparr>process_table := (process_table s)[unat (current_pid s) :=
     (process_table s ! unat (current_pid s))\<lparr>ts_state := st\<rparr>]\<rparr>"

lemma with_state_simps [simp]:
  "table_ok (with_state st s) = table_ok s" "current_pid (with_state st s) = current_pid s"
  by (simp_all add: with_state_def)

lemma pt_update_state:
  "table_ok s \<Longrightarrow> unat (current_pid s) < MAX_PROCESSES \<Longrightarrow>
   pt_update (current_pid s) (\<lambda>t. t\<lparr>ts_state := st\<rparr>) s = ok (with_state st s)"
  by (simp add: pt_update_def table_ok_def with_state_def)

lemma with_state_nth:
  "table_ok s \<Longrightarrow> unat (current_pid s) < MAX_PROCESSES \<Longrightarrow> p < MAX_PROCESSES \<Longrightarrow>
   process_table (with_state st s) ! p =
     (if p = unat (current_pid s) then (process_table s ! p)\<lparr>ts_state := st\<rparr> else process_table s ! p)"
  by (auto simp: with_state_def table_ok_def nth_list_update)

lemma state_of_with_state:
  "table_ok s \<Longrightarrow> unat (current_pid s) < MAX_PROCESSES \<Longrightarrow> p < MAX_PROCESSES \<Longrightarrow>
   state_of (with_state st s) p = (if p = unat (current_pid s) then st else state_of s p)"
  by (simp add: state_of_def with_state_nth)

lemma with_state_procs:
  assumes "procs_inv d s" and "unat (current_pid s) < MAX_PROCESSES" and "ready s (unat (current_pid s))"
    and "waiters_ok d'" and "one_place_each (ps2_waiters d')"
    and "\<And>p. p < MAX_PROCESSES \<Longrightarrow> waits d' p \<longleftrightarrow> waits d p \<or> (p = unat (current_pid s) \<and> st = TASKSTATE_blocked)"
  shows "procs_inv d' (with_state st s)"
proof -
  have t: "table_ok s" using assms(1) by (simp add: procs_inv_def)
  have "blocked (with_state st s) p \<longleftrightarrow> waits d' p" if "p < 128" for p
    using that assms(1,3) assms(6) [OF that] t assms(2)
    by (auto simp: procs_inv_def state_of_with_state)
  moreover have "placed p (process_table (with_state st s) ! p)" if "p < 128" for p
    using that assms(1-3) t by (auto simp: procs_inv_def with_state_nth placed_def state_of_def)
  ultimately show ?thesis using assms(4,5) t by (simp add: procs_inv_def)
qed

text \<open>\<open>getc\<close>: the process is blocked, has a place in the list, and the next one runs.\<close>

lemma getc_blocks:
  assumes "procs_inv d s" and "unat (current_pid s) < MAX_PROCESSES" and "ready s (unat (current_pid s))"
  shows "\<exists>d'. add_waiter (current_pid s) d = ok d' \<and> procs_inv d' (with_state TASKSTATE_blocked s) \<and>
    waits d' (unat (current_pid s)) \<and>
    (\<forall>r. syscall_getc r (d, s) =
      bind_res (schedule r (with_state TASKSTATE_blocked s)) (\<lambda>(r, s). ok (r, d', s)))"
proof -
  let ?p = "unat (current_pid s)"
  have inv: "table_ok s" "waiters_ok d" "one_place_each (ps2_waiters d)" "\<not> waits d ?p"
    using assms by (auto simp: procs_inv_def)
  obtain i0 where "i0 < 128 \<and> alloc (ps2_waiters d ! i0) = 0"
    using free_place [OF inv(2,3) assms(2) inv(4)] by blast
  then obtain i where i: "i < 128" "alloc (ps2_waiters d ! i) = 0"
      "\<forall>j < i. alloc (ps2_waiters d ! j) \<noteq> 0"
    by (rule first_nat) (use that in force)
  define d' where "d' = d\<lparr>ps2_waiters := (ps2_waiters d)[i :=
      (ps2_waiters d ! i)\<lparr>alloc := 1, waiter_pid := of_nat ?p\<rparr>]\<rparr>"
  have add: "add_waiter (current_pid s) d = ok d'"
    using add_waiter_eq [OF _ i] inv(2) by (simp add: d'_def waiters_ok_iff)
  have "procs_inv d' (with_state TASKSTATE_blocked s)"
    using waits_add [OF inv(2) i(1,2) assms(2) d'_def] inv(3,4)
    by (intro with_state_procs [OF assms]) auto
  moreover have "syscall_getc r (d, s) =
      bind_res (schedule r (with_state TASKSTATE_blocked s)) (\<lambda>(r, s). ok (r, d', s))" for r
    using inv(1) assms(2) add by (simp add: syscall_getc_def pt_update_state syscall_yield_def)
  moreover have "waits d' ?p"
    using waits_add(2) [OF inv(2) i(1,2) assms(2) d'_def] by blast
  ultimately show ?thesis using add by blast
qed

lemma getc_procs_inv:
  assumes "procs_inv d s" and "current_ok s" and "unat (current_pid s) < MAX_PROCESSES"
    and "syscall_getc r (d, s) = ok (r', d', s')"
  shows "procs_inv d' s'" and "current_ok s'"
proof -
  have "ready s (unat (current_pid s))"
    using assms(2,3) by (auto simp: current_ok_def)
  then obtain d1 where d1: "procs_inv d1 (with_state TASKSTATE_blocked s)"
      "\<forall>r. syscall_getc r (d, s) = bind_res (schedule r (with_state TASKSTATE_blocked s)) (\<lambda>(r, s). ok (r, d1, s))"
    using getc_blocks [OF assms(1,3)] by blast
  have "bind_res (schedule r (with_state TASKSTATE_blocked s)) (\<lambda>(r, s). ok (r, d1, s)) = ok (r', d', s')"
    using assms(4) d1(2) by simp
  then obtain y where y: "schedule r (with_state TASKSTATE_blocked s) = ok y"
      "(case y of (r, s) \<Rightarrow> ok (r, d1, s)) = ok (r', d', s')"
    by (rule bind_res_okE)
  then have "schedule r (with_state TASKSTATE_blocked s) = ok (r', s')" "d' = d1"
    by (cases y; simp)+
  then show "procs_inv d' s'" "current_ok s'"
    using schedule_procs_inv [OF d1(1)] by auto
qed

lemma exit_procs_inv:
  assumes "procs_inv d s" and "current_ok s" and "unat (current_pid s) < MAX_PROCESSES"
    and "syscall_exit r s = ok (r', s')"
  shows "procs_inv d s'" and "current_ok s'"
proof -
  have t: "table_ok s" "waiters_ok d" "one_place_each (ps2_waiters d)"
    using assms(1) by (simp_all add: procs_inv_def)
  have rdy: "ready s (unat (current_pid s))"
    using assms(2,3) by (auto simp: current_ok_def)
  have "procs_inv d (with_state TASKSTATE_unused s)"
    using t by (intro with_state_procs [OF assms(1,3) rdy]) auto
  moreover have "schedule r (with_state TASKSTATE_unused s) = ok (r', s')"
    using assms(3,4) t by (simp add: syscall_exit_def pt_update_state syscall_yield_def)
  ultimately show "procs_inv d s'" "current_ok s'"
    by (rule schedule_procs_inv)+
qed

section \<open>Interrupts\<close>

definition kinv :: "kernel \<Rightarrow> bool" where
  "kinv k \<longleftrightarrow> procs_inv (k_ps2 k) (k_sched k) \<and> current_ok (k_sched k)"

text \<open>A system call comes from a process.\<close>

definition from_process :: "regs \<Rightarrow> kernel \<Rightarrow> bool" where
  "from_process r k \<longleftrightarrow> (r_int_no r = IRQCODE_SYSCALL \<longrightarrow> unat (current_pid (k_sched k)) < MAX_PROCESSES)"

inductive kstep :: "hw \<Rightarrow> kernel \<Rightarrow> kernel \<Rightarrow> bool" for hw where
  interrupt: "from_process r k \<Longrightarrow> irq_handler hw r k = ok (r', k') \<Longrightarrow> kstep hw k k'"

inductive_cases kstepE: "kstep hw k k'"

lemma handle_keypress_cases:
  assumes "handle_keypress code (d, s) = ok (d', s')"
  shows "(s' = s \<and> ps2_waiters d' = ps2_waiters d) \<or> (\<exists>c. handle_keypress_char c (d, s) = ok (d', s'))"
proof -
  obtain is_down key where "(if code AND 0xC0 = 0x80 then (0, code AND 0x3F) else (1, code)) = (is_down :: u8, key)"
    by (cases "if code AND 0xC0 = 0x80 then (0 :: u8, code AND 0x3F) else (1, code)")
  note eq = assms [unfolded handle_keypress_def this Let_def prod.case]
  show ?thesis
  proof (cases "map_of key_codes key")
    case None
    with eq show ?thesis by (auto simp: handle_keypress_char_0 split: if_splits)
  next
    case (Some k)
    then show ?thesis using eq
      by (cases k) (simp_all only: option.case key_code_t.case split: if_splits, auto)
  qed
qed

text \<open>What one interrupt does to the processes, by its kind.\<close>

datatype effect = Quiet | Switch | Getc | Exit | Typed u8

definition has_effect :: "effect \<Rightarrow> regs \<Rightarrow> kernel \<Rightarrow> kernel \<Rightarrow> bool" where
  "has_effect e r k k' \<longleftrightarrow>
     (case e of
        Quiet \<Rightarrow> k_sched k' = k_sched k \<and> ps2_waiters (k_ps2 k') = ps2_waiters (k_ps2 k)
      | Switch \<Rightarrow> (\<exists>r'. schedule r (k_sched k) = ok (r', k_sched k')) \<and> k_ps2 k' = k_ps2 k
      | Getc \<Rightarrow> unat (current_pid (k_sched k)) < MAX_PROCESSES \<and>
          (\<exists>r'. syscall_getc r (k_ps2 k, k_sched k) = ok (r', k_ps2 k', k_sched k'))
      | Exit \<Rightarrow> unat (current_pid (k_sched k)) < MAX_PROCESSES \<and>
          (\<exists>r'. syscall_exit r (k_sched k) = ok (r', k_sched k')) \<and> k_ps2 k' = k_ps2 k
      | Typed c \<Rightarrow> handle_keypress_char c (k_ps2 k, k_sched k) = ok (k_ps2 k', k_sched k'))"

lemma syscall_effect:
  assumes "syscall hw r k = ok (r', k')" and "unat (current_pid (k_sched k)) < MAX_PROCESSES"
  obtains e where "has_effect e r k k'"
proof (cases "map_of syscall_numbers (r_eax r)")
  case None
  with assms that [of Quiet] show thesis by (simp add: syscall_def has_effect_def)
next
  case (Some n)
  note eq = assms(1) [unfolded syscall_def Some option.case]
  show thesis
  proof (cases n)
    case SYSCALL_yield
    with eq that [of Switch] show thesis
      by (auto simp: has_effect_def syscall_yield_def bind_res_eq_ok)
  next
    case SYSCALL_getc
    with eq that [of Getc] assms(2) show thesis by (auto simp: has_effect_def bind_res_eq_ok)
  next
    case SYSCALL_exit
    with eq that [of Exit] assms(2) show thesis by (auto simp: has_effect_def bind_res_eq_ok)
  next
    case SYSCALL_lspci
    with eq that [of Quiet] show thesis by (auto simp: has_effect_def bind_res_eq_ok)
  next
    case SYSCALL_lsproc
    with eq that [of Quiet] show thesis by (auto simp: has_effect_def bind_res_eq_ok)
  next
    case SYSCALL_powerctl
    with eq that [of Quiet] show thesis by (auto simp: has_effect_def bind_res_eq_ok)
  qed
qed

text \<open>The end-of-interrupt at the end of the handler leaves the processes alone.\<close>

lemma has_effect_machine [simp]: "has_effect e r k (k'\<lparr>k_machine := m\<rparr>) = has_effect e r k k'"
  by (simp add: has_effect_def split: effect.split)

lemma irq_effect:
  assumes "irq_handler hw r k = ok (r', k')" and "from_process r k"
  obtains e where "has_effect e r k k'"
proof -
  obtain r1 k1 where handled: "(if r_int_no r = IRQCODE_SYSCALL then syscall hw r k
        else if r_int_no r = IRQCODE_PIT
             then bind_res (schedule r (k_sched k)) (\<lambda>(r, s). ok (r, k\<lparr>k_sched := s\<rparr>))
        else if r_int_no r = IRQCODE_PS2
             then bind_res (kb_handler hw k) (\<lambda>k. ok (r, k))
        else if r_int_no r = IRQCODE_COM1
             then bind_res (com1_handler hw k) (\<lambda>k. ok (r, k))
        else ok (r, k)) = ok (r1, k1)"
      and k': "k' = k1\<lparr>k_machine := (k_machine k1)\<lparr>io_log := send_eoi (r_int_no r1) (io_log (k_machine k1))\<rparr>\<rparr>"
    using assms(1) unfolding irq_handler_def by (auto simp only: bind_res_eq_ok prod.case split_paired_Ex
        option.inject sum.inject prod.inject)
  consider "r_int_no r = IRQCODE_SYSCALL" | "r_int_no r = IRQCODE_PIT" | "r_int_no r = IRQCODE_PS2"
    | "r_int_no r = IRQCODE_COM1" | "r_int_no r \<notin> {IRQCODE_SYSCALL, IRQCODE_PIT, IRQCODE_PS2, IRQCODE_COM1}"
    by auto
  then obtain e where "has_effect e r k k1"
  proof cases
    case 1
    with handled assms(2) that show thesis
      by (auto simp: from_process_def elim: syscall_effect)
  next
    case 2
    with handled that [of Switch] show thesis by (auto simp: bind_res_eq_ok has_effect_def)
  next
    case 3
    then have "kb_handler hw k = ok k1" using handled by (auto simp: bind_res_eq_ok)
    then obtain code where "handle_keypress code (k_ps2 k, k_sched k) = ok (k_ps2 k1, k_sched k1)"
      by (auto simp: kb_handler_def inb_def Let_def bind_res_eq_ok)
    from handle_keypress_cases [OF this] show thesis
    proof (elim disjE conjE exE)
      assume "k_sched k1 = k_sched k" "ps2_waiters (k_ps2 k1) = ps2_waiters (k_ps2 k)"
      then show thesis using that [of Quiet] by (simp add: has_effect_def)
    next
      fix c assume "handle_keypress_char c (k_ps2 k, k_sched k) = ok (k_ps2 k1, k_sched k1)"
      then show thesis using that [of "Typed c"] by (simp add: has_effect_def)
    qed
  next
    case 4
    then have "com1_handler hw k = ok k1" using handled by (auto simp: bind_res_eq_ok)
    then obtain c where "handle_keypress_char c (k_ps2 k, k_sched k) = ok (k_ps2 k1, k_sched k1)"
      by (auto simp: com1_handler_def Let_def bind_res_eq_ok)
    with that [of "Typed c"] show thesis by (simp add: has_effect_def)
  next
    case 5
    with handled that [of Quiet] show thesis by (simp add: has_effect_def)
  qed
  with k' that show thesis by simp
qed

lemma procs_inv_waiters:
  "ps2_waiters d' = ps2_waiters d \<Longrightarrow> procs_inv d' s = procs_inv d s"
  by (simp add: procs_inv_def waiters_ok_def)

lemma effect_kinv:
  assumes "kinv k" and "has_effect e r k k'"
  shows "kinv k'"
proof -
  have inv: "procs_inv (k_ps2 k) (k_sched k)" "current_ok (k_sched k)"
    using assms(1) by (simp_all add: kinv_def)
  note eff = assms(2) [unfolded has_effect_def]
  show ?thesis
  proof (cases e)
    case Quiet
    with eff inv procs_inv_waiters [of "k_ps2 k'" "k_ps2 k" "k_sched k"] show ?thesis
      by (simp add: kinv_def)
  next
    case Switch
    with eff obtain r' where "schedule r (k_sched k) = ok (r', k_sched k')" "k_ps2 k' = k_ps2 k" by auto
    with schedule_procs_inv [OF inv(1) this(1)] show ?thesis by (simp add: kinv_def)
  next
    case Getc
    with eff obtain r' where cur: "unat (current_pid (k_sched k)) < 128"
      and "syscall_getc r (k_ps2 k, k_sched k) = ok (r', k_ps2 k', k_sched k')" by auto
    with getc_procs_inv [OF inv this] show ?thesis by (simp add: kinv_def)
  next
    case Exit
    with eff obtain r' where cur: "unat (current_pid (k_sched k)) < 128"
      and "syscall_exit r (k_sched k) = ok (r', k_sched k')" and "k_ps2 k' = k_ps2 k" by auto
    with exit_procs_inv [OF inv this(1,2)] show ?thesis by (simp add: kinv_def)
  next
    case (Typed c)
    with eff have "handle_keypress_char c (k_ps2 k, k_sched k) = ok (k_ps2 k', k_sched k')" by simp
    from keypress_procs_inv [OF inv this] show ?thesis by (simp add: kinv_def)
  qed
qed

lemma kstep_kinv:
  assumes "kstep hw k k'" and "kinv k"
  shows "kinv k'"
  using assms(1)
proof (rule kstepE)
  fix r r' assume "from_process r k" "irq_handler hw r k = ok (r', k')"
  then obtain e where "has_effect e r k k'" using irq_effect by blast
  with assms(2) show "kinv k'" by (rule effect_kinv)
qed

text \<open>Initialisation and the processes \<open>kernel_main\<close> starts.\<close>

inductive reachable :: "hw \<Rightarrow> kernel \<Rightarrow> bool" for hw where
  boot: "length (process_table (k_sched k)) = MAX_PROCESSES \<Longrightarrow>
    length (ps2_waiters (k_ps2 k)) = MAX_PROCESSES \<Longrightarrow>
    init_process_table (k_sched k) = ok s \<Longrightarrow> init_ps2 (k_ps2 k) = ok d \<Longrightarrow>
    reachable hw (k\<lparr>k_sched := s, k_ps2 := d\<rparr>)"
| start: "reachable hw k \<Longrightarrow>
    start_process (lit name) entrypoint (k_sched k) (mem (k_machine k)) = ok (s, m) \<Longrightarrow>
    0 \<notin> set (bytes_of name) \<Longrightarrow> length name < 4294967295 \<Longrightarrow>
    reachable hw (k\<lparr>k_sched := s, k_machine := (k_machine k)\<lparr>mem := m\<rparr>\<rparr>)"
| step: "reachable hw k \<Longrightarrow> kstep hw k k' \<Longrightarrow> reachable hw k'"

lemma boot_kinv:
  assumes "table_ok s" and "length (ps2_waiters d) = MAX_PROCESSES"
    and "init_process_table s = ok s'" and "init_ps2 d = ok d'"
  shows "procs_inv d' s'" and "current_ok s'"
proof -
  have s': "s' = s\<lparr>process_table := map (\<lambda>t. t\<lparr>ts_state := TASKSTATE_unused\<rparr>) (process_table s), current_pid := 129\<rparr>"
    using assms(1,3) by (simp add: init_process_table_eq)
  have d': "d' = d\<lparr>ps2_waiters := map (\<lambda>w. w\<lparr>alloc := 0\<rparr>) (ps2_waiters d)\<rparr>"
    using assms(2,4) by (simp add: init_ps2_eq)
  show "procs_inv d' s'" "current_ok s'"
    using assms(1,2)
    by (simp_all add: s' d' procs_inv_def current_ok_def table_ok_def waiters_ok_iff one_place_each_def
        state_of_def placed_def waits_in_def)
qed

lemma start_procs_inv:
  assumes "procs_inv d s" and "current_ok s" and "start_process name entrypoint s m = ok (s', m')"
    and "cstring m name xs"
    and "\<And>p. p < MAX_PROCESSES \<Longrightarrow> disjoint (Phys, space_base p) 16 name (Suc (length xs))"
  shows "procs_inv d s'" and "current_ok s'"
proof -
  have t: "table_ok s" using assms(1) by (simp add: procs_inv_def)
  obtain p where p: "first_on_ring (\<lambda>p. state_of s p = TASKSTATE_unused) 0 p"
    using start_process_hangs [OF t, of name entrypoint m] assms(3)
      first_on_ring_exists [of "\<lambda>p. state_of s p = TASKSTATE_unused" _ 0] by (metis option.distinct(1))
  have p128: "p < 128" "state_of s p = TASKSTATE_unused" using first_on_ring_less [OF p] by auto
  have s': "s' = s\<lparr>process_table := (process_table s)[p := started p entrypoint (process_table s ! p)]\<rparr>"
    using start_process_eq [OF t p assms(4)] assms(3,5) p128 by auto
  have nth: "process_table s' ! q = (if q = p then started p entrypoint (process_table s ! p) else process_table s ! q)"
    if "q < 128" for q using that t by (simp add: s' table_ok_def nth_list_update)
  have state: "state_of s' q = (if q = p then TASKSTATE_ready else state_of s q)" if "q < 128" for q
    using that by (simp add: state_of_def nth started_def)
  have "placed q (process_table s' ! q)" if "q < 128" for q
    using that assms(1) by (simp add: nth procs_inv_def) (simp add: placed_def started_def)
  moreover have "blocked s' q \<longleftrightarrow> waits d q" if "q < 128" for q
  proof -
    have "blocked s q \<longleftrightarrow> waits d q" "blocked s p \<longleftrightarrow> waits d p"
      using that p128(1) assms(1) unfolding procs_inv_def by blast+
    then show ?thesis using that p128 by (auto simp: state)
  qed
  ultimately show "procs_inv d s'"
    using assms(1) by (simp add: procs_inv_def s')
  show "current_ok s'"
    using assms(2) state [of "unat (current_pid s)"] by (auto simp: current_ok_def s')
qed

lemma reachable_kinv: "reachable hw k \<Longrightarrow> kinv k"
proof (induction rule: reachable.induct)
  case (boot k s d)
  then show ?case using boot_kinv [of "k_sched k" "k_ps2 k" s d] by (simp add: kinv_def table_ok_def)
next
  case (start k name entrypoint s m)
  have c: "cstring (mem (k_machine k)) (lit name) (bytes_of name)"
    using start.hyps(3,4) by (intro cstring_lit)
  have dis: "disjoint (Phys, space_base p) 16 (lit name) (Suc (length (bytes_of name)))" for p
    by (simp add: disjoint_def lit_def)
  have "procs_inv (k_ps2 k) (k_sched k)" "current_ok (k_sched k)"
    using start.IH by (simp_all add: kinv_def)
  from start_procs_inv [OF this start.hyps(2) c dis] show ?case by (simp add: kinv_def)
next
  case (step k k')
  then show ?case by (simp add: kstep_kinv)
qed

end
