(* ===== verification/Delivery.thy ===== *)
theory Delivery
  imports Interrupts
begin

text \<open>
  What follows from the invariant of \<open>Interrupts\<close>: which interrupts cannot go wrong, what happens to a
  process between its call of \<open>getc\<close> and the character, and when the kernel stops for good.
\<close>

section \<open>A process that waits\<close>

lemma effect_keeps_blocked:
  assumes "kinv k" and "has_effect e r k k'" and "p < MAX_PROCESSES" and "blocked (k_sched k) p"
  shows "process_table (k_sched k') ! p = process_table (k_sched k) ! p \<or>
    (\<exists>c. c \<noteq> 0 \<and> e = Typed c \<and>
       process_table (k_sched k') ! p = wake c (process_table (k_sched k) ! p))"
proof -
  let ?s = "k_sched k" and ?d = "k_ps2 k"
  have inv: "procs_inv ?d ?s" "current_ok ?s" "table_ok ?s" "waiters_ok ?d"
    using assms(1) by (simp_all add: kinv_def procs_inv_def)
  have cur: "p \<noteq> unat (current_pid ?s)"
    using inv(2) assms(3,4) by (auto simp: current_ok_def)
  have switch: "process_table s' ! p = process_table s ! p"
    if sch: "schedule r s = ok (r', s')" and t: "table_ok s" and ne: "p \<noteq> unat (current_pid s)" for s r' s'
  proof -
    obtain q where "s' = (saved r s)\<lparr>current_pid := of_nat q\<rparr>"
      using t sch by (rule schedule_cases)
    then show ?thesis using t ne assms(3) by (simp add: saved_nth)
  qed
  have state: "process_table (with_state st ?s) ! p = process_table ?s ! p"
    if "unat (current_pid ?s) < 128" for st
    using that inv(3) cur assms(3) by (simp add: with_state_nth)
  note eff = assms(2) [unfolded has_effect_def]
  show ?thesis
  proof (cases e)
    case Quiet
    with eff show ?thesis by simp
  next
    case Switch
    with eff obtain r' where "schedule r ?s = ok (r', k_sched k')" by auto
    from switch [OF this inv(3) cur] show ?thesis by simp
  next
    case Getc
    with eff obtain r' where c: "unat (current_pid ?s) < 128"
      and g: "syscall_getc r (?d, ?s) = ok (r', k_ps2 k', k_sched k')" by auto
    have "ready ?s (unat (current_pid ?s))" using inv(2) c by (auto simp: current_ok_def)
    then obtain d1 where "syscall_getc r (?d, ?s) =
        bind_res (schedule r (with_state TASKSTATE_blocked ?s)) (\<lambda>(r, s). ok (r, d1, s))"
      using getc_blocks [OF inv(1) c] by blast
    with g have "schedule r (with_state TASKSTATE_blocked ?s) = ok (r', k_sched k')"
      by (auto simp: bind_res_eq_ok)
    from switch [OF this] inv(3) cur state [OF c] show ?thesis by simp
  next
    case Exit
    with eff obtain r' where c: "unat (current_pid ?s) < 128"
      and "syscall_exit r ?s = ok (r', k_sched k')" by auto
    then have "schedule r (with_state TASKSTATE_unused ?s) = ok (r', k_sched k')"
      using inv(3) by (simp add: syscall_exit_def pt_update_state syscall_yield_def)
    from switch [OF this] inv(3) cur state [OF c] show ?thesis by simp
  next
    case (Typed c)
    with eff have key: "handle_keypress_char c (?d, ?s) = ok (k_ps2 k', k_sched k')" by simp
    show ?thesis
    proof (cases "c = 0")
      case True
      with key show ?thesis by (simp add: handle_keypress_char_0)
    next
      case False
      then have "k_sched k' = ?s\<lparr>process_table := wake_all c (waits ?d) (process_table ?s)\<rparr>"
        using key inv by (simp add: handle_keypress_char_eq)
      moreover have "waits ?d p" using inv(1) assms(3,4) by (simp add: procs_inv_def)
      ultimately show ?thesis
        using False Typed inv(3) assms(3) by (auto simp: table_ok_def wake_all_nth)
    qed
  qed
qed

lemma wake_ready: "ts_state (wake c t) = TASKSTATE_ready"
  by (simp add: wake_def)

text \<open>As long as it stays blocked, nothing of it changes.\<close>

definition step_blocked :: "hw \<Rightarrow> nat \<Rightarrow> kernel \<Rightarrow> kernel \<Rightarrow> bool" where
  "step_blocked hw p k k' \<longleftrightarrow> kstep hw k k' \<and> blocked (k_sched k') p"

lemma steps_blocked_keep:
  assumes "(step_blocked hw p)\<^sup>*\<^sup>* k k'" and "kinv k" and "p < MAX_PROCESSES" and "blocked (k_sched k) p"
  shows "kinv k' \<and> blocked (k_sched k') p \<and>
    process_table (k_sched k') ! p = process_table (k_sched k) ! p"
  using assms(1)
proof (induction rule: rtranclp_induct)
  case base
  then show ?case using assms by simp
next
  case (step y z)
  have st: "kstep hw y z" "blocked (k_sched z) p" using step.hyps(2) by (simp_all add: step_blocked_def)
  from st(1) obtain e r where e: "has_effect e r y z"
    by (rule kstepE) (blast elim: irq_effect)
  have "process_table (k_sched z) ! p = process_table (k_sched y) ! p"
    using effect_keeps_blocked [OF _ e assms(3)] step.IH st(2) by (auto simp: state_of_def wake_ready)
  then show ?case using step.IH st kstep_kinv by simp
qed

text \<open>The state a process is left in by \<open>getc\<close>.\<close>

lemma getc_leaves:
  assumes "kinv k" and "unat (current_pid (k_sched k)) = p" and "p < MAX_PROCESSES"
    and "syscall_getc r (k_ps2 k, k_sched k) = ok (r1, d1, s1)"
  shows "blocked s1 p" and "unat (current_pid s1) \<noteq> p"
    and "user_view (ts_registers (process_table s1 ! p)) = user_view r"
proof -
  let ?s = "k_sched k"
  let ?b = "with_state TASKSTATE_blocked ?s"
  have inv: "procs_inv (k_ps2 k) ?s" "current_ok ?s" "table_ok ?s"
    using assms(1) by (simp_all add: kinv_def procs_inv_def)
  have c: "unat (current_pid ?s) < 128" "ready ?s (unat (current_pid ?s))"
    using inv(2) assms(2,3) by (auto simp: current_ok_def)
  then obtain d' where "syscall_getc r (k_ps2 k, ?s) = bind_res (schedule r ?b) (\<lambda>(r, s). ok (r, d', s))"
    using getc_blocks [OF inv(1)] by blast
  with assms(4) have sch: "schedule r ?b = ok (r1, s1)" by (auto simp: bind_res_eq_ok)
  have t: "table_ok ?b" using inv(3) by simp
  obtain q where q: "first_on_ring (ready ?b) (after_current ?b) q"
      "s1 = (saved r ?b)\<lparr>current_pid := of_nat q\<rparr>"
    using t sch by (rule schedule_cases)
  have st: "state_of ?b x = (if x = p then TASKSTATE_blocked else state_of ?s x)" if "x < 128" for x
    using that inv(3) c(1) assms(2) by (simp add: state_of_with_state)
  show "blocked s1 p" using schedule_keeps(2) [OF t sch] st assms(3) by simp
  have "q < 128" "ready ?b q" using first_on_ring_less [OF q(1)] by auto
  then show "unat (current_pid s1) \<noteq> p" using st by (auto simp: q(2))
  show "user_view (ts_registers (process_table s1 ! p)) = user_view r"
    using t assms(2,3) by (simp add: q(2) saved_nth)
qed

lemma user_view_eax: "user_view (a\<lparr>r_eax := x\<rparr>) = user_view (b\<lparr>r_eax := x\<rparr>)"
  if "user_view a = user_view b"
  using that by (simp add: user_view_def)

lemma getc_path:
  assumes "kinv k" and "unat (current_pid (k_sched k)) = p" and "p < MAX_PROCESSES"
    and "syscall_getc r (k_ps2 k, k_sched k) = ok (r1, k_ps2 k1, k_sched k1)" and "kinv k1"
    and "(step_blocked hw p)\<^sup>*\<^sup>* k1 k2"
    and "handle_keypress_char c (k_ps2 k2, k_sched k2) = ok (d3, s3)" and "c \<noteq> 0"
  shows "procs_inv d3 s3" and "ready s3 p" and "unat (current_pid s3) \<noteq> p"
    and "user_view (ts_registers (process_table s3 ! p)) = user_view (r\<lparr>r_eax := scast c\<rparr>)"
proof -
  note left = getc_leaves [OF assms(1-4)]
  have k2: "kinv k2" "blocked (k_sched k2) p"
      "process_table (k_sched k2) ! p = process_table (k_sched k1) ! p"
    using steps_blocked_keep [OF assms(6,5,3) left(1)] by simp_all
  have inv: "procs_inv (k_ps2 k2) (k_sched k2)" "current_ok (k_sched k2)"
    using k2(1) by (simp_all add: kinv_def)
  have w: "waits (k_ps2 k2) p" using inv(1) k2(2) assms(3) by (simp add: procs_inv_def)
  have s3: "s3 = (k_sched k2)\<lparr>process_table := wake_all c (waits (k_ps2 k2)) (process_table (k_sched k2))\<rparr>"
    using assms(7,8) inv(1) by (simp add: handle_keypress_char_eq procs_inv_def)
  have entry: "process_table s3 ! p = wake c (process_table (k_sched k1) ! p)"
    using w assms(3) inv(1) k2(3) by (simp add: s3 wake_all_nth procs_inv_def table_ok_def)
  show "procs_inv d3 s3" using keypress_procs_inv(1) [OF inv assms(7)] .
  show "ready s3 p" using entry by (simp add: state_of_def wake_ready)
  show "unat (current_pid s3) \<noteq> p"
    using inv(2) k2(2) assms(3) by (auto simp: s3 current_ok_def)
  have "user_view ((ts_registers (process_table (k_sched k1) ! p))\<lparr>r_eax := scast c\<rparr>) = user_view (r\<lparr>r_eax := scast c\<rparr>)"
    using left(3) by (rule user_view_eax)
  then show "user_view (ts_registers (process_table s3 ! p)) = user_view (r\<lparr>r_eax := scast c\<rparr>)"
    by (simp add: entry wake_def)
qed

section \<open>Listing the processes\<close>

abbreviation unused :: "task_struct \<Rightarrow> bool" where
  "unused t \<equiv> ts_state t = TASKSTATE_unused"

definition live_tasks :: "task_struct list \<Rightarrow> task_struct list" where
  "live_tasks tbl = filter (\<lambda>t. \<not> unused t) tbl"

fun put_procs :: "u32 \<Rightarrow> nat \<Rightarrow> task_struct list \<Rightarrow> (u32 \<Rightarrow> task_struct) \<Rightarrow> u32 \<Rightarrow> task_struct" where
  "put_procs base i [] procs = procs"
| "put_procs base i (t # ts) procs = put_procs base (Suc i) ts (procs(base + task_size * of_nat i := t))"

lemma lsproc_skip_eq:
  assumes "length tbl = MAX_PROCESSES" and "j \<le> MAX_PROCESSES"
  shows "\<exists>j'. lsproc_skip tbl j = ok j' \<and> j \<le> j' \<and> j' \<le> MAX_PROCESSES \<and>
    drop j' tbl = dropWhile unused (drop j tbl)"
  using assms
proof (induction tbl j rule: lsproc_skip.induct)
  case (1 tbl j)
  show ?case
  proof (cases "j < 128")
    case True
    then have d: "drop j tbl = tbl ! j # drop (Suc j) tbl"
      using "1.prems"(1) by (simp add: Cons_nth_drop_Suc)
    have g: "pt_get tbl (of_nat j) = ok (tbl ! j)"
      using True "1.prems"(1) by (simp add: pt_get_def)
    show ?thesis
    proof (cases "unused (tbl ! j)")
      case u: True
      obtain j' where "lsproc_skip tbl (j + 1) = ok j'" "j + 1 \<le> j'" "j' \<le> 128"
          "drop j' tbl = dropWhile unused (drop (j + 1) tbl)"
        using "1.IH" [OF True g u] "1.prems"(1) True by auto
      then show ?thesis
        using True u by (intro exI [of _ j']) (simp add: g d)
    next
      case False
      then show ?thesis using True by (intro exI [of _ j]) (simp add: g d)
    qed
  next
    case False
    with "1.prems" show ?thesis by (intro exI [of _ j]) simp
  qed
qed

declare lsproc_skip.simps [simp del] lsproc_loop.simps [simp del]

lemma live_dropWhile: "live_tasks (dropWhile unused xs) = live_tasks xs"
  by (induction xs) (auto simp: live_tasks_def)

lemma lsproc_loop_eq:
  assumes "length tbl = MAX_PROCESSES" and "j \<le> MAX_PROCESSES" and "i \<le> unat len"
  shows "lsproc_loop tbl base len i j procs =
    (let ts = take (unat len - i) (live_tasks (drop j tbl))
     in ok (i + length ts, put_procs base i ts procs))"
  using assms
proof (induction "unat len - i" arbitrary: i j procs)
  case 0
  then show ?case by (subst lsproc_loop.simps) simp
next
  case (Suc n)
  then have lt: "i < unat len" by simp
  obtain j' where j': "lsproc_skip tbl j = ok j'" "j' \<le> 128"
      "drop j' tbl = dropWhile unused (drop j tbl)"
    using lsproc_skip_eq [OF Suc.prems(1,2)] by blast
  have live: "live_tasks (drop j tbl) = live_tasks (drop j' tbl)"
    by (simp add: j'(3) live_dropWhile)
  show ?case
  proof (cases "j' = 128")
    case True
    then have "live_tasks (drop j tbl) = []" using live Suc.prems(1) by (simp add: live_tasks_def)
    with True lt j'(1) show ?thesis by (subst lsproc_loop.simps) simp
  next
    case False
    then have lt': "j' < 128" using j'(2) by simp
    then have d: "drop j' tbl = tbl ! j' # drop (Suc j') tbl"
      using Suc.prems(1) by (simp add: Cons_nth_drop_Suc)
    from j'(3) have "dropWhile unused (drop j tbl) = tbl ! j' # drop (Suc j') tbl"
      unfolding d by (rule sym)
    then have "\<not> unused (tbl ! j')" unfolding dropWhile_eq_Cons_conv by (rule conjunct2)
    then have live': "live_tasks (drop j tbl) = tbl ! j' # live_tasks (drop (Suc j') tbl)"
      unfolding live d by (simp add: live_tasks_def)
    have k: "unat len - i = Suc (unat len - Suc i)" using lt by simp
    have "lsproc_loop tbl base len (Suc i) (Suc j') (procs(base + task_size * of_nat i := tbl ! j')) =
        (let ts = take (unat len - Suc i) (live_tasks (drop (Suc j') tbl))
         in ok (Suc i + length ts, put_procs base (Suc i) ts (procs(base + task_size * of_nat i := tbl ! j'))))"
    proof (rule Suc.hyps(1))
      show "n = unat len - Suc i" using Suc.hyps(2) by simp
    qed (use Suc.prems(1) lt lt' in simp_all)
    moreover have "pt_get tbl (of_nat j') = ok (tbl ! j')"
      using lt' Suc.prems(1) by (simp add: pt_get_def)
    ultimately show ?thesis
      using lt lt' j'(1) by (subst lsproc_loop.simps) (simp add: live' k Let_def)
  qed
qed

lemma put_procs_other:
  "(\<And>k. k < length ts \<Longrightarrow> a \<noteq> base + task_size * of_nat (i + k)) \<Longrightarrow> put_procs base i ts procs a = procs a"
proof (induction ts arbitrary: i procs)
  case (Cons t ts)
  have "a \<noteq> base + task_size * of_nat (Suc i + k)" if "k < length ts" for k
    using Cons.prems [of "Suc k"] that by simp
  then have "put_procs base (Suc i) ts (procs(base + task_size * of_nat i := t)) a
      = (procs(base + task_size * of_nat i := t)) a"
    by (rule Cons.IH)
  then show ?case using Cons.prems [of 0] by simp
qed simp

lemma task_address_inj:
  fixes i j :: nat and base :: u32
  assumes "i \<le> 128" and "j \<le> 128" and "base + task_size * of_nat i = base + task_size * of_nat j"
  shows "i = j"
proof -
  have "unat (task_size * of_nat k) = 96 * k" if "k \<le> 128" for k
    using that by (simp add: unat_word_ariths)
  then show ?thesis using assms by (metis add_left_cancel mult_cancel1 zero_neq_numeral)
qed

lemma put_procs_nth:
  "i + length ts \<le> 128 \<Longrightarrow> k < length ts \<Longrightarrow>
   put_procs base i ts procs (base + task_size * of_nat (i + k)) = ts ! k"
proof (induction ts arbitrary: i k procs)
  case (Cons t ts)
  show ?case
  proof (cases k)
    case 0
    have "base + task_size * of_nat i \<noteq> base + task_size * of_nat (Suc i + m)" if "m < length ts" for m
      using that Cons.prems(1) task_address_inj [of i "Suc i + m" base] by auto
    then show ?thesis by (simp add: 0 put_procs_other)
  next
    case (Suc m)
    then show ?thesis using Cons.IH [of "Suc i" m] Cons.prems by simp
  qed
qed simp

lemma syscall_lsproc_eq:
  assumes "table_ok s"
  shows "syscall_lsproc r s procs =
    (let ts = take (unat (r_ecx r)) (live_tasks (process_table s))
     in ok (r\<lparr>r_eax := of_nat (length ts)\<rparr>, put_procs (r_ebx r) 0 ts procs))"
  using assms lsproc_loop_eq [of "process_table s" 0 0 "r_ecx r"]
  by (simp add: syscall_lsproc_def table_ok_def Let_def)

section \<open>Interrupts that cannot go wrong\<close>

lemma schedule_no_fault: "table_ok s \<Longrightarrow> no_fault (schedule r s)"
  using first_on_ring_exists [of "ready s" _ "after_current s"] schedule_eq [of s _ r] schedule_hangs [of s r]
  by (metis no_fault_simps(1,2))

lemma handle_keypress_char_no_fault: "procs_inv d s \<Longrightarrow> no_fault (handle_keypress_char c (d, s))"
  by (cases "c = 0") (simp_all add: handle_keypress_char_0 handle_keypress_char_eq procs_inv_def)

lemma handle_keypress_no_fault:
  assumes "procs_inv d s"
  shows "no_fault (handle_keypress code (d, s))"
proof -
  obtain is_down key where "(if code AND 0xC0 = 0x80 then (0, code AND 0x3F) else (1, code)) = (is_down :: u8, key)"
    by (cases "if code AND 0xC0 = 0x80 then (0 :: u8, code AND 0x3F) else (1, code)")
  note eq = handle_keypress_def [of code, unfolded this Let_def prod.case]
  show ?thesis
  proof (cases "map_of key_codes key")
    case None
    then show ?thesis using assms by (simp add: eq handle_keypress_char_no_fault)
  next
    case (Some k)
    then show ?thesis using assms by (cases k) (simp_all add: eq handle_keypress_char_no_fault)
  qed
qed

lemma getc_no_fault:
  assumes "kinv k" and "unat (current_pid (k_sched k)) < MAX_PROCESSES"
  shows "no_fault (syscall_getc r (k_ps2 k, k_sched k))"
proof -
  have inv: "procs_inv (k_ps2 k) (k_sched k)" "ready (k_sched k) (unat (current_pid (k_sched k)))"
    using assms by (auto simp: kinv_def current_ok_def)
  then obtain d' where "procs_inv d' (with_state TASKSTATE_blocked (k_sched k))"
    "syscall_getc r (k_ps2 k, k_sched k)
      = bind_res (schedule r (with_state TASKSTATE_blocked (k_sched k))) (\<lambda>(r, s). ok (r, d', s))"
    using getc_blocks [OF inv(1) assms(2) inv(2)] by blast
  then show ?thesis
    by (auto simp: procs_inv_def intro!: no_fault_bind schedule_no_fault)
qed

text \<open>
  \<open>powerctl\<close> prints, \<open>lspci\<close> and \<open>lsproc\<close> write where the caller says; the other calls touch only what
  the invariant covers.
\<close>

definition plain_call :: "regs \<Rightarrow> bool" where
  "plain_call r \<longleftrightarrow> (r_int_no r = IRQCODE_SYSCALL \<longrightarrow>
     map_of syscall_numbers (r_eax r) \<notin> {Some SYSCALL_powerctl, Some SYSCALL_lspci, Some SYSCALL_lsproc})"

lemma syscall_no_fault:
  assumes "kinv k" and "unat (current_pid (k_sched k)) < MAX_PROCESSES" and "r_int_no r = IRQCODE_SYSCALL"
    and "plain_call r"
  shows "no_fault (syscall hw r k)"
proof (cases "map_of syscall_numbers (r_eax r)")
  case None
  then show ?thesis by (simp add: syscall_def)
next
  case (Some n)
  have t: "table_ok (k_sched k)" using assms(1) by (simp add: kinv_def procs_inv_def)
  show ?thesis
  proof (cases n)
    case SYSCALL_yield
    with Some t show ?thesis
      by (auto simp: syscall_def syscall_yield_def intro!: no_fault_bind schedule_no_fault)
  next
    case SYSCALL_getc
    with Some assms show ?thesis
      by (auto simp: syscall_def intro!: no_fault_bind getc_no_fault)
  next
    case SYSCALL_exit
    with Some t assms(2) show ?thesis
      by (auto simp: syscall_def syscall_exit_def syscall_yield_def pt_update_state intro!: no_fault_bind schedule_no_fault)
  qed (use Some assms(3,4) in \<open>simp_all add: plain_call_def\<close>)
qed

lemma serial_rx_no_fault: "no_fault (serial_rx hw log)"
proof (cases "\<exists>n. rx_ready hw (poll hw 0x3FD n log)")
  case True
  then obtain n where "rx_ready hw (poll hw 0x3FD n log)" by blast
  then obtain k where "serial_rx hw log = ok (inb hw COM1 (poll hw 0x3FD (Suc k) log))"
    by (rule rx.loop_eventually)
  then show ?thesis by simp
next
  case False
  then show ?thesis by (simp add: rx.loop_hangs)
qed

lemma irq_no_fault:
  assumes "kinv k" and "from_process r k" and "plain_call r"
  shows "no_fault (irq_handler hw r k)"
proof -
  have inv: "procs_inv (k_ps2 k) (k_sched k)" "table_ok (k_sched k)"
    using assms(1) by (simp_all add: kinv_def procs_inv_def)
  have "no_fault (kb_handler hw k)"
    unfolding kb_handler_def inb_def Let_def prod.case
    by (rule no_fault_bind [OF handle_keypress_no_fault [OF inv(1)]]) (simp split: prod.split)
  moreover have "no_fault (com1_handler hw k)"
    unfolding com1_handler_def Let_def
    by (rule no_fault_bind [OF serial_rx_no_fault])
      (auto intro!: no_fault_bind handle_keypress_char_no_fault inv(1))
  moreover have "no_fault (schedule r (k_sched k))" using inv(2) by (rule schedule_no_fault)
  moreover have "no_fault (syscall hw r k)" if "r_int_no r = IRQCODE_SYSCALL"
    using that assms by (intro syscall_no_fault) (simp_all add: from_process_def)
  ultimately show ?thesis
    unfolding irq_handler_def by (auto intro!: no_fault_bind)
qed

section \<open>Properties\<close>

text \<open>A kernel with two processes, 0 and 1, of which 0 is running.\<close>

definition demo_device :: pci_device where
  "demo_device = \<lparr>device_id = 0, vendor_id = 0, device_name = replicate 128 0,
     vendor_name = replicate 128 0, bar = replicate 6 0, class_code = 0, subclass_code = 0\<rparr>"

definition two_processes :: sched where
  "two_processes = \<lparr>process_table = (replicate 128 demo_task)[0 := started 0 0x200000 demo_task,
     1 := started 1 0x200100 demo_task], current_pid = 0\<rparr>"

definition no_waiters :: ps2 where
  "no_waiters = \<lparr>ps2_waiters = replicate 128 \<lparr>alloc = 0, waiter_pid = 0\<rparr>, kstate = keys_up\<rparr>"

definition demo_kernel :: "sched \<Rightarrow> kernel" where
  "demo_kernel s = \<lparr>k_machine = fresh_machine, k_sched = s, k_ps2 = no_waiters,
     k_pci = \<lparr>pci_devices_list = replicate 256 demo_device, pci_devices_count = 0\<rparr>,
     user_procs = \<lambda>_. demo_task, user_devs = \<lambda>_. demo_device\<rparr>"

lemma two_processes_state:
  "p < 128 \<Longrightarrow> state_of two_processes p = (if p = 0 \<or> p = 1 then TASKSTATE_ready else TASKSTATE_unused)"
  by (auto simp: two_processes_def state_of_def demo_task_def started_def nth_list_update)

lemma no_waiters_ok: "waiters_ok no_waiters" "one_place_each (ps2_waiters no_waiters)" "\<not> waits no_waiters p"
  by (auto simp: no_waiters_def waiters_ok_def one_place_each_def waits_in_def)

lemma two_processes_kinv: "kinv (demo_kernel two_processes)"
proof -
  have "placed p (process_table two_processes ! p)" if "p < 128" for p
    using that by (auto simp: two_processes_def placed_def started_def demo_task_def nth_list_update)
  then show ?thesis
    using no_waiters_ok two_processes_state
    by (simp add: demo_kernel_def kinv_def procs_inv_def current_ok_def)
      (simp add: two_processes_def table_ok_def)
qed

definition booted :: kernel where
  "booted = demo_kernel (two_processes\<lparr>process_table :=
     map (\<lambda>t. t\<lparr>ts_state := TASKSTATE_unused\<rparr>) (process_table two_processes), current_pid := 129\<rparr>)"

lemma booted_reachable: "reachable hw booted"
proof -
  have t: "table_ok two_processes" by (simp add: two_processes_def table_ok_def)
  have "reachable hw ((demo_kernel two_processes)\<lparr>k_sched := two_processes\<lparr>process_table :=
      map (\<lambda>t. t\<lparr>ts_state := TASKSTATE_unused\<rparr>) (process_table two_processes), current_pid := 129\<rparr>,
      k_ps2 := no_waiters\<lparr>ps2_waiters := map (\<lambda>w. w\<lparr>alloc := 0\<rparr>) (ps2_waiters no_waiters)\<rparr>\<rparr>)"
    using t init_process_table_eq [OF t] init_ps2_eq [of no_waiters]
    by (intro reachable.boot) (simp_all add: demo_kernel_def table_ok_def no_waiters_def)
  then show ?thesis by (simp add: booted_def demo_kernel_def no_waiters_def)
qed

text \<open>
  C1: in every state the kernel can reach, by any sequence of interrupts with any registers, the
  process table and the list of processes that wait for a key agree (a process is blocked exactly
  when it has a place in the list, and it has one place only), every process that exists has the
  number and the address space of its place in the table, and the running process is ready.
\<close>

lemma kernel_invariant:
  assumes "reachable hw k"
  shows "procs_inv (k_ps2 k) (k_sched k) \<and> current_ok (k_sched k)"
  using reachable_kinv [OF assms] by (simp add: kinv_def)

lemma kernel_invariant_witness: "current_ok (k_sched booted)"
  using kernel_invariant [OF booted_reachable] by blast

text \<open>
  C8: two processes never share memory: in every reachable state the address spaces of two
  different processes that exist are disjoint.
\<close>

lemma address_spaces_disjoint:
  assumes "reachable hw k" and "p < MAX_PROCESSES" and "q < MAX_PROCESSES" and "p \<noteq> q"
    and "\<not> unused (process_table (k_sched k) ! p)" and "\<not> unused (process_table (k_sched k) ! q)"
  shows "disjoint (Phys, ts_address_base (process_table (k_sched k) ! p)) (unat ADDRESS_SPACE_SIZE)
                  (Phys, ts_address_base (process_table (k_sched k) ! q)) (unat ADDRESS_SPACE_SIZE)"
proof -
  have "placed i (process_table (k_sched k) ! i)" if "i < 128" for i
    using reachable_kinv [OF assms(1)] that by (simp add: kinv_def procs_inv_def)
  from this [OF assms(2)] this [OF assms(3)] show ?thesis
    using assms(5,6) spaces_disjoint [OF assms(2-4)] by (simp add: placed_def)
qed

lemma booted_start:
  "\<exists>s m. reachable hw (booted\<lparr>k_sched := s, k_machine := (k_machine booted)\<lparr>mem := m\<rparr>\<rparr>) \<and>
     ready s 0 \<and> state_of s 1 = TASKSTATE_unused \<and> table_ok s \<and>
     (\<forall>p < 128. p \<noteq> 0 \<longrightarrow> \<not> ready s p) \<and> unat (current_pid s) = 129"
proof -
  have t: "table_ok (k_sched booted)" by (simp add: booted_def demo_kernel_def table_ok_def two_processes_def)
  have st: "state_of (k_sched booted) p = TASKSTATE_unused" if "p < 128" for p
    using that by (simp add: booted_def demo_kernel_def state_of_def two_processes_def)
  have f: "first_on_ring (\<lambda>p. state_of (k_sched booted) p = TASKSTATE_unused) 0 0"
    unfolding first_on_ring_def by (intro exI [of _ 0]) (simp add: st)
  have c: "cstring (mem (k_machine booted)) (lit ''a'') (bytes_of ''a'')"
    by (intro cstring_lit) (simp_all add: bytes_of_def)
  have d: "disjoint (Phys, space_base 0) 16 (lit ''a'') (Suc (length (bytes_of ''a'')))"
    by (simp add: disjoint_def lit_def)
  let ?s = "(k_sched booted)\<lparr>process_table := (process_table (k_sched booted))[0 := started 0 0
      (process_table (k_sched booted) ! 0)]\<rparr>"
  from start_process_eq [OF t f c d] obtain m where
    m: "start_process (lit ''a'') 0 (k_sched booted) (mem (k_machine booted)) = ok (?s, m)" by blast
  have "reachable hw (booted\<lparr>k_sched := ?s, k_machine := (k_machine booted)\<lparr>mem := m\<rparr>\<rparr>)"
    by (rule reachable.start [OF booted_reachable m]) (simp_all add: bytes_of_def)
  moreover have "ready ?s 0 \<and> state_of ?s 1 = TASKSTATE_unused \<and> table_ok ?s"
    using t st [of 1] by (simp add: state_of_def started_def table_ok_def)
  moreover have "\<not> ready ?s p" if "p < 128" "p \<noteq> 0" for p
    using that st [of p] by (simp add: state_of_def)
  moreover have "unat (current_pid ?s) = 129" by (simp add: booted_def demo_kernel_def)
  ultimately show ?thesis by blast
qed

lemma booted_two:
  "\<exists>k m. reachable hw k \<and> ready (k_sched k) 0 \<and> ready (k_sched k) 1 \<and> k_machine k = fresh_machine\<lparr>mem := m\<rparr> \<and>
    unat (current_pid (k_sched k)) = 129"
proof -
  obtain s m where k: "reachable hw (booted\<lparr>k_sched := s, k_machine := (k_machine booted)\<lparr>mem := m\<rparr>\<rparr>)"
      (is "reachable hw ?k") and s: "ready s 0" "state_of s 1 = TASKSTATE_unused" "table_ok s"
      "unat (current_pid s) = 129"
    using booted_start by blast
  have f: "first_on_ring (\<lambda>p. state_of s p = TASKSTATE_unused) 0 1"
    unfolding first_on_ring_def using s(1,2) by (intro exI [of _ 1]) (simp del: One_nat_def)
  have c: "cstring m (lit ''b'') (bytes_of ''b'')"
    by (intro cstring_lit) (simp_all add: bytes_of_def)
  have d: "disjoint (Phys, space_base 1) 16 (lit ''b'') (Suc (length (bytes_of ''b'')))"
    by (simp add: disjoint_def lit_def)
  let ?s = "s\<lparr>process_table := (process_table s)[1 := started 1 0 (process_table s ! 1)]\<rparr>"
  from start_process_eq [OF s(3) f c d] obtain m' where
    m: "start_process (lit ''b'') 0 (k_sched ?k) (mem (k_machine ?k)) = ok (?s, m')" by auto
  have "reachable hw (?k\<lparr>k_sched := ?s, k_machine := (k_machine ?k)\<lparr>mem := m'\<rparr>\<rparr>)"
    by (rule reachable.start [OF k m]) (simp_all add: bytes_of_def)
  moreover have "ready ?s 0 \<and> ready ?s 1"
    using s by (simp add: state_of_def started_def table_ok_def)
  ultimately show ?thesis
    using s(4) by (intro exI [of _ "?k\<lparr>k_sched := ?s, k_machine := (k_machine ?k)\<lparr>mem := m'\<rparr>\<rparr>"] exI [of _ m'])
      (simp add: booted_def demo_kernel_def)
qed

lemma address_spaces_disjoint_witness:
  "\<exists>k. reachable ready_hw k \<and>
    disjoint (Phys, ts_address_base (process_table (k_sched k) ! 0)) (unat ADDRESS_SPACE_SIZE)
             (Phys, ts_address_base (process_table (k_sched k) ! 1)) (unat ADDRESS_SPACE_SIZE)"
proof -
  obtain k where "reachable ready_hw k" "ready (k_sched k) 0" "ready (k_sched k) 1"
    using booted_two by blast
  then show ?thesis
    using address_spaces_disjoint [of ready_hw k 0 1] by (auto simp: state_of_def)
qed

text \<open>
  C21: no interrupt makes the kernel touch one of its arrays outside the bounds: in every reachable state the
  handler returns or waits for ever, for every kind of interrupt and the system calls yield, getc, exit and
  any number that is not a call. Left out are \<open>powerctl\<close>, which prints, and \<open>lspci\<close> and \<open>lsproc\<close>, which
  write to an address of the caller's without a check.
\<close>

lemma interrupts_in_bounds:
  assumes "reachable hw k" and "from_process r k" and "plain_call r"
  shows "no_fault (irq_handler hw r k)"
  using irq_no_fault [OF reachable_kinv [OF assms(1)] assms(2,3)] .

text \<open>
  C22: a process that waits for a key is not touched by any interrupt but a key: in one step its entry
  of the process table stays as it is, or a character other than 0 arrives and it becomes ready with
  the character in \<open>eax\<close> and everything else unchanged.
\<close>

lemma blocked_until_key:
  assumes "reachable hw k" and "kstep hw k k'" and "p < MAX_PROCESSES" and "blocked (k_sched k) p"
  shows "process_table (k_sched k') ! p \<in>
    insert (process_table (k_sched k) ! p)
      ((\<lambda>c. wake c (process_table (k_sched k) ! p)) ` (UNIV - {0}))"
proof -
  obtain e r where e: "has_effect e r k k'"
    using assms(2) by (rule kstepE) (blast elim: irq_effect)
  show ?thesis
    using effect_keeps_blocked [OF reachable_kinv [OF assms(1)] e assms(3,4)] by auto
qed

lemma tick_step:
  assumes "kinv k" and "p < MAX_PROCESSES" and "ready (k_sched k) p"
  shows "\<exists>k'. kstep hw k k' \<and> unat (current_pid (k_sched k')) < MAX_PROCESSES \<and>
    state_of (k_sched k') = state_of (k_sched k)"
proof -
  have t: "table_ok (k_sched k)" using assms(1) by (simp add: kinv_def procs_inv_def)
  let ?r = "demo_regs\<lparr>r_int_no := IRQCODE_PIT\<rparr>"
  obtain q where "first_on_ring (ready (k_sched k)) (after_current (k_sched k)) q"
    using first_on_ring_exists [of "ready (k_sched k)"] assms(2,3) by blast
  from schedule_eq [OF t this, of ?r] obtain r' s' where s: "schedule ?r (k_sched k) = ok (r', s')"
    by blast
  have "\<exists>k'. irq_handler hw ?r k = ok (r', k') \<and> k_sched k' = s'"
    by (simp add: irq_handler_def s)
  then obtain k' where k': "irq_handler hw ?r k = ok (r', k')" "k_sched k' = s'" by blast
  have "kstep hw k k'"
    by (rule interrupt [OF _ k'(1)]) (simp add: from_process_def)
  then show ?thesis using schedule_keeps [OF t s] k'(2) by blast
qed

lemma getc_step:
  assumes "kinv k" and "unat (current_pid (k_sched k)) = p" and "p < MAX_PROCESSES"
    and "q < MAX_PROCESSES" and "q \<noteq> p" and "ready (k_sched k) q"
    and "r_int_no r = IRQCODE_SYSCALL" and "r_eax r = 1"
  obtains r1 k1 where "irq_handler hw r k = ok (r1, k1)"
    and "syscall_getc r (k_ps2 k, k_sched k) = ok (r1, k_ps2 k1, k_sched k1)"
    and "kstep hw k k1"
    and "state_of (k_sched k1) q = TASKSTATE_ready" and "blocked (k_sched k1) p"
proof -
  let ?s = "k_sched k"
  let ?b = "with_state TASKSTATE_blocked ?s"
  have inv: "procs_inv (k_ps2 k) ?s" "current_ok ?s" "table_ok ?s"
    using assms(1) by (simp_all add: kinv_def procs_inv_def)
  have c: "unat (current_pid ?s) < 128" "ready ?s (unat (current_pid ?s))"
    using inv(2) assms(2,3) by (auto simp: current_ok_def)
  then obtain d' where d': "syscall_getc r (k_ps2 k, ?s) = bind_res (schedule r ?b) (\<lambda>(r, s). ok (r, d', s))"
    using getc_blocks [OF inv(1)] by blast
  have st: "state_of ?b x = (if x = p then TASKSTATE_blocked else state_of ?s x)" if "x < 128" for x
    using that inv(3) c(1) assms(2) by (simp add: state_of_with_state)
  have t: "table_ok ?b" using inv(3) by simp
  have "ready ?b q" using st assms(4-6) by simp
  with assms(4) obtain y where "first_on_ring (ready ?b) (after_current ?b) y"
    using first_on_ring_exists [of "ready ?b"] by blast
  from schedule_eq [OF t this, of r] obtain r1 s1 where s1: "schedule r ?b = ok (r1, s1)" by blast
  have g: "syscall_getc r (k_ps2 k, ?s) = ok (r1, d', s1)" by (simp add: d' s1)
  have "\<exists>k1. irq_handler hw r k = ok (r1, k1) \<and> k_ps2 k1 = d' \<and> k_sched k1 = s1"
    using assms(7,8) g by (simp add: irq_handler_def syscall_def syscall_numbers_def)
  then obtain k1 where k1: "irq_handler hw r k = ok (r1, k1)" "k_ps2 k1 = d'" "k_sched k1 = s1" by blast
  have "state_of s1 x = state_of ?b x" for x using schedule_keeps(2) [OF t s1] by simp
  then have "state_of (k_sched k1) q = TASKSTATE_ready" "blocked (k_sched k1) p"
    using st assms(3-6) k1(3) by simp_all
  moreover have "kstep hw k k1"
    by (rule interrupt [OF _ k1(1)]) (use c in \<open>simp add: from_process_def\<close>)
  ultimately show thesis using that k1 g by simp
qed

lemma running_and_other:
  "\<exists>k0 m k p q. k_machine k0 = fresh_machine\<lparr>mem := m\<rparr> \<and> kstep hw k0 k \<and> reachable hw k \<and> unat (current_pid (k_sched k)) = p \<and> p < MAX_PROCESSES \<and> q < MAX_PROCESSES \<and>
    q \<noteq> p \<and> ready (k_sched k) q"
proof -
  obtain k m where k: "reachable hw k" "ready (k_sched k) 0" "ready (k_sched k) 1"
      "k_machine k = fresh_machine\<lparr>mem := m\<rparr>"
    using booted_two by blast
  obtain k' where k': "kstep hw k k'" "unat (current_pid (k_sched k')) < MAX_PROCESSES"
      "state_of (k_sched k') = state_of (k_sched k)"
    using tick_step [OF reachable_kinv [OF k(1)] _ k(2)] by auto
  have "ready (k_sched k') 0" "ready (k_sched k') 1" using k(2,3) k'(3) by simp_all
  moreover have "reachable hw k'" using k(1) k'(1) by (rule reachable.step)
  moreover have "(0 :: nat) < 128" "(1 :: nat) < 128" by simp_all
  ultimately show ?thesis using k'(1,2) k(4)
    by (cases "unat (current_pid (k_sched k')) = 0") (metis zero_neq_one)+
qed

definition getc_regs :: regs where
  "getc_regs = demo_regs\<lparr>r_int_no := IRQCODE_SYSCALL, r_eax := 1\<rparr>"

lemma interrupts_in_bounds_witness:
  "\<exists>k. reachable ready_hw k \<and> from_process getc_regs k \<and> no_fault (irq_handler ready_hw getc_regs k)"
proof -
  obtain k where k: "reachable ready_hw k" "unat (current_pid (k_sched k)) < MAX_PROCESSES"
    using running_and_other by blast
  then have "from_process getc_regs k" by (simp add: from_process_def)
  moreover have "plain_call getc_regs" by (simp add: plain_call_def getc_regs_def syscall_numbers_def)
  ultimately show ?thesis using interrupts_in_bounds [OF k(1)] k(1) by blast
qed

lemma waiting_and_other:
  "\<exists>k r1 k1 p q. reachable hw k \<and> unat (current_pid (k_sched k)) = p \<and> p < MAX_PROCESSES \<and>
    irq_handler hw getc_regs k = ok (r1, k1) \<and> reachable hw k1 \<and> blocked (k_sched k1) p \<and>
    q < MAX_PROCESSES \<and> ready (k_sched k1) q"
proof -
  obtain k p q where k: "reachable hw k" "unat (current_pid (k_sched k)) = p" "p < MAX_PROCESSES"
      "q < MAX_PROCESSES" "q \<noteq> p" "ready (k_sched k) q"
    using running_and_other by blast
  have r: "r_int_no getc_regs = IRQCODE_SYSCALL" "r_eax getc_regs = 1" by (simp_all add: getc_regs_def)
  obtain r1 k1 where k1: "irq_handler hw getc_regs k = ok (r1, k1)" "kstep hw k k1"
      "ready (k_sched k1) q" "blocked (k_sched k1) p"
    using getc_step [OF reachable_kinv [OF k(1)] k(2-6) r] by metis
  have "reachable hw k1" using k(1) k1(2) by (rule reachable.step)
  then show ?thesis using k k1 by blast
qed

lemma blocked_until_key_witness:
  "\<exists>k k' p. reachable ready_hw k \<and> blocked (k_sched k) p \<and> kstep ready_hw k k' \<and>
    process_table (k_sched k') ! p \<in>
    insert (process_table (k_sched k) ! p)
      ((\<lambda>c. wake c (process_table (k_sched k) ! p)) ` (UNIV - {0}))"
proof -
  obtain k p q where k: "reachable ready_hw k" "p < MAX_PROCESSES" "blocked (k_sched k) p"
      "q < MAX_PROCESSES" "ready (k_sched k) q"
    using waiting_and_other by blast
  obtain k' where "kstep ready_hw k k'"
    using tick_step [OF reachable_kinv [OF k(1)] k(4,5)] by blast
  then show ?thesis using blocked_until_key [OF k(1) _ k(2,3)] k by blast
qed

lemma ticks_resume:
  assumes "table_ok s" and "p < MAX_PROCESSES" and "ready s p" and "unat (current_pid s) \<noteq> p"
    and "length rs = MAX_PROCESSES"
  shows "\<exists>n r' s'. 1 \<le> n \<and> n \<le> MAX_PROCESSES \<and> ticks (take n rs) (r0, s) = ok (r', s') \<and>
    unat (current_pid s') = p \<and> user_view r' = user_view (ts_registers (process_table s ! p))"
proof -
  let ?Q = "\<lambda>n. 1 \<le> n \<and> (\<exists>x. ticks (take n rs) (r0, s) = ok x \<and> unat (current_pid (snd x)) = p)"
  obtain g where g: "g < 128" "p = (after_current s + g) mod 128"
    using assms(2) by (rule ring_offset)
  then have "g < length rs" using assms(5) by simp
  from ticks_reach [OF assms(1,3) g this] obtain m where m: "m \<le> 128" "?Q m"
    using g(1) by (meson Suc_leI le_trans)
  let ?n = "LEAST n. ?Q n"
  have n: "?Q ?n" using m(2) by (rule LeastI)
  have le: "?n \<le> 128" using Least_le [of ?Q, OF m(2)] m(1) by linarith
  from n obtain r' s' where x: "ticks (take ?n rs) (r0, s) = ok (r', s')" "unat (current_pid s') = p"
    by auto
  have earlier: "unat (current_pid (snd x)) \<noteq> p"
    if "1 \<le> i" "i < length (take ?n rs)" "ticks (take i (take ?n rs)) (r0, s) = ok x" for i x
  proof -
    have "i < ?n" using that(2) by simp
    then have "\<not> ?Q i" by (rule not_less_Least)
    moreover have "ticks (take i rs) (r0, s) = ok x" using that(3) \<open>i < ?n\<close> by (simp add: min_def)
    ultimately show ?thesis using that(1) by blast
  qed
  have "take ?n rs \<noteq> []" using n assms(5) by auto
  from ticks_keep_registers [OF assms(1,2,4) x(1) this x(2) earlier]
  have "user_view r' = user_view (ts_registers (process_table s ! p))" .
  then show ?thesis using n le x by blast
qed

text \<open>
  C3: \<open>getc\<close> works end to end: a process calls it, any number of interrupts passes while it waits,
  a character other than 0 is typed; then within 128 timer interrupts the process runs again, with
  the character in \<open>eax\<close> and its nine other registers as they were at the call.
\<close>

lemma getc_returns_key:
  assumes "reachable hw k" and "unat (current_pid (k_sched k)) = p" and "p < MAX_PROCESSES"
    and "r_int_no r = IRQCODE_SYSCALL" and "r_eax r = 1" and "irq_handler hw r k = ok (r1, k1)"
    and "(step_blocked hw p)\<^sup>*\<^sup>* k1 k2"
    and "handle_keypress_char c (k_ps2 k2, k_sched k2) = ok (d3, s3)" and "c \<noteq> 0"
    and "length rs = MAX_PROCESSES"
  shows "\<exists>n r' s'. 1 \<le> n \<and> n \<le> MAX_PROCESSES \<and> ticks (take n rs) (r0, s3) = ok (r', s') \<and>
    unat (current_pid s') = p \<and> user_view r' = user_view (r\<lparr>r_eax := scast c\<rparr>)"
proof -
  have k: "kinv k" using assms(1) by (rule reachable_kinv)
  have "kstep hw k k1"
    by (rule interrupt [OF _ assms(6)]) (use assms(2,3) in \<open>simp add: from_process_def\<close>)
  then have k1: "kinv k1" using k by (rule kstep_kinv)
  have "\<exists>r1. syscall_getc r (k_ps2 k, k_sched k) = ok (r1, k_ps2 k1, k_sched k1)"
    using assms(4-6) by (auto simp: irq_handler_def syscall_def syscall_numbers_def bind_res_eq_ok)
  then obtain r2 where "syscall_getc r (k_ps2 k, k_sched k) = ok (r2, k_ps2 k1, k_sched k1)" by blast
  note path = getc_path [OF k assms(2,3) this k1 assms(7-9)]
  have "table_ok s3" using path(1) by (simp add: procs_inv_def)
  from ticks_resume [OF this assms(3) path(2,3) assms(10)] path(4) show ?thesis by simp
qed

lemma getc_returns_key_witness:
  "\<exists>k s3 n r' s' p. reachable ready_hw k \<and> ticks (replicate n demo_regs) (demo_regs, s3) = ok (r', s') \<and>
    unat (current_pid s') = p \<and> user_view r' = user_view (getc_regs\<lparr>r_eax := 97\<rparr>)"
proof -
  obtain k r1 k1 p where k: "reachable ready_hw k" "unat (current_pid (k_sched k)) = p" "p < MAX_PROCESSES"
      "irq_handler ready_hw getc_regs k = ok (r1, k1)" "reachable ready_hw k1"
    using waiting_and_other by blast
  have r: "r_int_no getc_regs = IRQCODE_SYSCALL" "r_eax getc_regs = 1" by (simp_all add: getc_regs_def)
  have inv: "table_ok (k_sched k1)" "waiters_ok (k_ps2 k1)"
    using reachable_kinv [OF k(5)] by (simp_all add: kinv_def procs_inv_def)
  have "\<exists>x. handle_keypress_char 97 (k_ps2 k1, k_sched k1) = ok x"
    using inv by (simp add: handle_keypress_char_eq)
  then obtain d3 s3 where key: "handle_keypress_char 97 (k_ps2 k1, k_sched k1) = ok (d3, s3)" by auto
  have "(97 :: u8) \<noteq> 0" "length (replicate 128 demo_regs) = 128" by simp_all
  from getc_returns_key [OF k(1-3) r k(4) rtranclp.rtrancl_refl key this, of demo_regs]
  obtain n r' s' where n: "n \<le> 128" "ticks (take n (replicate 128 demo_regs)) (demo_regs, s3) = ok (r', s')"
      "unat (current_pid s') = p" "user_view r' = user_view (getc_regs\<lparr>r_eax := scast (97 :: u8)\<rparr>)"
    by blast
  have "take n (replicate 128 demo_regs) = replicate n demo_regs" using n(1) by (simp add: min_def)
  moreover have "scast (97 :: u8) = (97 :: u32)" by simp
  ultimately show ?thesis using n(2-4) k(1) by metis
qed

text \<open>
  C25: the kernel can stop for good: when the running process is the only one that is ready and calls
  \<open>getc\<close>, the search for the next process never ends. It runs inside the interrupt handler with
  interrupts off, so no key can end it.
\<close>

lemma getc_alone_hangs:
  assumes "reachable hw k" and "unat (current_pid (k_sched k)) = p" and "p < MAX_PROCESSES"
    and "\<And>q. q < MAX_PROCESSES \<Longrightarrow> q \<noteq> p \<Longrightarrow> \<not> ready (k_sched k) q"
    and "r_int_no r = IRQCODE_SYSCALL" and "r_eax r = 1"
  shows "irq_handler hw r k = hang"
proof -
  let ?s = "k_sched k"
  let ?b = "with_state TASKSTATE_blocked ?s"
  have inv: "procs_inv (k_ps2 k) ?s" "current_ok ?s" "table_ok ?s"
    using reachable_kinv [OF assms(1)] by (simp_all add: kinv_def procs_inv_def)
  have c: "unat (current_pid ?s) < 128" "ready ?s (unat (current_pid ?s))"
    using inv(2) assms(2,3) by (auto simp: current_ok_def)
  then obtain d' where d': "syscall_getc r (k_ps2 k, ?s) = bind_res (schedule r ?b) (\<lambda>(r, s). ok (r, d', s))"
    using getc_blocks [OF inv(1)] by blast
  have "\<not> ready ?b x" if "x < 128" for x
    using that inv(3) c(1) assms(2,4) by (simp add: state_of_with_state)
  then have "schedule r ?b = hang" using inv(3) by (intro schedule_hangs) simp_all
  then show ?thesis
    using assms(5,6) by (simp add: irq_handler_def syscall_def syscall_numbers_def d')
qed

lemma getc_alone_hangs_witness:
  "\<exists>k. reachable ready_hw k \<and> irq_handler ready_hw getc_regs k = hang"
proof -
  obtain s m where s: "reachable ready_hw (booted\<lparr>k_sched := s, k_machine := (k_machine booted)\<lparr>mem := m\<rparr>\<rparr>)"
      (is "reachable ready_hw ?k") "ready s 0" "\<And>p. p < 128 \<Longrightarrow> p \<noteq> 0 \<Longrightarrow> \<not> ready s p"
    using booted_start by blast
  obtain k' where k': "kstep ready_hw ?k k'" "unat (current_pid (k_sched k')) < MAX_PROCESSES"
      "state_of (k_sched k') = state_of s"
    using tick_step [OF reachable_kinv [OF s(1)], of 0] s(2) by auto
  have reach: "reachable ready_hw k'" using s(1) k'(1) by (rule reachable.step)
  then have "ready (k_sched k') (unat (current_pid (k_sched k')))"
    using reachable_kinv [OF reach] k'(2) by (auto simp: kinv_def current_ok_def)
  then have c: "unat (current_pid (k_sched k')) = 0" using k'(2,3) s(3) by auto
  have none: "\<not> ready (k_sched k') q" if "q < 128" "q \<noteq> 0" for q using that s(3) k'(3) by simp
  have "irq_handler ready_hw getc_regs k' = hang"
    by (rule getc_alone_hangs [OF reach c _ none]) (simp_all add: getc_regs_def)
  then show ?thesis using reach by blast
qed

text \<open>
  C33: \<open>lsproc\<close> copies the processes that exist, in the order of the table, the first \<open>ecx\<close> of them, to
  consecutive places from \<open>ebx\<close> on, writes nowhere else and returns how many it copied.
\<close>

lemma lsproc_lists_processes:
  assumes "table_ok s" and "syscall_lsproc r s procs = ok (r', procs')"
  shows "r' = r\<lparr>r_eax := of_nat (min (unat (r_ecx r)) (length (live_tasks (process_table s))))\<rparr> \<and>
    (\<forall>i < min (unat (r_ecx r)) (length (live_tasks (process_table s))).
       procs' (r_ebx r + task_size * of_nat i) = live_tasks (process_table s) ! i) \<and>
    (\<forall>a. (\<forall>i < min (unat (r_ecx r)) (length (live_tasks (process_table s))).
       a \<noteq> r_ebx r + task_size * of_nat i) \<longrightarrow> procs' a = procs a)"
proof -
  let ?ts = "take (unat (r_ecx r)) (live_tasks (process_table s))"
  have len: "length ?ts = min (unat (r_ecx r)) (length (live_tasks (process_table s)))" by simp
  have eq: "r' = r\<lparr>r_eax := of_nat (length ?ts)\<rparr>" "procs' = put_procs (r_ebx r) 0 ?ts procs"
    using assms by (simp_all add: syscall_lsproc_eq Let_def min.commute)
  have "length (live_tasks (process_table s)) \<le> 128"
    using assms(1) by (simp add: live_tasks_def table_ok_def) (metis length_filter_le)
  then have "0 + length ?ts \<le> 128" by simp
  from put_procs_nth [OF this] put_procs_other [of ?ts _ "r_ebx r" 0 procs] show ?thesis
    unfolding eq len [symmetric] by simp
qed

lemma lsproc_lists_processes_witness:
  "\<exists>procs'. syscall_lsproc (demo_regs\<lparr>r_ecx := 1\<rparr>) two_processes (\<lambda>_. demo_task) =
      ok (demo_regs\<lparr>r_ecx := 1, r_eax := 1\<rparr>, procs')"
proof -
  have t: "table_ok two_processes" by (simp add: two_processes_def table_ok_def)
  obtain r' procs' where c: "syscall_lsproc (demo_regs\<lparr>r_ecx := 1\<rparr>) two_processes (\<lambda>_. demo_task) = ok (r', procs')"
    by (simp add: syscall_lsproc_eq [OF t] Let_def)
  have "0 < length (process_table two_processes)" "\<not> unused (process_table two_processes ! 0)"
    by (simp_all add: two_processes_def started_def)
  then have "process_table two_processes ! 0 \<in> set (live_tasks (process_table two_processes))"
    unfolding live_tasks_def by (simp only: set_filter mem_Collect_eq nth_mem simp_thms)
  then have "min 1 (length (live_tasks (process_table two_processes))) = 1"
    by (cases "live_tasks (process_table two_processes)") auto
  then show ?thesis using lsproc_lists_processes [OF t c] c by simp
qed

lemma schedule_int_no: "schedule r s = ok (r', s') \<Longrightarrow> r_int_no r' = r_int_no r"
  by (auto simp: schedule_def bind_res_eq_ok switch_context_def)

lemma syscall_int_no:
  assumes "syscall hw r k = ok (r', k')"
  shows "r_int_no r' = r_int_no r"
proof (cases "map_of syscall_numbers (r_eax r)")
  case None
  then show ?thesis using assms by (simp add: syscall_def)
next
  case (Some n)
  then show ?thesis
    using assms unfolding syscall_def
    by (cases n) (auto simp: bind_res_eq_ok syscall_yield_def syscall_exit_def syscall_getc_def
        syscall_lspci_def syscall_lsproc_def Let_def dest!: schedule_int_no)
qed

text \<open>
  Every interrupt the handler returns from ends with the end-of-interrupt command: the last thing written
  is 0x20 to the master controller, and just before it 0x20 to the slave exactly when the interrupt
  came through the slave. The interrupt's own number survives a switch of processes.
\<close>

lemma irq_ends_with_eoi:
  assumes "irq_handler hw r k = ok (r', k')"
  shows "\<exists>log. io_log (k_machine k') =
      (if 40 \<le> r_int_no r \<and> r_int_no r < 48 then [Outb 0x20 0x20, Outb 0xA0 0x20] else [Outb 0x20 0x20]) @ log
    \<and> r_int_no r' = r_int_no r"
proof -
  obtain k1 where k': "k' = k1\<lparr>k_machine := (k_machine k1)\<lparr>io_log := send_eoi (r_int_no r') (io_log (k_machine k1))\<rparr>\<rparr>"
    using assms unfolding irq_handler_def bind_res_eq_ok by auto
  have "r_int_no r' = r_int_no r"
    using assms unfolding irq_handler_def
    by (auto simp: bind_res_eq_ok split: if_splits dest: schedule_int_no syscall_int_no)
  then show ?thesis by (simp add: k' send_eoi_def outb_def)
qed

lemma irq_ends_with_eoi_witness:
  "\<exists>k' log. irq_handler ready_hw (demo_regs\<lparr>r_int_no := 42\<rparr>) booted = ok (demo_regs\<lparr>r_int_no := 42\<rparr>, k') \<and>
    io_log (k_machine k') = [Outb 0x20 0x20, Outb 0xA0 0x20] @ log"
proof -
  have "\<exists>k'. irq_handler ready_hw (demo_regs\<lparr>r_int_no := 42\<rparr>) booted = ok (demo_regs\<lparr>r_int_no := 42\<rparr>, k')"
    by (simp add: irq_handler_def)
  then obtain k' where "irq_handler ready_hw (demo_regs\<lparr>r_int_no := 42\<rparr>) booted = ok (demo_regs\<lparr>r_int_no := 42\<rparr>, k')" ..
  from irq_ends_with_eoi [OF this] this show ?thesis by auto
qed

end
