(* ===== verification/Shell_Replies.thy ===== *)
theory Shell_Replies
  imports Shell Delivery
begin

text \<open>
  What a print of a process does: \<open>says\<close> is one message on the console, \<open>replies\<close> a command that prints a
  text and leaves the kernel's tables alone. Both compose. Printing changes physical memory in the
  bytes of the screen only (\<open>off_screen\<close>), so strings elsewhere keep standing.
\<close>

section \<open>What a print does to the machine\<close>

definition says :: "hw \<Rightarrow> u8 list \<Rightarrow> machine \<Rightarrow> machine \<Rightarrow> bool" where
  "says hw t s s' \<longleftrightarrow> console_inv hw s' \<and> screen_only s s' \<and>
     (\<forall>a. off_screen a \<longrightarrow> mem s' Phys a = mem s Phys a) \<and>
     com1_sent (io_log s') = com1_sent (io_log s) @ t \<and> term_of s' = fold term_putc t (term_of s)"

lemma says_trans: "says hw t a b \<Longrightarrow> says hw u b c \<Longrightarrow> says hw (t @ u) a c"
  by (auto simp: says_def intro: screen_only_trans)

lemma says_lock: "says hw t a b \<Longrightarrow> lock b = lock a"
  by (simp add: says_def screen_only_def)

lemma says_console: "says hw t a b \<Longrightarrow> console_inv hw b"
  by (simp add: says_def)

lemma says_command: "says hw t a b \<Longrightarrow> mem b (Local n l) = mem a (Local n l)"
  by (simp add: says_def screen_only_def)

text \<open>The texts the console takes: any without a backspace, and a backspace inside its row.\<close>

definition emits :: "hw \<Rightarrow> u8 list \<Rightarrow> machine \<Rightarrow> bool" where
  "emits hw t s \<longleftrightarrow> (\<exists>u. emit hw t s = ok u \<and> says hw t s u)"

lemma emit_screen: "emit hw t s = ok u \<Longrightarrow> screen_only s u"
  using emit_rest [of hw t s u] by (auto simp: screen_only_def)

lemma emits_text: "console_inv hw s \<Longrightarrow> 8 \<notin> set t \<Longrightarrow> emits hw t s"
proof -
  assume a: "console_inv hw s" "8 \<notin> set t"
  then have fits: "list_all (\<lambda>c. c \<noteq> 8) t" by (auto simp: list_all_iff)
  obtain u where u: "emit hw t s = ok u" "console_inv hw u"
    using console.text_ok [OF a(1) fits] by blast
  then show ?thesis
    using console.text_sent [OF a(1) fits u(1)] display.text_abstract [OF a(1) fits u(1)] emit_screen [OF u(1)]
      emit_rest [OF u(1)] by (simp add: emits_def says_def)
qed

lemma putc_in_row:
  assumes "console_inv hw s" and "c = 8 \<Longrightarrow> 0 < tcol (term_of s) \<and> tcol (term_of s) < WIDTH"
  shows "\<exists>u. putc hw c s = ok u \<and> says hw [c] s u"
proof -
  obtain t where t: "VGA_putc c s = ok t" "vga_inv t" "in_step t" "term_of t = term_putc c (term_of s)"
    "io_log t = io_log s"
    using VGA_putc_refines [of s c] assms by (auto simp: console_inv_def same_rest_def)
  obtain l where "serial_tx hw c (io_log s) = ok l" "com1_sent l = com1_sent (io_log s) @ [c]"
    using serial_tx_live [of hw c "io_log s"] assms(1) unfolding console_inv_def by blast
  with t have p: "putc hw c s = ok (t\<lparr>io_log := l\<rparr>)" by (simp add: putc_def)
  show ?thesis
    using p putc_screen [OF p] putc_rest [OF p, of Phys] t \<open>com1_sent l = _\<close> assms(1)
    by (simp add: says_def console_inv_def)
qed

lemma emits_rubout:
  assumes "console_inv hw s" and "0 < tcol (term_of s)" and "tcol (term_of s) < WIDTH"
  shows "emits hw [8, 32, 8] s"
proof -
  obtain a where a: "putc hw 8 s = ok a" "says hw [8] s a" using putc_in_row [of hw s 8] assms by blast
  obtain b where b: "putc hw 32 a = ok b" "says hw [32] a b" using putc_in_row [of hw a 32] a by (auto simp: says_def)
  have "tcol (term_of b) = tcol (term_of s)"
    using a(2) b(2) assms(2,3)
    by (cases "tcol (term_of s) - 1 = WIDTH")
      (simp_all add: says_def term_putc_def term_put_def Let_def del: tcol_term_of)
  then obtain c where c: "putc hw 8 b = ok c" "says hw [8] b c"
    using putc_in_row [of hw b 8] b assms by (auto simp: says_def simp del: tcol_term_of)
  have "says hw [8, 32, 8] s c" using says_trans [OF says_trans [OF a(2) b(2)] c(2)] by simp
  with a b c show ?thesis by (simp add: emits_def)
qed

definition printable :: "u8 list \<Rightarrow> machine \<Rightarrow> bool" where
  "printable t s \<longleftrightarrow>
     8 \<notin> set t \<or> t = [8, 32, 8] \<and> 0 < tcol (term_of s) \<and> tcol (term_of s) < WIDTH"

lemma printable_text [simp]: "8 \<notin> set t \<Longrightarrow> printable t s"
  by (simp add: printable_def)

lemma printable_lock [simp]: "printable t (s\<lparr>lock := l\<rparr>) = printable t s"
  by (simp add: printable_def)

lemma emits_printable: "console_inv hw s \<Longrightarrow> printable t s \<Longrightarrow> emits hw t s"
  using emits_text [of hw s t] emits_rubout [of hw s] unfolding printable_def by blast

text \<open>One message.\<close>

lemma flush_says:
  assumes "says hw t s u"
  shows "\<exists>v. VGA_flush u = ok v \<and> says hw t s v"
proof -
  have "vga_inv u" using assms by (simp add: says_def console_inv_def)
  then obtain v where v: "VGA_flush u = ok v" "term_of v = term_of u" "io_log v = io_log u"
    "lock v = lock u" "vga_inv v" "in_step v = in_step u"
    using flush_keeps_console by blast
  then show ?thesis
    using assms VGA_flush_screen [OF v(1)] VGA_flush_off_screen [OF \<open>vga_inv u\<close> v(1)]
    by (auto simp: says_def console_inv_def intro: screen_only_trans)
qed

lemma says_locks:
  assumes "says hw t (s\<lparr>lock := l\<rparr>) u" and "sl_release l = lock s"
  shows "says hw t s (u\<lparr>lock := sl_release (lock u)\<rparr>)"
  using assms by (auto simp: says_def screen_only_def)

lemma printf_nolock_says:
  assumes "console_inv hw s" and "0 \<notin> set (bytes_of fmt)" and "length fmt < 4294967295"
    and "strings_at rd args (mem s)" and "fmt_text rd (bytes_of fmt) args = Some (t, True)" and "printable t s"
  shows "\<exists>s'. printf_nolock hw (lit fmt) args s = ok s' \<and> says hw t s s'"
proof -
  have c: "cstring (mem s) (lit fmt) (bytes_of fmt)" using assms(2,3) by (rule cstring_lit)
  obtain u where u: "emit hw t s = ok u" "says hw t s u"
    using emits_printable [OF assms(1,6)] by (auto simp: emits_def)
  obtain v where v: "VGA_flush u = ok v" "says hw t s v" using flush_says [OF u(2)] by blast
  with u show ?thesis
    using printf_base_text [OF c _ assms(4,5), of hw] by (simp add: printf_nolock_def lit_def)
qed

lemma printf_says:
  assumes "console_inv hw s" and "\<not> bit (lock s) 0" and "0 \<notin> set (bytes_of fmt)" and "length fmt < 4294967295"
    and "strings_at rd args (mem s)" and "fmt_text rd (bytes_of fmt) args = Some (t, True)" and "printable t s"
  shows "\<exists>s'. printf hw (lit fmt) args s = ok s' \<and> says hw t s s'"
proof -
  obtain u where u: "printf_nolock hw (lit fmt) args (s\<lparr>lock := set_bit 0 (lock s)\<rparr>) = ok u"
    "says hw t (s\<lparr>lock := set_bit 0 (lock s)\<rparr>) u"
    using printf_nolock_says [of hw "s\<lparr>lock := set_bit 0 (lock s)\<rparr>" fmt rd args t] assms by auto
  then show ?thesis
    using says_locks [OF u(2) sl_release_acquire [OF assms(2)]] assms(2)
    by (simp add: printf_def printf_nolock_def sl_acquire_free)
qed

section \<open>Printing from a process\<close>

abbreviation console_of :: "shell \<Rightarrow> machine" where
  "console_of st \<equiv> k_machine (sh_kernel st)"

lemma print_says:
  assumes "console_inv hw (k_machine k)" and "\<not> bit (lock (k_machine k)) 0"
    and "0 \<notin> set (bytes_of fmt)" and "length fmt < 4294967295"
    and "strings_at rd args (mem (k_machine k))" and "fmt_text rd (bytes_of fmt) args = Some (t, True)"
    and "printable t (k_machine k)"
  shows "\<exists>m. print hw fmt args k = ok (k\<lparr>k_machine := m\<rparr>) \<and> says hw t (k_machine k) m"
  using printf_says [OF assms] by (auto simp: print_def)

lemma print_line_says:
  assumes "console_inv hw (k_machine k)" and "\<not> bit (lock (k_machine k)) 0"
    and "set (bytes_of line) \<inter> {0, 8, 37} = {}" and "length line < 4294967295"
  shows "\<exists>m. print hw line [] k = ok (k\<lparr>k_machine := m\<rparr>) \<and> says hw (bytes_of line) (k_machine k) m"
proof (rule print_says [where rd = "\<lambda>_. []"])
  show "fmt_text (\<lambda>_. []) (bytes_of line) [] = Some (bytes_of line, True)"
    using assms(3) by (intro fmt_text_plain) auto
qed (use assms in \<open>auto simp: strings_at_def\<close>)

text \<open>What a process printed on the kernel, and none of its tables changed.\<close>

definition replies :: "hw \<Rightarrow> u8 list \<Rightarrow> kernel \<Rightarrow> kernel \<Rightarrow> bool" where
  "replies hw t k k' \<longleftrightarrow> k_sched k' = k_sched k \<and> k_ps2 k' = k_ps2 k \<and> k_pci k' = k_pci k \<and>
     says hw t (k_machine k) (k_machine k')"

definition console_free :: "hw \<Rightarrow> kernel \<Rightarrow> bool" where
  "console_free hw k \<longleftrightarrow> console_inv hw (k_machine k) \<and> \<not> bit (lock (k_machine k)) 0"

lemma replies_free: "console_free hw k \<Longrightarrow> replies hw t k k' \<Longrightarrow> console_free hw k'"
  by (auto simp: console_free_def replies_def says_console dest: says_lock)

lemma replies_trans: "replies hw t a b \<Longrightarrow> replies hw u b c \<Longrightarrow> replies hw (t @ u) a c"
  by (auto simp: replies_def intro: says_trans)

lemma replies_rest:
  "replies hw t k k' \<Longrightarrow> k_sched k' = k_sched k \<and> k_ps2 k' = k_ps2 k \<and> k_pci k' = k_pci k"
  by (simp add: replies_def)

lemma print_replies:
  assumes "console_free hw k" and "set (bytes_of fmt) \<inter> {0} = {}" and "length fmt < 4294967295"
    and "strings_at rd args (mem (k_machine k))" and "fmt_text rd (bytes_of fmt) args = Some (t, True)"
    and "printable t (k_machine k)"
  shows "\<exists>k'. print hw fmt args k = ok k' \<and> replies hw t k k'"
  using print_says [of hw k fmt rd args t] assms by (auto simp: console_free_def replies_def)

lemma print_line_replies:
  assumes "console_free hw k" and "set (bytes_of line) \<inter> {0, 8, 37} = {}" and "length line < 4294967295"
  shows "\<exists>k'. print hw line [] k = ok k' \<and> replies hw (bytes_of line) k k'"
  using print_line_says [of hw k line] assms by (auto simp: console_free_def replies_def)

lemma replies_refl: "console_free hw k \<Longrightarrow> replies hw [] k k"
  by (simp add: console_free_def replies_def says_def)

lemma print_lines_replies:
  assumes "console_free hw k"
    and "\<forall>l \<in> set ls. set (bytes_of l) \<inter> {0, 8, 37} = {} \<and> length l < 4294967295"
  shows "\<exists>k'. fold_res (\<lambda>l. print hw l []) ls k = ok k' \<and> replies hw (concat (map bytes_of ls)) k k'"
  using assms
proof (induction ls arbitrary: k)
  case Nil
  then show ?case by (simp add: replies_refl)
next
  case (Cons l ls)
  obtain a where a: "print hw l [] k = ok a" "replies hw (bytes_of l) k a"
    using print_line_replies [of hw k l] Cons.prems by auto
  then obtain b where "fold_res (\<lambda>l. print hw l []) ls a = ok b" "replies hw (concat (map bytes_of ls)) a b"
    using Cons.IH [of a] Cons.prems replies_free [OF _ a(2)] by auto
  with a show ?case using replies_trans [OF a(2)] by auto
qed

end
