(* ===== verification/Pci_Names.thy ===== *)
theory Pci_Names
  imports Pci
begin

text \<open>
  The search for a device's names in \<open>pci.ids\<close>, specified on lines.

  \<open>scan\<close> is the loop of \<open>pci_get_vendor_dev_name\<close> as a recursion on the bytes that are left.
  \<open>entry\<close> reads one line of the file, \<open>find_vendor\<close> and \<open>find_device\<close> search a list of lines, and
  \<open>lookup_spec\<close> says that the byte-wise machine computes \<open>lookup\<close>.
\<close>

section \<open>The loop as a recursion\<close>

definition next_of :: "u8 list \<Rightarrow> u8 res" where
  "next_of cs = (case cs of [] \<Rightarrow> fail Read_oob | c # _ \<Rightarrow> ok c)"

fun scan :: "u16 \<Rightarrow> u16 \<Rightarrow> u8 list \<Rightarrow> parse \<Rightarrow> (parse, parse) ctl res" where
  "scan v d [] st = ok (Next st)"
| "scan v d (c # cs) st =
     bind_res (parse_byte v d c (next_of cs) st)
       (\<lambda>r. case r of Next st \<Rightarrow> scan v d cs st | Stop st \<Rightarrow> ok (Stop st))"

lemma loop_is_scan:
  "k \<le> length ids \<Longrightarrow>
   for_exit k (length ids)
     (\<lambda>i st. bind_res (byte_at ids i) (\<lambda>c. parse_byte v d c (byte_at ids (i + 1)) st)) st
   = scan v d (drop k ids) st"
proof (induction "length ids - k" arbitrary: k st)
  case 0
  then show ?case by simp
next
  case (Suc n)
  then have lt: "k < length ids" by simp
  then have "drop k ids = ids ! k # drop (Suc k) ids" by (simp add: Cons_nth_drop_Suc)
  moreover have "next_of (drop (Suc k) ids) = byte_at ids (k + 1)"
    by (cases "Suc k < length ids")
      (auto simp: next_of_def byte_at_def Cons_nth_drop_Suc [symmetric] split: list.split)
  moreover have "for_exit (Suc k) (length ids)
     (\<lambda>i st. bind_res (byte_at ids i) (\<lambda>c. parse_byte v d c (byte_at ids (i + 1)) st)) st
     = scan v d (drop (Suc k) ids) st" for st
    using Suc.hyps(2) lt by (intro Suc.hyps(1)) auto
  ultimately show ?case
    using lt by (simp add: for_exit_step byte_at_def cong: ctl.case_cong)
qed

definition scan_start :: "u8 list \<Rightarrow> u8 list \<Rightarrow> parse" where
  "scan_start vname dname =
     \<lparr>pps = PPS_NUM_1, ppss = PPSS_VENDOR, name_pos = 0, vendor_buf = vname, device_buf = dname\<rparr>"

lemma names_by_scan:
  "pci_get_vendor_dev_name ids v d vname dname =
     bind_res (scan v d ids (scan_start vname dname))
       (\<lambda>r. case r of
          Stop st \<Rightarrow> ok (vendor_buf st, device_buf st)
        | Next st \<Rightarrow> bind_res (set_char (device_buf st) 0 0) (\<lambda>d.
            bind_res (set_char (vendor_buf st) 0 0) (\<lambda>v. ok (v, d))))"
  using loop_is_scan [of 0 ids v d] by (simp add: pci_get_vendor_dev_name_def scan_start_def)

section \<open>Lines\<close>

definition nibble_of :: "u16 \<Rightarrow> nat \<Rightarrow> u32" where
  "nibble_of x k = drop_bit (4 * k) (ucast x) AND 0xF"

definition id_prefix :: "u16 \<Rightarrow> u8 list \<Rightarrow> bool" where
  "id_prefix x l \<longleftrightarrow> length l \<ge> 4 \<and> (\<forall>k < 4. nibble_of x (3 - k) = ascii_byte_to_num (l ! k))"

text \<open>What follows the number: the name starts after the last of the spaces.\<close>

fun name_after :: "u8 list \<Rightarrow> u8 list" where
  "name_after (c # n # cs) = (if n = 0x20 then name_after (n # cs) else n # cs)"
| "name_after cs = []"

definition entry :: "u16 \<Rightarrow> u8 list \<Rightarrow> u8 list option" where
  "entry x l = (if id_prefix x l \<and> length l > 4 then Some (name_after (drop 4 l)) else None)"

text \<open>The part of a line after its first tab.\<close>

definition after_tab :: "u8 list \<Rightarrow> u8 list" where
  "after_tab l = tl (dropWhile (\<lambda>c. c \<noteq> 9) l)"

fun find_vendor :: "u16 \<Rightarrow> u8 list list \<Rightarrow> (u8 list \<times> u8 list list) option" where
  "find_vendor x [] = None"
| "find_vendor x (l # ls) = (case entry x l of Some n \<Rightarrow> Some (n, ls) | None \<Rightarrow> find_vendor x ls)"

fun find_device :: "u16 \<Rightarrow> u8 list list \<Rightarrow> u8 list option" where
  "find_device x [] = None"
| "find_device x (l # ls) = (case entry x (after_tab l) of Some n \<Rightarrow> Some n | None \<Rightarrow> find_device x ls)"

definition file_of :: "u8 list list \<Rightarrow> u8 list" where
  "file_of ls = concat (map (\<lambda>l. l @ [0x0A]) ls)"

text \<open>
  Lines the machine reads as lines: no line break inside, and where the line is the entry of the number,
  a name short enough for the buffer and no tab (after one the position in the buffer would not be
  reset). Lines that are no entry, comments and subsystem lines among them, may have any length.
\<close>

definition readable :: "u16 \<Rightarrow> u8 list \<Rightarrow> bool" where
  "readable x l \<longleftrightarrow> (case entry x l of None \<Rightarrow> True | Some n \<Rightarrow> 9 \<notin> set l \<and> length n < PCI_MAX_NAMESIZE)"

definition good_line :: "u16 \<Rightarrow> u16 \<Rightarrow> u8 list \<Rightarrow> bool" where
  "good_line v d l \<longleftrightarrow> 0x0A \<notin> set l \<and> readable v l \<and> readable d (after_tab l)"

section \<open>One line at a time\<close>

abbreviation line_start :: "parse \<Rightarrow> parse" where
  "line_start st \<equiv> st\<lparr>pps := (if ppss st = PPSS_VENDOR then PPS_NUM_1 else PPS_TAB)\<rparr>"

abbreviation wanted :: "u16 \<Rightarrow> u16 \<Rightarrow> parse \<Rightarrow> u16" where
  "wanted v d st \<equiv> (if ppss st = PPSS_VENDOR then v else d)"

lemma scan_newline:
  "pps st \<noteq> PPS_NAME \<Longrightarrow> scan v d (0x0A # rest) st = scan v d rest (line_start st)"
  by (simp add: parse_byte_def)

lemma scan_next_line:
  "0x0A \<notin> set l \<Longrightarrow> pps st = PPS_NEXTLN \<Longrightarrow> scan v d (l @ 0x0A # rest) st = scan v d rest (line_start st)"
proof (induction l)
  case Nil
  then have "pps st \<noteq> PPS_NAME" by simp
  then show ?case unfolding append_Nil by (rule scan_newline)
next
  case (Cons c l)
  then show ?case by (auto simp: parse_byte_def)
qed

text \<open>The four states that compare a digit.\<close>

fun digit_state :: "nat \<Rightarrow> PCI_PARSE_STATE" where
  "digit_state k = (if k = 0 then PPS_NUM_1 else if k = 1 then PPS_NUM_2 else if k = 2 then PPS_NUM_3
     else if k = 3 then PPS_NUM_4 else PPS_SP)"

declare digit_state.simps [simp del]

lemma digit_states [simp]:
  "digit_state 0 = PPS_NUM_1" "digit_state 1 = PPS_NUM_2" "digit_state 2 = PPS_NUM_3"
  "digit_state 3 = PPS_NUM_4" "digit_state 4 = PPS_SP" "digit_state (Suc 0) = PPS_NUM_2"
  "digit_state (Suc (Suc 0)) = PPS_NUM_3"
  by (simp_all add: digit_state.simps)

lemma nibble_small: "nibble_of x k \<noteq> -1"
proof -
  have "bit (nibble_of x k) 4 = False" by (simp add: nibble_of_def bit_simps)
  moreover have "bit (-1 :: u32) 4 = True" by simp
  ultimately show ?thesis by metis
qed

lemma no_digit: "ascii_byte_to_num 9 = -1" "ascii_byte_to_num 0x23 = -1"
  by (simp_all add: ascii_byte_to_num_def)

lemma scan_digit:
  assumes "pps st = digit_state k" and "k < 4" and "c \<noteq> 0x0A"
  shows "scan v d (c # cs) st = scan v d cs (st\<lparr>pps :=
    if nibble_of (wanted v d st) (3 - k) = ascii_byte_to_num c then digit_state (Suc k) else PPS_NEXTLN\<rparr>)"
proof -
  have n: "nibble_of x m \<noteq> -1" "-1 \<noteq> nibble_of x m" for x m using nibble_small [of x m] by auto
  have special: "c = 9 \<or> c = 0x23 \<Longrightarrow> nibble_of x m \<noteq> ascii_byte_to_num c" for x m
    using n no_digit by auto
  have "parse_byte v d c nxt st = ok (Next (st\<lparr>pps :=
      if nibble_of (wanted v d st) (3 - k) = ascii_byte_to_num c then digit_state (Suc k) else PPS_NEXTLN\<rparr>))" for nxt
  proof (cases "c = 9 \<or> (c = 0x23 \<and> k = 0)")
    case True
    have st: "pps st \<noteq> PPS_NEXTLN" "pps st \<noteq> PPS_TAB" "k = 0 \<Longrightarrow> pps st = PPS_NUM_1"
      using assms(1,2) by (auto simp: digit_state.simps)
    have "parse_byte v d c nxt st = ok (Next (st\<lparr>pps := PPS_NEXTLN\<rparr>))"
      using True st by (elim disjE; cases "ppss st") (simp_all add: parse_byte_def)
    moreover have "nibble_of (wanted v d st) (3 - k) \<noteq> ascii_byte_to_num c"
      using True by (intro special) blast
    ultimately show ?thesis by (simp only: if_False)
  next
    case False
    consider "k = 0" | "k = 1" | "k = 2" | "k = 3" using assms(2) by linarith
    then show ?thesis
      by cases (use False assms(1,3) in \<open>simp_all add: parse_byte_def nibble_of_def Let_def\<close>)
  qed
  then show ?thesis by simp
qed

definition digits_from :: "nat \<Rightarrow> u16 \<Rightarrow> u8 list \<Rightarrow> bool" where
  "digits_from k x l \<longleftrightarrow> length l \<ge> 4 - k \<and>
     (\<forall>j < 4 - k. nibble_of x (3 - (k + j)) = ascii_byte_to_num (l ! j))"

lemma digits_from_0: "digits_from 0 x l = id_prefix x l"
  by (simp add: digits_from_def id_prefix_def)

lemma digits_from_4: "digits_from 4 x l"
  by (simp add: digits_from_def)

lemma digits_from_Cons:
  "k < 4 \<Longrightarrow> digits_from k x (c # l) \<longleftrightarrow>
     nibble_of x (3 - k) = ascii_byte_to_num c \<and> digits_from (Suc k) x l"
  by (auto simp: digits_from_def less_Suc_eq_0_disj All_less_Suc2 Suc_diff_Suc [symmetric] simp del: diff_Suc_Suc)

lemma digits_from_Nil: "k < 4 \<Longrightarrow> \<not> digits_from k x []"
  by (simp add: digits_from_def)

lemma digit_state_not_name: "digit_state k \<noteq> PPS_NAME"
  by (simp add: digit_state.simps)

lemma scan_mismatch:
  "pps st = digit_state k \<Longrightarrow> k \<le> 4 \<Longrightarrow> 0x0A \<notin> set l \<Longrightarrow> \<not> digits_from k (wanted v d st) l \<Longrightarrow>
   scan v d (l @ 0x0A # rest) st = scan v d rest (line_start st)"
proof (induction l arbitrary: k st)
  case Nil
  then have "pps st \<noteq> PPS_NAME" using digit_state_not_name by simp
  then show ?case unfolding append_Nil by (rule scan_newline)
next
  case (Cons c l)
  have k: "k < 4" using Cons.prems(2,4) digits_from_4 by (cases "k = 4") auto
  have c: "c \<noteq> 0x0A" "0x0A \<notin> set l" using Cons.prems(3) by auto
  let ?hit = "nibble_of (wanted v d st) (3 - k) = ascii_byte_to_num c"
  let ?st = "st\<lparr>pps := if ?hit then digit_state (Suc k) else PPS_NEXTLN\<rparr>"
  have first: "scan v d ((c # l) @ 0x0A # rest) st = scan v d (l @ 0x0A # rest) ?st"
    using scan_digit [OF Cons.prems(1) k c(1)] by simp
  show ?case
  proof (cases ?hit)
    case True
    then have "\<not> digits_from (Suc k) (wanted v d ?st) l"
      using Cons.prems(4) k by (simp add: digits_from_Cons)
    then have "scan v d (l @ 0x0A # rest) ?st = scan v d rest (line_start ?st)"
      using True k c(2) by (intro Cons.IH [of _ "Suc k"]) auto
    then show ?thesis using first by simp
  next
    case False
    then have "scan v d (l @ 0x0A # rest) ?st = scan v d rest (line_start ?st)"
      using c(2) by (intro scan_next_line) auto
    then show ?thesis using first by simp
  qed
qed

lemma scan_match:
  "pps st = digit_state k \<Longrightarrow> k \<le> 4 \<Longrightarrow> 0x0A \<notin> set l \<Longrightarrow> digits_from k (wanted v d st) l \<Longrightarrow>
   scan v d (l @ rest) st = scan v d (drop (4 - k) l @ rest) (st\<lparr>pps := PPS_SP\<rparr>)"
proof (induction "4 - k" arbitrary: k l st)
  case 0
  then have "k = 4" by simp
  with 0 have "st\<lparr>pps := PPS_SP\<rparr> = st" by simp
  with \<open>k = 4\<close> show ?case by simp
next
  case (Suc n)
  then have k: "k < 4" by simp
  then obtain c l' where l: "l = c # l'" using Suc.prems(4) digits_from_Nil by (cases l) auto
  have hit: "nibble_of (wanted v d st) (3 - k) = ascii_byte_to_num c" "digits_from (Suc k) (wanted v d st) l'"
    using Suc.prems(4) k by (simp_all add: l digits_from_Cons)
  let ?st = "st\<lparr>pps := digit_state (Suc k)\<rparr>"
  have "scan v d (l @ rest) st = scan v d (l' @ rest) ?st"
    using scan_digit [OF Suc.prems(1) k, of c] hit(1) Suc.prems(3) by (simp add: l)
  also have "\<dots> = scan v d (drop (4 - Suc k) l' @ rest) (?st\<lparr>pps := PPS_SP\<rparr>)"
    using Suc.hyps(2) Suc.prems(3) k hit(2) by (intro Suc.hyps(1)) (auto simp: l)
  also have "4 - k = Suc (4 - Suc k)" using k by simp
  ultimately show ?case by (simp add: l)
qed

lemma scan_spaces:
  "pps st = PPS_SP \<Longrightarrow> l \<noteq> [] \<Longrightarrow> 0x0A \<notin> set l \<Longrightarrow> 9 \<notin> set l \<Longrightarrow>
   scan v d (l @ 0x0A # rest) st = scan v d (name_after l @ 0x0A # rest) (st\<lparr>pps := PPS_NAME\<rparr>)"
proof (induction l rule: name_after.induct)
  case (1 c n cs)
  have st: "st\<lparr>pps := PPS_SP\<rparr> = st" using "1.prems"(1) by simp
  have step: "scan v d ((c # n # cs) @ 0x0A # rest) st
      = scan v d ((n # cs) @ 0x0A # rest) (st\<lparr>pps := if n = 0x20 then PPS_SP else PPS_NAME\<rparr>)"
    using "1.prems" by (simp add: parse_byte_def next_of_def)
  show ?case
  proof (cases "n = 0x20")
    case True
    have "scan v d ((n # cs) @ 0x0A # rest) st
        = scan v d (name_after (n # cs) @ 0x0A # rest) (st\<lparr>pps := PPS_NAME\<rparr>)"
      using "1.prems" True by (intro "1.IH") auto
    then show ?thesis unfolding step using True by (simp only: if_True simp_thms st name_after.simps)
  next
    case False
    then show ?thesis unfolding step by (simp only: if_False name_after.simps)
  qed
qed (simp_all add: parse_byte_def next_of_def)

text \<open>A name and its terminator in a buffer, from position \<open>j\<close>.\<close>

definition put_name :: "nat \<Rightarrow> u8 list \<Rightarrow> u8 list \<Rightarrow> u8 list" where
  "put_name j n buf = take j buf @ n @ [0] @ drop (Suc (j + length n)) buf"

lemma put_name_Cons:
  "j < length buf \<Longrightarrow> put_name (Suc j) n (buf[j := c]) = put_name j (c # n) buf"
  by (simp add: put_name_def take_Suc_conv_app_nth)

lemma put_name_Nil: "j < length buf \<Longrightarrow> buf[j := 0] = put_name j [] buf"
  by (simp add: put_name_def upd_conv_take_nth_drop)

lemma scan_vendor_name:
  "pps st = PPS_NAME \<Longrightarrow> ppss st = PPSS_VENDOR \<Longrightarrow> 0x0A \<notin> set n \<Longrightarrow> 9 \<notin> set n \<Longrightarrow>
   name_pos st + length n < length (vendor_buf st) \<Longrightarrow>
   scan v d (n @ 0x0A # rest) st =
     scan v d rest (st\<lparr>ppss := PPSS_DEVICE, vendor_buf := put_name (name_pos st) n (vendor_buf st),
       name_pos := 0, pps := PPS_TAB\<rparr>)"
proof (induction n arbitrary: st)
  case Nil
  then show ?case by (simp add: parse_byte_def set_char_def put_name_Nil)
next
  case (Cons c n)
  let ?st = "st\<lparr>vendor_buf := (vendor_buf st)[name_pos st := c], name_pos := name_pos st + 1\<rparr>"
  have "scan v d ((c # n) @ 0x0A # rest) st = scan v d (n @ 0x0A # rest) ?st"
    using Cons.prems by (simp add: parse_byte_def set_char_def)
  also have "\<dots> = scan v d rest (?st\<lparr>ppss := PPSS_DEVICE, vendor_buf := put_name (name_pos ?st) n (vendor_buf ?st),
       name_pos := 0, pps := PPS_TAB\<rparr>)"
    using Cons.prems by (intro Cons.IH) auto
  finally show ?case using Cons.prems(5) by (simp add: put_name_Cons)
qed

lemma scan_device_name:
  "pps st = PPS_NAME \<Longrightarrow> ppss st = PPSS_DEVICE \<Longrightarrow> 0x0A \<notin> set n \<Longrightarrow> 9 \<notin> set n \<Longrightarrow>
   name_pos st + length n < length (device_buf st) \<Longrightarrow>
   scan v d (n @ 0x0A # rest) st =
     ok (Stop (st\<lparr>name_pos := name_pos st + length n,
       device_buf := put_name (name_pos st) n (device_buf st)\<rparr>))"
proof (induction n arbitrary: st)
  case Nil
  then show ?case by (simp add: parse_byte_def set_char_def put_name_Nil)
next
  case (Cons c n)
  let ?st = "st\<lparr>device_buf := (device_buf st)[name_pos st := c], name_pos := name_pos st + 1\<rparr>"
  have "scan v d ((c # n) @ 0x0A # rest) st = scan v d (n @ 0x0A # rest) ?st"
    using Cons.prems by (simp add: parse_byte_def set_char_def)
  also have "\<dots> = ok (Stop (?st\<lparr>name_pos := name_pos ?st + length n,
       device_buf := put_name (name_pos ?st) n (device_buf ?st)\<rparr>))"
    using Cons.prems by (intro Cons.IH) auto
  finally show ?case using Cons.prems(5) by (simp add: put_name_Cons)
qed

lemma name_after_subset: "set (name_after l) \<subseteq> set l" "length (name_after l) \<le> length l"
  by (induction l rule: name_after.induct) auto

text \<open>A name is part of its line.\<close>

lemma entry_part:
  assumes "entry x l = Some n"
  shows "set n \<subseteq> set l \<and> length n \<le> length l"
proof -
  have "n = name_after (drop 4 l)" using assms by (simp add: entry_def split: if_splits)
  then show ?thesis using name_after_subset [of "drop 4 l"] set_drop_subset [of 4 l] by fastforce
qed

section \<open>One line, and the file\<close>

lemma entry_None_iff: "entry x l = None \<longleftrightarrow> \<not> id_prefix x l \<or> length l \<le> 4"
  by (auto simp: entry_def)

lemma scan_no_entry:
  assumes "pps st = PPS_NUM_1" and "0x0A \<notin> set l" and "entry (wanted v d st) l = None"
  shows "scan v d (l @ 0x0A # rest) st = scan v d rest (line_start st)"
proof (cases "id_prefix (wanted v d st) l")
  case True
  then have l: "length l \<le> 4" using assms(3) by (simp add: entry_None_iff)
  have "scan v d (l @ 0x0A # rest) st = scan v d (drop 4 l @ 0x0A # rest) (st\<lparr>pps := PPS_SP\<rparr>)"
    using assms True scan_match [of st 0 l v d "0x0A # rest"] by (simp add: digits_from_0)
  also have "drop 4 l = []" using l by simp
  also have "scan v d ([] @ 0x0A # rest) (st\<lparr>pps := PPS_SP\<rparr>) = scan v d rest (line_start (st\<lparr>pps := PPS_SP\<rparr>))"
    unfolding append_Nil by (rule scan_newline) simp
  finally show ?thesis by simp
next
  case False
  then show ?thesis
    using assms scan_mismatch [of st 0 l v d rest] by (simp add: digits_from_0)
qed

lemma scan_entry:
  assumes "pps st = PPS_NUM_1" and "0x0A \<notin> set l" and "9 \<notin> set l" and "entry (wanted v d st) l = Some n"
  shows "scan v d (l @ 0x0A # rest) st = scan v d (n @ 0x0A # rest) (st\<lparr>pps := PPS_NAME\<rparr>)"
    and "0x0A \<notin> set n" and "9 \<notin> set n" and "length n \<le> length l"
proof -
  have e: "id_prefix (wanted v d st) l" "length l > 4" "n = name_after (drop 4 l)"
    using assms(4) by (auto simp: entry_def split: if_splits)
  have "scan v d (l @ 0x0A # rest) st = scan v d (drop 4 l @ 0x0A # rest) (st\<lparr>pps := PPS_SP\<rparr>)"
    using assms e(1) scan_match [of st 0 l v d "0x0A # rest"] by (simp add: digits_from_0)
  also have "\<dots> = scan v d (name_after (drop 4 l) @ 0x0A # rest) (st\<lparr>pps := PPS_SP, pps := PPS_NAME\<rparr>)"
    using e(2) assms(2,3) by (intro scan_spaces) (auto dest: in_set_dropD)
  finally show "scan v d (l @ 0x0A # rest) st = scan v d (n @ 0x0A # rest) (st\<lparr>pps := PPS_NAME\<rparr>)"
    by (simp add: e(3))
  show "0x0A \<notin> set n" "9 \<notin> set n" "length n \<le> length l"
    using assms(2,3) name_after_subset [of "drop 4 l"] by (auto simp: e(3) dest: in_set_dropD)
qed

lemma scan_to_tab:
  "pps st = PPS_TAB \<Longrightarrow> ppss st = PPSS_DEVICE \<Longrightarrow> 0x0A \<notin> set l \<Longrightarrow>
   scan v d (l @ 0x0A # rest) st =
     (if 9 \<in> set l then scan v d (after_tab l @ 0x0A # rest) (st\<lparr>pps := PPS_NUM_1\<rparr>)
      else scan v d rest st)"
proof (induction l)
  case Nil
  then show ?case by (cases st) (simp add: parse_byte_def)
next
  case (Cons c l)
  show ?case
  proof (cases "c = 9")
    case True
    with Cons.prems show ?thesis by (simp add: parse_byte_def after_tab_def)
  next
    case False
    with Cons.prems have "scan v d ((c # l) @ 0x0A # rest) st = scan v d (l @ 0x0A # rest) st"
      by (simp add: parse_byte_def)
    with False Cons show ?thesis by (simp add: after_tab_def del: scan.simps)
  qed
qed

lemma good_lineD:
  assumes "good_line v d l"
  shows "0x0A \<notin> set l"
    and "entry v l = Some n \<Longrightarrow> 9 \<notin> set l \<and> length n < PCI_MAX_NAMESIZE"
    and "entry d (after_tab l) = Some n \<Longrightarrow> 9 \<notin> set (after_tab l) \<and> length n < PCI_MAX_NAMESIZE"
  using assms by (auto simp: good_line_def readable_def)

lemma after_tab_subset: "set (after_tab l) \<subseteq> set l" "length (after_tab l) \<le> length l"
proof -
  show "set (after_tab l) \<subseteq> set l"
  proof
    fix x assume "x \<in> set (after_tab l)"
    then have "x \<in> set (dropWhile (\<lambda>c. c \<noteq> 9) l)"
      unfolding after_tab_def by (cases "dropWhile (\<lambda>c. c \<noteq> 9) l") auto
    then show "x \<in> set l" by (rule set_dropWhileD)
  qed
  have "length (after_tab l) \<le> length (dropWhile (\<lambda>c. c \<noteq> 9) l)" by (simp add: after_tab_def)
  then show "length (after_tab l) \<le> length l"
    using length_dropWhile_le [of "\<lambda>c. c \<noteq> 9" l] by linarith
qed

lemma no_tab_no_entry: "9 \<notin> set l \<Longrightarrow> entry x (after_tab l) = None"
proof -
  assume "9 \<notin> set l"
  then have "dropWhile (\<lambda>c. c \<noteq> 9) l = []" by (auto simp: dropWhile_eq_Nil_conv)
  then have "after_tab l = []" unfolding after_tab_def by (simp only: list.sel(2))
  then show ?thesis by (simp add: entry_def id_prefix_def)
qed

lemma file_of_Cons: "file_of (l # ls) = l @ 0x0A # file_of ls"
  by (simp add: file_of_def)

lemma scan_devices:
  assumes "list_all (good_line v d) ls" and "pps st = PPS_TAB" and "ppss st = PPSS_DEVICE"
    and "name_pos st = 0" and "length (device_buf st) = PCI_MAX_NAMESIZE"
  shows "case find_device d ls of
      None \<Rightarrow> scan v d (file_of ls) st = ok (Next st)
    | Some n \<Rightarrow> \<exists>st'. scan v d (file_of ls) st = ok (Stop st') \<and>
        vendor_buf st' = vendor_buf st \<and> device_buf st' = put_name 0 n (device_buf st)"
  using assms(1)
proof (induction ls)
  case Nil
  then show ?case by (simp add: file_of_def)
next
  case (Cons l ls)
  have good: "good_line v d l" "list_all (good_line v d) ls" using Cons.prems by auto
  have st: "st\<lparr>pps := PPS_TAB\<rparr> = st" using assms(2) by simp
  have l: "0x0A \<notin> set l" "0x0A \<notin> set (after_tab l)"
    using good_lineD(1) [OF good(1)] after_tab_subset [of l] by auto
  note tab = scan_to_tab [OF assms(2,3) l(1), of v d "file_of ls"]
  let ?num = "st\<lparr>pps := PPS_NUM_1\<rparr>"
  show ?case
  proof (cases "entry d (after_tab l)")
    case None
    have "scan v d (after_tab l @ 0x0A # file_of ls) ?num = scan v d (file_of ls) (line_start ?num)"
      using None assms(3) l(2) by (intro scan_no_entry) auto
    also have "line_start ?num = st" using assms(3) st by simp
    finally have "scan v d (file_of (l # ls)) st = scan v d (file_of ls) st"
      using tab by (simp add: file_of_Cons del: scan.simps split: if_splits)
    then show ?thesis using Cons.IH [OF good(2)] None by (simp only: find_device.simps option.case)
  next
    case (Some n)
    have t: "9 \<in> set l" using Some no_tab_no_entry [of l d] by (cases "9 \<in> set l") auto
    have notab: "9 \<notin> set (after_tab l)" and fits: "length n < PCI_MAX_NAMESIZE"
      using good_lineD(3) [OF good(1) Some] by auto
    have e: "entry (wanted v d ?num) (after_tab l) = Some n" using Some assms(3) by simp
    have "pps ?num = PPS_NUM_1" by simp
    note n = scan_entry [OF this l(2) notab e]
    have "scan v d (n @ 0x0A # file_of ls) (?num\<lparr>pps := PPS_NAME\<rparr>) =
        ok (Stop (?num\<lparr>pps := PPS_NAME, name_pos := 0 + length n, device_buf := put_name 0 n (device_buf st)\<rparr>))"
      using n(2,3) fits assms(3-5) scan_device_name [of "?num\<lparr>pps := PPS_NAME\<rparr>" n v d "file_of ls"] by simp
    then have "scan v d (file_of (l # ls)) st =
        ok (Stop (?num\<lparr>pps := PPS_NAME, name_pos := 0 + length n, device_buf := put_name 0 n (device_buf st)\<rparr>))"
      using tab t n(1) by (simp add: file_of_Cons del: scan.simps)
    then show ?thesis using Some by simp
  qed
qed

lemma scan_vendors:
  assumes "list_all (good_line v d) ls" and "pps st = PPS_NUM_1" and "ppss st = PPSS_VENDOR"
    and "name_pos st = 0" and "length (vendor_buf st) = PCI_MAX_NAMESIZE"
  shows "scan v d (file_of ls) st =
    (case find_vendor v ls of
       None \<Rightarrow> ok (Next st)
     | Some (n, ls') \<Rightarrow> scan v d (file_of ls') (st\<lparr>ppss := PPSS_DEVICE,
         vendor_buf := put_name 0 n (vendor_buf st), name_pos := 0, pps := PPS_TAB\<rparr>))"
  using assms(1)
proof (induction ls)
  case Nil
  then show ?case by (simp add: file_of_def)
next
  case (Cons l ls)
  have good: "good_line v d l" "list_all (good_line v d) ls" using Cons.prems by auto
  have l: "0x0A \<notin> set l" using good_lineD(1) [OF good(1)] .
  have st: "line_start st = st" using assms(2,3) by simp
  show ?case
  proof (cases "entry v l")
    case None
    then have "scan v d (file_of (l # ls)) st = scan v d (file_of ls) (line_start st)"
      unfolding file_of_Cons using assms(2,3) l by (intro scan_no_entry) auto
    then show ?thesis using Cons.IH [OF good(2)] None st by simp
  next
    case (Some n)
    have notab: "9 \<notin> set l" and fits: "length n < PCI_MAX_NAMESIZE"
      using good_lineD(2) [OF good(1) Some] by auto
    have "entry (wanted v d st) l = Some n" using Some assms(3) by simp
    note n = scan_entry [OF assms(2) l notab this]
    have "scan v d (n @ 0x0A # file_of ls) (st\<lparr>pps := PPS_NAME\<rparr>) =
        scan v d (file_of ls) (st\<lparr>pps := PPS_NAME, ppss := PPSS_DEVICE,
         vendor_buf := put_name 0 n (vendor_buf st), name_pos := 0, pps := PPS_TAB\<rparr>)"
      using n(2,3) fits assms(3-5) scan_vendor_name [of "st\<lparr>pps := PPS_NAME\<rparr>" n v d "file_of ls"] by simp
    then show ?thesis using Some n(1) [of "file_of ls"] by (simp add: file_of_Cons del: scan.simps)
  qed
qed

definition lookup :: "u16 \<Rightarrow> u16 \<Rightarrow> u8 list list \<Rightarrow> u8 list \<Rightarrow> u8 list \<Rightarrow> u8 list \<times> u8 list" where
  "lookup v d ls vname dname =
     (case find_vendor v ls of
        None \<Rightarrow> (vname[0 := 0], dname[0 := 0])
      | Some (n, ls') \<Rightarrow> (case find_device d ls' of
          None \<Rightarrow> ((put_name 0 n vname)[0 := 0], dname[0 := 0])
        | Some m \<Rightarrow> (put_name 0 n vname, put_name 0 m dname)))"

lemma find_vendor_rest: "find_vendor v ls = Some (n, ls') \<Longrightarrow> list_all P ls \<Longrightarrow> list_all P ls'"
  by (induction ls) (auto split: option.splits)

lemma lookup_spec:
  assumes "list_all (good_line v d) ls"
    and "length vname = PCI_MAX_NAMESIZE" and "length dname = PCI_MAX_NAMESIZE"
  shows "pci_get_vendor_dev_name (file_of ls) v d vname dname = ok (lookup v d ls vname dname)"
proof -
  let ?st = "scan_start vname dname"
  have st: "pps ?st = PPS_NUM_1" "ppss ?st = PPSS_VENDOR" "name_pos ?st = 0" "vendor_buf ?st = vname"
      "device_buf ?st = dname" by (simp_all add: scan_start_def)
  note vendors = scan_vendors [OF assms(1) st(1-3), unfolded st(4), OF assms(2)]
  show ?thesis
  proof (cases "find_vendor v ls")
    case None
    then show ?thesis using vendors assms(2,3) by (simp add: names_by_scan lookup_def set_char_def st)
  next
    case (Some x)
    then obtain n ls' where v: "find_vendor v ls = Some (n, ls')" by (cases x) auto
    let ?dev = "?st\<lparr>ppss := PPSS_DEVICE, vendor_buf := put_name 0 n vname, name_pos := 0, pps := PPS_TAB\<rparr>"
    have go: "scan v d (file_of ls) ?st = scan v d (file_of ls') ?dev" using vendors v by simp
    have "list_all (good_line v d) ls'" using v assms(1) by (rule find_vendor_rest)
    note devices = scan_devices [OF this, of ?dev]
    have len: "length (put_name 0 n vname) > 0" by (simp add: put_name_def)
    show ?thesis
    proof (cases "find_device d ls'")
      case None
      then show ?thesis using devices go v st(5) assms(3) len
        by (simp add: names_by_scan lookup_def set_char_def)
    next
      case (Some m)
      then show ?thesis using devices go v st(5) assms(3)
        by (auto simp: names_by_scan lookup_def)
    qed
  qed
qed

end
