(* ===== verification/Pci_Ids.thy ===== *)
theory Pci_Ids
  imports Pci_Names
begin

text \<open>
  The device names the kernel ships: supp/pci_supp.c, the C array that \<open>xxd\<close> makes of \<open>pci.ids\<close>,
  twelve bytes on a line. Each definition has the lines of text whose bytes stand in about 150 lines
  of that file, from the start of the array on; a tab of the text is a tab here, and every line of
  text ends with a line feed (\<open>file_of\<close>). These are the first 789 of the 39436 lines; the rest of
  the file is an argument, and what is shown asks of its lines that they are readable (\<open>good_line\<close>): no
  line break, and no name of 128 characters or with a tab in it. The lines of the file are: the six that
  are longer than 127 characters (\<open>pci_ids_long\<close>) are comments and subsystem lines, no entries.

  The lemmas: every one of these lines is one the search reads as a line, and the long lines further down are too.
\<close>

definition pci_ids_00 :: "string list" where
  "pci_ids_00 =
    [''#'',
     ''#	List of PCI ID's'',
     ''#'',
     ''#	Version: 2025.01.27'',
     ''#	Date:    2025-01-27 03:15:01'',
     ''#'',
     ''#	Maintained by Albert Pool, Martin Mares, and other volunteers from'',
     ''#	the PCI ID Project at https://pci-ids.ucw.cz/.'',
     ''#'',
     ''#	New data are always welcome, especially if they are accurate. If you have'',
     ''#	anything to contribute, please follow the instructions at the web site.'',
     ''#'',
     ''#	This file can be distributed under either the GNU General Public License'',
     ''#	(version 2 or higher) or the 3-clause BSD License.'',
     ''#'',
     ''#	The database is a compilation of factual data, and as such the copyright'',
     ''#	only covers the aggregation and formatting. The copyright is held by'',
     ''#	Martin Mares and Albert Pool.'',
     ''#'',
     '''',
     ''# Vendors, devices and subsystems. Please keep sorted.'',
     '''',
     ''# Syntax:'',
     ''# vendor  vendor_name'',
     ''#	device  device_name				<-- single tab'',
     ''#		subvendor subdevice  subsystem_name	<-- two tabs'',
     '''',
     ''0001  SafeNet (wrong ID)'',
     ''0010  Allied Telesis, Inc (Wrong ID)'',
     ''# This is a relabelled RTL-8139'',
     ''	8139  AT-2500TX V3 Ethernet'',
     ''0014  Loongson Technology LLC'',
     ''	7a00  Hyper Transport Bridge Controller'',
     ''	7a02  APB (Advanced Peripheral Bus) Controller'',
     ''	7a03  Gigabit Ethernet Controller'',
     ''	7a04  OTG USB Controller'',
     ''	7a05  Vivante GPU (Graphics Processing Unit)'',
     ''	7a06  DC (Display Controller)'',
     ''	7a07  HDA (High Definition Audio) Controller'',
     ''	7a08  SATA AHCI Controller'',
     ''	7a09  PCI-to-PCI Bridge'',
     ''	7a0b  SPI Controller'',
     ''	7a0c  LPC Controller'',
     ''	7a0f  DMA (Direct Memory Access) Controller'',
     ''# Found on some boards with two sockets'',
     ''	7a10  Hyper Transport Bridge Controller'',
     ''	7a13  7A2000 PCH Gigabit Ethernet Controller'',
     ''	7a14  EHCI USB Controller'',
     ''	7a15  Vivante GPU (Graphics Processing Unit)'',
     ''	7a18  SATA 3 AHCI Controller'',
     ''	7a19  PCI-to-PCI Bridge'',
     ''	7a1b  SPI Controller'',
     ''	7a24  OHCI USB Controller'',
     ''# Found on 7A2000 PCH'',
     ''	7a25  LG100 GPU'',
     ''	7a27  7A2000 PCH I2S Controller'']"

definition pci_ids_01 :: "string list" where
  "pci_ids_01 =
    [''	7a29  PCI-to-PCI Bridge'',
     ''	7a34  xHCI USB Controller'',
     ''# Found on 7A2000 PCH'',
     ''	7a36  Display Controller'',
     ''	7a39  PCIe x1 Root Port'',
     ''	7a49  PCIe x4 Root Port'',
     ''	7a59  PCIe x8 Root Port'',
     ''	7a69  PCIe x16 Root Port'',
     ''0018  Fn-Link Technology Limited'',
     ''	6252  6252CPUB 802.11ax PCIe Wireless Network Adapter'',
     ''001c  PEAK-System Technik GmbH'',
     ''	0001  PCAN-PCI CAN-Bus controller'',
     ''		001c 0004  2 Channel CAN Bus SJC1000'',
     ''		001c 0005  2 Channel CAN Bus SJC1000 (Optically Isolated)'',
     ''003d  Lockheed Martin-Marietta Corp'',
     ''# Real TJN ID is e159, but they got it wrong several times --mj'',
     ''0059  Tiger Jet Network Inc. (Wrong ID)'',
     ''0070  Hauppauge computer works Inc.'',
     ''	7801  WinTV HVR-1800 MCE'',
     ''0071  Nebula Electronics Ltd.'',
     ''0095  Silicon Image, Inc. (Wrong ID)'',
     ''	0680  Ultra ATA/133 IDE RAID CONTROLLER CARD'',
     ''# Wrong ID used in subsystem ID of the TELES.S0/PCI 2.x ISDN adapter'',
     ''00a7  Teles AG (Wrong ID)'',
     ''0100  nCipher Security'',
     ''0123  General Dynamics'',
     ''0128  Dell (wrong ID)'',
     ''# 018a is not LevelOne but there is a board misprogrammed'',
     ''018a  LevelOne'',
     ''	0106  FPC-0106TX misprogrammed [RTL81xx]'',
     ''01de  Oxide Computer Company'',
     ''	0000  Propolis NVMe Controller'',
     ''	0001  Propolis xHCI Controller'',
     ''	0002  Propolis PCI-PCI Bridge'',
     ''# probably misprogrammed Intel Atom C2338 on Dell 0K8Y0N board'',
     ''0200  Dell (wrong ID)'',
     ''# 021b is not Compaq but there is a board misprogrammed'',
     ''021b  Compaq Computer Corporation'',
     ''	8139  HNE-300 (RealTek RTL8139c) [iPaq Networking]'',
     ''025e  Solidigm'',
     ''	0b60  NVMe DC SSD [Sentinel Rock Plus controller]'',
     ''		025e 8008  NVMe DC SSD U.2 15mm [D7-P5510]'',
     ''		025e 8208  NVMe DC SSD U.2 15mm [D7-P5810]'',
     ''		025e 8d1d  NVMe DC SSD E1.L 9.5mm [D5-P5316]'',
     ''		025e 9008  NVMe DC SSD U.2 15mm [D7-P5520]'',
     ''		025e 900c  NVMe DC SSD E1.S 9.5mm [D7-P5520]'',
     ''		025e 900d  NVMe DC SSD E1.S 15mm [D7-P5520]'',
     ''		025e 901c  NVMe DC SSD E1.L 9.5mm [D7-P5520]'']"

definition pci_ids_02 :: "string list" where
  "pci_ids_02 =
    [''		025e 9108  NVMe DC SSD U.2 15mm [D7-P5620]'',
     ''		025e c008  NVMe DC SSD U.2 15mm [D5-P5530]'',
     ''		025e d408  NVMe DC SSD U.2 15mm [D5-P5430]'',
     ''		025e d40c  NVMe DC SSD E1.S 9.5mm [D5-P5430]'',
     ''		025e d419  NVMe DC SSD E3.S 7.5mm [D5-P5430]'',
     ''		025e d808  NVMe DC SSD U.2 15mm [D5-P5336]'',
     ''		025e d819  NVMe DC SSD E3.S 7.5mm [D5-P5336]'',
     ''		025e d81c  NVMe DC SSD E1.L 18mm [D5-P5336]'',
     ''		025e d81d  NVMe DC SSD E1.L 9.5mm [D5-P5336]'',
     ''	0b70  NVMe DC SSD [Yorktown controller]'',
     ''	2b59  NVMe DC SSD [Atomos Prime]'',
     ''		025e 0008  NVMe DC SSD U.2-SFF 15mm [D7-PS1010]'',
     ''		025e 0019  NVMe DC SSD E3.S-1T 7.5mm [D7-PS1010]'',
     ''		025e 0108  NVMe DC SSD U.2-SFF 15mm [D7-PS1030]'',
     ''		025e 0119  NVMe DC SSD E3.S-1T 7.5mm [D7-PS1030]'',
     ''		108e 48a0  NVMe DC SSD U.2-SFF 15mm 3.84TB [D7-PS1010 Custom]'',
     ''		108e 48a1  NVMe DC SSD U.2-SFF 15mm 7.68TB [D7-PS1010 Custom]'',
     ''		108e 48a2  NVMe DC SSD U.2-SFF 15mm 15.36TB [D7-PS1010 Custom]'',
     ''		108e 48a3  NVMe DC SSD Add-In-Card [D7-PS1030 Custom]'',
     ''		108e 48a4  NVMe DC SSD E3.S-1T 7.5mm 3.84TB [D7-PS1010 Custom]'',
     ''		108e 48a5  NVMe DC SSD E3.S-1T 7.5mm 7.68TB [D7-PS1010 Custom]'',
     ''		108e 48a6  NVMe DC SSD E3.S-1T 7.5mm 15.36TB [D7-PS1010 Custom]'',
     ''	f1ab  P41 Plus NVMe SSD (DRAM-less) [Echo Harbor]'',
     ''	f1ac  P44 Pro NVMe SSD [Hollywood Beach]'',
     ''0270  Hauppauge computer works Inc. (Wrong ID)'',
     ''0291  Davicom Semiconductor, Inc. (Wrong ID)'',
     ''# SpeedStream is Efficient Networks, Inc, a Siemens Company'',
     ''02ac  SpeedStream'',
     ''	1012  1012 PCMCIA 10/100 Ethernet Card [RTL81xx]'',
     ''02e0  XFX Pine Group Inc. (Wrong ID)'',
     ''0303  Hewlett-Packard Company (Wrong ID)'',
     ''0308  ZyXEL Communications Corporation (Wrong ID)'',
     ''0315  SK-Electronics Co., Ltd.'',
     ''0357  TTTech Computertechnik AG (Wrong ID)'',
     ''	000a  TTP-Monitoring Card V2.0'',
     ''0432  SCM Microsystems, Inc.'',
     ''	0001  Pluto2 DVB-T Receiver for PCMCIA [EasyWatch MobilSet]'']"

definition pci_ids_03 :: "string list" where
  "pci_ids_03 =
    [''0497  Dell Inc. (wrong ID)'',
     ''060e  Lightelligence'',
     ''	0001  Hummingbird ES'',
     ''0675  Dynalink'',
     ''	1700  IS64PH ISDN Adapter'',
     ''	1702  IS64PH ISDN Adapter'',
     ''	1703  ISDN Adapter (PCI Bus, DV, W)'',
     ''	1704  ISDN Adapter (PCI Bus, D, C)'',
     ''0709  LJMicro Co., Ltd'',
     ''	0101  GP101'',
     ''	0102  GP102'',
     ''	0201  GP201'',
     ''	0202  GP202'',
     ''0721  Sapphire, Inc.'',
     ''0731  Jingjia Microelectronics Co Ltd'',
     ''	7200  JM7200 Series GPU'',
     ''		0731 7201  JM7201'',
     ''		0731 7202  JM7202'',
     ''		0731 7208  JM7200'',
     ''		0731 7212  JM7200'',
     ''		0731 7214  JM7500'',
     ''		0731 7215  JM7200'',
     ''	9100  JM9100'',
     ''		0731 9101  JM9100'',
     ''		0731 9102  JM9100-I'',
     ''		0731 9103  JM9100M'',
     ''	910a  JH910'',
     ''		0731 910a  JH910'',
     ''		0731 910b  JH910-I'',
     ''		0731 910c  JH910-M'',
     ''	9200  JM9200'',
     ''	920a  JH920'',
     ''		0731 920a  JH920'',
     ''		0731 920b  JH920-I'',
     ''		0731 920c  JH920-M'',
     ''	920b  JH920-I'',
     ''	920c  JH920-M'',
     ''	9210  JM9210'',
     ''		0731 9210  JM9210'',
     ''		0731 9211  JM9210-I'',
     ''	9211  JM9210-I'',
     ''	9230  JM9230'',
     ''		0731 9230  JM9230'',
     ''		0731 9231  JM9230-I'',
     ''	9231  JM9231-I'',
     ''	9250  JM9250'',
     ''		0731 9250  JM9250'',
     ''	930a  JH930-I'',
     ''		0731 930a  JH930-I'',
     ''		0731 930b  JH930-M'',
     ''		0731 930c  JH930'',
     ''	930b  JH930-M'',
     ''0777  Ubiquiti Networks, Inc.'',
     ''0795  Wired Inc.'',
     ''	6663  Butane II (MPEG2 encoder board)'',
     ''	6666  MediaPress (MPEG2 encoder board)'',
     ''07d1  D-Link System Inc'',
     ''0824  T1042 [Freescale]'',
     ''0911  Hantick'',
     ''0925  VIA Technologies, Inc. (Wrong ID)'',
     ''0a89  BREA Technologies Inc'',
     ''0b0b  Rhino Equipment Corp.'',
     ''	0105  R1T1'',
     ''	0205  R4FXO'',
     ''	0206  RCB4FXO 4-channel FXO analog telephony card'',
     ''	0305  R4T1'',
     ''	0405  R8FXX'',
     ''	0406  RCB8FXX 8-channel modular analog telephony card'',
     ''	0505  R24FXX'',
     ''	0506  RCB24FXS 24-Channel FXS analog telephony card'',
     ''	0605  R2T1'',
     ''	0705  R24FXS'',
     ''	0706  RCB24FXO 24-Channel FXO analog telephony card'',
     ''	0905  R1T3 Single T3 Digital Telephony Card'',
     ''	0906  RCB24FXX 24-channel modular analog telephony card'',
     ''	0a06  RCB672FXX 672-channel modular analog telephony card'']"

definition pci_ids_04 :: "string list" where
  "pci_ids_04 =
    [''0bae  Bachmann electronic GmbH'',
     ''0ccd  Preferred Networks, Inc.'',
     ''	0110  MN-Core'',
     ''	0120  MN-Core 2'',
     ''		0ccd 0000  MN-Core 2 16GB'',
     ''		0ccd 0010  MN-Core 2 32GB'',
     ''	0200  MN-Core Direct Connect'',
     ''	0201  MN-Core 2 Middle-plane'',
     ''0e11  Compaq Computer Corporation'',
     ''	0001  PCI to EISA Bridge'',
     ''	0002  PCI to ISA Bridge'',
     ''	0046  Smart Array 64xx'',
     ''		0e11 4091  Smart Array 6i'',
     ''		0e11 409a  Smart Array 641'',
     ''		0e11 409b  Smart Array 642'',
     ''		0e11 409c  Smart Array 6400'',
     ''		0e11 409d  Smart Array 6400 EM'',
     ''	0049  NC7132 Gigabit Upgrade Module'',
     ''	004a  NC6136 Gigabit Server Adapter'',
     ''	005a  Remote Insight II board - Lights-Out'',
     ''	007c  NC7770 1000BaseTX'',
     ''	007d  NC6770 1000BaseTX'',
     ''	0085  NC7780 1000BaseTX'',
     ''	00b1  Remote Insight II board - PCI device'',
     ''	00bb  NC7760'',
     ''	00ca  NC7771'',
     ''	00cb  NC7781'',
     ''	00cf  NC7772'',
     ''	00d0  NC7782'',
     ''	00d1  NC7783'',
     ''	00e3  NC7761'',
     ''	0508  Netelligent 4/16 Token Ring'',
     ''	1000  Triflex/Pentium Bridge, Model 1000'',
     ''	2000  Triflex/Pentium Bridge, Model 2000'',
     ''	3032  QVision 1280/p'',
     ''	3033  QVision 1280/p'',
     ''	3034  QVision 1280/p'',
     ''	4000  4000 [Triflex]'',
     ''	4040  Integrated Array'',
     ''	4048  Compaq Raid LC2'',
     ''	4050  Smart Array 4200'',
     ''	4051  Smart Array 4250ES'',
     ''	4058  Smart Array 431'',
     ''	4070  Smart Array 5300'',
     ''	4080  Smart Array 5i'',
     ''	4082  Smart Array 532'',
     ''	4083  Smart Array 5312'',
     ''	4091  Smart Array 6i'',
     ''	409a  Smart Array 641'',
     ''	409b  Smart Array 642'',
     ''	409c  Smart Array 6400'',
     ''	409d  Smart Array 6400 EM'',
     ''	6010  HotPlug PCI Bridge 6010'',
     ''	7020  USB Controller'',
     ''	a0ec  Fibre Channel Host Controller'',
     ''	a0f0  Advanced System Management Controller'',
     ''		0e11 b0f3  ProLiant DL360'',
     ''	a0f3  Triflex PCI to ISA Bridge'',
     ''	a0f7  PCI Hotplug Controller'',
     ''		8086 002a  PCI Hotplug Controller A'',
     ''		8086 002b  PCI Hotplug Controller B'',
     ''	a0f8  ZFMicro Chipset USB'',
     ''	a0fc  FibreChannel HBA Tachyon'',
     ''	ae10  Smart-2/P RAID Controller'',
     ''		0e11 4030  Smart-2/P Array Controller'']"

definition pci_ids_05 :: "string list" where
  "pci_ids_05 =
    [''		0e11 4031  Smart-2SL Array Controller'',
     ''		0e11 4032  Smart Array 3200 Controller'',
     ''		0e11 4033  Smart Array 3100ES Controller'',
     ''		0e11 4034  Smart Array 221 Controller'',
     ''	ae29  MIS-L'',
     ''	ae2a  MPC'',
     ''	ae2b  MIS-E'',
     ''	ae31  System Management Controller'',
     ''	ae32  Netelligent 10/100 TX PCI UTP'',
     ''	ae33  Triflex Dual EIDE Controller'',
     ''	ae34  Netelligent 10 T PCI UTP'',
     ''	ae35  Integrated NetFlex-3/P'',
     ''	ae40  Netelligent Dual 10/100 TX PCI UTP'',
     ''	ae43  Netelligent Integrated 10/100 TX UTP'',
     ''	ae69  CETUS-L'',
     ''	ae6c  Northstar'',
     ''	ae6d  NorthStar CPU to PCI Bridge'',
     ''	b011  Netelligent 10/100 TX Embedded UTP'',
     ''	b012  Netelligent 10 T/2 PCI UTP/Coax'',
     ''	b01e  NC3120 Fast Ethernet NIC'',
     ''	b01f  NC3122 Fast Ethernet NIC'',
     ''	b02f  NC1120 Ethernet NIC'',
     ''	b030  Netelligent 10/100 TX UTP'',
     ''	b04a  10/100 TX PCI Intel WOL UTP Controller'',
     ''	b060  Smart Array 5300 Controller'',
     ''	b0c6  NC3161 Fast Ethernet NIC'',
     ''	b0c7  NC3160 Fast Ethernet NIC'',
     ''	b0d7  NC3121 Fast Ethernet NIC'',
     ''	b0dd  NC3131 Fast Ethernet NIC'',
     ''	b0de  NC3132 Fast Ethernet Module'',
     ''	b0df  NC6132 Gigabit Module'',
     ''	b0e0  NC6133 Gigabit Module'',
     ''	b0e1  NC3133 Fast Ethernet Module'',
     ''	b123  NC6134 Gigabit NIC'',
     ''	b134  NC3163 Fast Ethernet NIC'',
     ''	b13c  NC3162 Fast Ethernet NIC'',
     ''	b144  NC3123 Fast Ethernet NIC'',
     ''	b163  NC3134 Fast Ethernet NIC'',
     ''	b164  NC3165 Fast Ethernet Upgrade Module'',
     ''	b178  Smart Array 5i/532'',
     ''		0e11 4080  Smart Array 5i'',
     ''		0e11 4082  Smart Array 532'',
     ''		0e11 4083  Smart Array 5312'',
     ''	b1a4  NC7131 Gigabit Server Adapter'',
     ''	b200  Memory Hot-Plug Controller'',
     ''	b203  Integrated Lights Out Controller'',
     ''		103c 3305  iLO2'',
     ''	b204  Integrated Lights Out  Processor'',
     ''		103c 3305  iLO2'',
     ''	c000  Remote Insight Lights-Out Edition'',
     ''	f130  NetFlex-3/P ThunderLAN 1.0'',
     ''	f150  NetFlex-3/P ThunderLAN 2.3'',
     ''0e55  HaSoTec GmbH'',
     ''0eac  SHF Communication Technologies AG'',
     ''	0008  Ethernet Powerlink Managing Node 01'']"

definition pci_ids_06 :: "string list" where
  "pci_ids_06 =
    [''0f62  Acrox Technologies Co., Ltd.'',
     ''1000  Broadcom / LSI'',
     ''	0001  53c810'',
     ''		1000 1000  LSI53C810AE PCI to SCSI I/O Processor'',
     ''	0002  53c820'',
     ''	0003  53c825'',
     ''		1000 1000  LSI53C825AE PCI to SCSI I/O Processor (Ultra Wide)'',
     ''	0004  53c815'',
     ''	0005  53c810AP'',
     ''	0006  53c860'',
     ''		1000 1000  LSI53C860E PCI to Ultra SCSI I/O Processor'',
     ''	000a  53c1510'',
     ''		0e11 b143  Integrated Dual Channel Wide Ultra2 SCSI Controller'',
     ''		1000 1000  LSI53C1510 PCI to Dual Channel Wide Ultra2 SCSI Controller (Nonintelligent mode)'',
     ''	000b  53C896/897'',
     ''		0e11 6004  EOB003 Series SCSI host adapter'',
     ''		1000 1000  LSI53C896/7 PCI to Dual Channel Ultra2 SCSI Multifunction Controller'',
     ''		1000 1010  LSI22910 PCI to Dual Channel Ultra2 SCSI host adapter'',
     ''		1000 1020  LSI21002 PCI to Dual Channel Ultra2 SCSI host adapter'',
     ''		13e9 1000  6221L-4U (Dual U2W SCSI, dual 10/100TX, graphics)'',
     ''	000c  53c895'',
     ''		1000 1010  LSI8951U PCI to Ultra2 SCSI host adapter'',
     ''		1000 1020  LSI8952U PCI to Ultra2 SCSI host adapter'',
     ''		1de1 3906  DC-390U2B SCSI adapter'',
     ''		1de1 3907  DC-390U2W'',
     ''	000d  53c885'',
     ''	000f  53c875'',
     ''		0e11 7004  Embedded Ultra Wide SCSI Controller'',
     ''		1000 1000  LSI53C876/E PCI to Dual Channel SCSI Controller'',
     ''		1000 1010  LSI22801 PCI to Dual Channel Ultra SCSI host adapter'',
     ''		1000 1020  LSI22802 PCI to Dual Channel Ultra SCSI host adapter'',
     ''		1092 8760  FirePort 40 Dual SCSI Controller'',
     ''		1775 10d0  V5D Single Board Computer Wide Ultra SCSI'',
     ''		1775 10d1  V5D Single Board Computer Ultra SCSI'',
     ''		1de1 3904  DC390F/U Ultra Wide SCSI Adapter'',
     ''		4c53 1000  CC7/CR7/CP7/VC7/VP7/VR7 mainboard'',
     ''		4c53 1050  CT7 mainboard'',
     ''	0010  53C1510'',
     ''		0e11 4040  Integrated Smart Array Controller'',
     ''		0e11 4048  RAID LC2 Controller'',
     ''		1000 1000  53C1510 PCI to Dual Channel Wide Ultra2 SCSI Controller (Intelligent mode)'',
     ''	0012  53c895a'']"

definition pci_ids_07 :: "string list" where
  "pci_ids_07 =
    [''		1000 1000  LSI53C895A PCI to Ultra2 SCSI Controller'',
     ''	0013  53c875a'',
     ''		1000 1000  LSI53C875A PCI to Ultra SCSI Controller'',
     ''	0014  MegaRAID Tri-Mode SAS3516'',
     ''		1000 9460  MegaRAID 9460-16i'',
     ''		1000 9480  MegaRAID 9480-8i8e'',
     ''		1000 9481  MegaRAID 9480-8e'',
     ''		1028 1f3a  PERC H745 Adapter'',
     ''		1028 1f3b  PERC H745 Front'',
     ''		1028 1fd4  PERC H745P MX'',
     ''		1137 020e  UCSC-RAID-M5 12G Modular RAID Controller'',
     ''		1d49 0602  ThinkSystem RAID 930-16i 4GB Flash PCIe 12Gb Adapter'',
     ''		1d49 0604  ThinkSystem RAID 930-8e 4GB Flash PCIe 12Gb Adapter'',
     ''		1d49 0607  ThinkSystem RAID 930-16i 8GB Flash PCIe 12Gb Adapter'',
     ''		8086 352d  Integrated RAID Module RMSP3AD160F'',
     ''		8086 9460  RAID Controller RSP3TD160F'',
     ''		8086 9480  RAID Controller RSP3MD088F'',
     ''	0015  MegaRAID Tri-Mode SAS3416'',
     ''		1000 9441  MegaRAID 9440-16i'',
     ''		1028 1f3c  PERC H345 Adapter'',
     ''		1028 1f3d  PERC H345 Front'',
     ''		1d49 0503  ThinkSystem RAID 530-16i PCIe 12Gb Adapter'',
     ''	0016  MegaRAID Tri-Mode SAS3508'',
     ''		1000 9461  MegaRAID 9460-8i'',
     ''		1000 9462  MegaRAID 9460-4i'',
     ''		1000 9463  MegaRAID 9365-28i'',
     ''		1000 9464  MegaRAID 9365-24i'',
     ''		1028 1fc9  PERC H840 Adapter'',
     ''		1028 1fcb  PERC H740P Adapter'',
     ''		1028 1fcd  PERC H740P Mini'',
     ''		1028 1fcf  PERC H740P Mini'',
     ''		1d49 0601  ThinkSystem RAID 930-8i 2GB Flash PCIe 12Gb Adapter'',
     ''		1d49 0603  ThinkSystem RAID 930-24i 4GB Flash PCIe 12Gb Adapter'',
     ''		8086 352e  Integrated RAID Module RMSP3CD080F'',
     ''		8086 352f  Integrated RAID Module RMSP3HD080E'',
     ''		8086 9461  RAID Controller RSP3DD080F'',
     ''	0017  MegaRAID Tri-Mode SAS3408'',
     ''		1000 9440  MegaRAID 9440-8i'',
     ''		1000 9442  MegaRAID 9440-4i'',
     ''		1d49 0500  ThinkSystem RAID 530-8i PCIe 12Gb Adapter'',
     ''		1d49 0502  ThinkSystem RAID 530-8i Dense Adapter'',
     ''		8086 3528  Integrated RAID RMSP3LD060'',
     ''		8086 3529  Integrated RAID RMSP3LD060'',
     ''		8086 9441  RAID Controller RSP3WD080E'',
     ''	001b  MegaRAID Tri-Mode SAS3504'']"

definition pci_ids_08 :: "string list" where
  "pci_ids_08 =
    [''		1d49 0605  ThinkSystem RAID 930-4i 2GB Flash Flex Adapter'',
     ''	001c  MegaRAID Tri-Mode SAS3404'',
     ''		1d49 0501  ThinkSystem RAID 530-4i Flex Adapter'',
     ''	0020  53c1010 Ultra3 SCSI Adapter'',
     ''		1000 1000  LSI53C1010-33 PCI to Dual Channel Ultra160 SCSI Controller'',
     ''		107b 1040  Server Onboard 53C1010-33'',
     ''		1de1 1020  DC-390U3W'',
     ''	0021  53c1010 66MHz  Ultra3 SCSI Adapter'',
     ''		1000 1000  LSI53C1000/1000R/1010R/1010-66 PCI to Ultra160 SCSI Controller'',
     ''		1000 1010  Asus TR-DLS onboard 53C1010-66'',
     ''		103c 1300  Ultra160 SCSI [AB306A]'',
     ''		103c 1310  Ultra160 SCSI [A9918A]'',
     ''		103c 1330  Ultra160 SCSI [A7059A]'',
     ''		103c 1340  Ultra160 SCSI [A7060A]'',
     ''		124b 1070  PMC-USCSI3'',
     ''		4c53 1080  CT8 mainboard'',
     ''		4c53 1300  P017 mezzanine (32-bit PMC)'',
     ''		4c53 1310  P017 mezzanine (64-bit PMC)'',
     ''	002f  MegaRAID SAS 2208 IOV [Thunderbolt]'',
     ''		1028 1f39  SPERC8-e'',
     ''		1028 1f3e  SPERC 8'',
     ''	0030  53c1030 PCI-X Fusion-MPT Dual Ultra320 SCSI'',
     ''		0e11 00da  ProLiant ML 350'',
     ''		1028 0123  LSI Logic 1020/1030'',
     ''		1028 014a  LSI Logic 1020/1030'',
     ''		1028 016c  PowerEdge 1850 MPT Fusion SCSI/RAID (Perc 4)'',
     ''		1028 0183  LSI Logic 1020/1030'',
     ''		1028 018a  PERC 4/IM'',
     ''		1028 1010  LSI U320 SCSI Controller'',
     ''		103c 12c5  Ultra320 SCSI [A7173A]'',
     ''		103c 1323  Core I/O LAN/SCSI Combo [AB314A]'',
     ''		103c 3108  Single Channel Ultra320 SCSI HBA G2'',
     ''		103c 322a  SC11Xe Ultra320 Single Channel PCIe x4 SCSI Host Bus Adapter (412911-B21)'',
     ''		124b 1170  PMC-USCSI320'',
     ''		15ad 1976  LSI Logic Parallel SCSI Controller (emulated)'',
     ''		1734 1052  PRIMERGY BX/RX/TX S2 series onboard SCSI(IME)'',
     ''	0031  53c1030ZC PCI-X Fusion-MPT Dual Ultra320 SCSI'',
     ''	0032  53c1035 PCI-X Fusion-MPT Dual Ultra320 SCSI'',
     ''		1000 1000  LSI53C1020/1030 PCI-X to Ultra320 SCSI Controller'',
     ''	0033  1030ZC_53c1035 PCI-X Fusion-MPT Dual Ultra320 SCSI'',
     ''	0040  53c1035 PCI-X Fusion-MPT Dual Ultra320 SCSI'']"

definition pci_ids_09 :: "string list" where
  "pci_ids_09 =
    [''		1000 0033  MegaRAID SCSI 320-2XR'',
     ''		1000 0066  MegaRAID SCSI 320-2XRWS'',
     ''	0041  53C1035ZC PCI-X Fusion-MPT Dual Ultra320 SCSI'',
     ''	0050  SAS1064 PCI-X Fusion-MPT SAS'',
     ''		1028 1f04  SAS 5/E'',
     ''		1028 1f09  SAS 5i/R'',
     ''	0052  MegaRAID SAS-3 3216/3224 [Cutlass]'',
     ''	0053  MegaRAID SAS-3 3216/3224 [Cutlass]'',
     ''		1000 9350  MegaRAID SAS 9341-16i'',
     ''		1000 9351  MegaRAID SAS 9341-24i'',
     ''	0054  SAS1068 PCI-X Fusion-MPT SAS'',
     ''		1028 1f04  SAS 5/E Adapter Controller'',
     ''		1028 1f05  SAS 5/i Adapter Controller'',
     ''		1028 1f06  SAS 5/i Integrated Controller'',
     ''		1028 1f07  SAS 5/iR Integrated RAID Controller'',
     ''		1028 1f08  SAS 5/iR Integrated RAID Controller'',
     ''		1028 1f09  SAS 5/iR Adapter RAID Controller'',
     ''		103c 3228  SAS3080X-HP 8-port PCI-X 133MHz Host Bus Adapter with 2xSFF-8484'',
     ''		15ad 1976  SAS Controller'',
     ''	0055  SAS1068 PCI-X Fusion-MPT SAS'',
     ''		1033 8336  SAS1068'',
     ''	0056  SAS1064ET PCI-Express Fusion-MPT SAS'',
     ''		1014 03bb  ServeRAID BR10il SAS/SATA Controller v2'',
     ''		8086 34dc  AXX4SASMOD RAID Controller'',
     ''	0057  M1064E MegaRAID SAS'',
     ''		8086 346c  Embedded Software RAID Technology II (ESTRII)'',
     ''	0058  SAS1068E PCI-Express Fusion-MPT SAS'',
     ''		1000 3140  SAS3081E-R 8-Port SAS/SATA Host Bus Adapter'',
     ''		1028 021d  SAS 6/iR Integrated Workstations RAID Controller'',
     ''		1028 1f0e  SAS 6/iR Adapter RAID Controller'',
     ''		1028 1f0f  SAS 6/iR Integrated Blades RAID Controller'',
     ''		1028 1f10  SAS 6/iR Integrated RAID Controller'',
     ''		103c 3229  SC44Ge Host Bus Adapter'',
     ''	0059  MegaRAID SAS 8208ELP/8208ELP'',
     ''	005a  SAS1066E PCI-Express Fusion-MPT SAS'',
     ''	005b  MegaRAID SAS 2208 [Thunderbolt]'',
     ''		1000 9265  MegaRAID SAS 9265-8i'',
     ''		1000 9266  MegaRAID SAS 9266-8i'',
     ''		1000 9267  MegaRAID SAS 9267-8i'',
     ''		1000 9268  MegaRAID SAS 9265CV-8i / 9270CV-8i'',
     ''		1000 9269  MegaRAID SAS 9266-4i'',
     ''		1000 9270  MegaRAID SAS 9270-8i'',
     ''		1000 9271  MegaRAID SAS 9271-8i'']"

definition pci_ids_10 :: "string list" where
  "pci_ids_10 =
    [''		1000 9272  MegaRAID SAS 9272-8i'',
     ''		1000 9273  MegaRAID SAS 9270CV-8i'',
     ''		1000 9274  MegaRAID SAS 9270-4i'',
     ''		1000 9275  MegaRAID SAS 9271-8iCC'',
     ''		1000 9276  MegaRAID SAS 9271-4i'',
     ''		1000 9285  MegaRAID SAS 9285-8e'',
     ''		1000 9288  MegaRAID SAS 9285CV-8e'',
     ''		1000 9290  MegaRAID SAS 9286-8e'',
     ''		1000 9291  MegaRAID SAS 9286CV-8e'',
     ''		1000 9295  MegaRAID SAS 9286CV-8eCC'',
     ''		1014 040b  ServeRAID M5110 SAS/SATA Controller'',
     ''		1014 040c  ServeRAID M5120 SAS/SATA Controller'',
     ''		1014 0412  ServeRAID M5110e SAS/SATA Controller'',
     ''		1028 1f2d  PERC H810 Adapter'',
     ''		1028 1f30  PERC H710 Embedded'',
     ''		1028 1f31  PERC H710P Adapter'',
     ''		1028 1f33  PERC H710P Mini (for blades)'',
     ''		1028 1f34  PERC H710P Mini (for monolithics)'',
     ''		1028 1f35  PERC H710 Adapter'',
     ''		1028 1f37  PERC H710 Mini (for blades)'',
     ''		1028 1f38  PERC H710 Mini (for monolithics)'',
     ''		15d9 0690  LSI MegaRAID ROMB'',
     ''		8086 3510  RMS25PB080 RAID Controller'',
     ''		8086 3511  RMS25PB040 RAID Controller'',
     ''		8086 3512  RMT3PB080 RAID Controller'',
     ''		8086 3513  Integrated RAID Module RMS25CB080'',
     ''		8086 3514  RMS25CB040 RAID Controller'',
     ''		8086 351c  RMS25PB080N RAID Controller'',
     ''		8086 351d  RMS25CB080N RAID Controller'',
     ''		8086 9265  RS25DB080 RAID Controller'',
     ''		8086 9268  RS25AB080 RAID Controller'',
     ''		8086 9285  RS25NB008 RAID Controller'',
     ''		8086 9288  RS25SB008 RAID Controller'',
     ''	005c  SAS1064A PCI-X Fusion-MPT SAS'',
     ''	005d  MegaRAID SAS-3 3108 [Invader]'',
     ''		1000 9361  MegaRAID SAS 9361-8i'',
     ''		1000 9363  MegaRAID SAS 9361-4i'',
     ''		1000 9364  MegaRAID SAS 9364-8i'',
     ''		1000 936a  MegaRAID SAS 9364-8i'',
     ''		1000 9380  MegaRAID SAS 9380-8e'',
     ''		1028 1f41  PERC H830 Adapter'',
     ''		1028 1f42  PERC H730P Adapter'',
     ''		1028 1f43  PERC H730 Adapter'',
     ''		1028 1f47  PERC H730P Mini'',
     ''		1028 1f48  PERC H730P Mini (for blades)'',
     ''		1028 1f49  PERC H730 Mini'',
     ''		1028 1f4a  PERC H730 Mini (for blades)'',
     ''		1028 1f4d  PERC FD33xS'']"

definition pci_ids_11 :: "string list" where
  "pci_ids_11 =
    [''		1028 1f4f  PERC H730P Slim'',
     ''		1028 1f54  PERC FD33xD'',
     ''		1028 1fd1  PERC H730P MX'',
     ''		1734 11f6  PRAID EP400i'',
     ''		17aa 1052  ThinkServer RAID 720i'',
     ''		17aa 1053  ThinkServer RAID 720ix'',
     ''		1bd4 0014  12G SAS3108 2G'',
     ''		1bd4 0015  12G SAS3108 4G'',
     ''		1d49 0600  ThinkSystem RAID 730-8i 1GB Cache PCIe 12Gb Adapter'',
     ''		1d49 0608  ThinkSystem RAID 730-8i 2GB Flash PCIe 12Gb Adapter'',
     ''		1d49 0609  ThinkSystem RAID 730-8i 4GB Flash PCIe 12Gb Adapter'',
     ''		8086 351e  RMS3CC080 RAID Controller'',
     ''		8086 351f  RMS3CC040 RAID Controller'',
     ''		8086 9360  RS3DC080 RAID Controller'',
     ''		8086 9362  RS3DC040 RAID Controller'',
     ''		8086 9380  RS3SC008 RAID Controller'',
     ''		8086 9381  RS3MC044 RAID Controller'',
     ''	005e  SAS1066 PCI-X Fusion-MPT SAS'',
     ''	005f  MegaRAID SAS-3 3008 [Fury]'',
     ''		1028 1f44  PERC H330 Adapter'',
     ''		1028 1f4b  PERC H330 Mini'',
     ''		1028 1f4c  PERC H330 Mini (for blades)'',
     ''		1028 1f4d  PERC H330 Embedded (for monolithic)'',
     ''		1054 306a  SAS 3004 iMR ROMB'',
     ''		1734 1211  PRAID CP400i [D3307-A12]'',
     ''		1d49 04db  ServeRAID M1210 SAS/SATA Controller'',
     ''		1d49 0504  ThinkSystem RAID 520-8i PCIe 12Gb Adapter'',
     ''	0060  MegaRAID SAS 1078'',
     ''		1000 1006  MegaRAID SAS 8888ELP'',
     ''		1000 100a  MegaRAID SAS 8708ELP'',
     ''		1000 100e  MegaRAID SAS 8884E'',
     ''		1000 100f  MegaRAID SAS 8708E'',
     ''		1000 1010  MegaRAID SATA 350-8ELP'',
     ''		1000 1011  MegaRAID SATA 350-4ELP'',
     ''		1000 1012  MegaRAID SAS 8704ELP'',
     ''		1000 1016  MegaRAID SAS 8880EM2'',
     ''		1014 0363  MegaRAID SAS PCI Express ROMB'',
     ''		1014 0364  SystemX MegaRAID SAS 8808E'',
     ''		1014 0365  SystemX MegaRAID SAS 8884E'',
     ''		1014 0379  SystemX MegaRAID SAS 8880EM2'',
     ''		1028 1f0a  PERC 6/E Adapter RAID Controller'',
     ''		1028 1f0b  PERC 6/i Adapter RAID Controller'',
     ''		1028 1f0c  PERC 6/i Integrated RAID Controller'',
     ''		1028 1f0d  PERC 6/i Integrated RAID Controller'',
     ''		1028 1f11  CERC 6/i Integrated RAID Controller'']"

definition pci_ids_12 :: "string list" where
  "pci_ids_12 =
    [''		1033 835a  MegaRAID SAS PCI Express ROMB'',
     ''		1043 824d  MegaRAID SAS PCI Express ROMB'',
     ''		1170 002f  MegaRAID SAS PCI Express ROMB'',
     ''		1170 0036  MegaRAID SAS PCI Express ROMB'',
     ''		15d9 c080  MegaRAID SAS PCI Express ROMB'',
     ''		17aa 6b7c  MegaRAID SAS PCI Express ROMB'',
     ''		18a1 0003  LSI MegaRAID SAS PCI Express ROMB'',
     ''		8086 1006  RAID Controller SRCSAS28EP'',
     ''		8086 100a  RAID Controller SRCSAS28EV'',
     ''		8086 1010  RAID Controller SRCSATA28E'',
     ''		8086 34cc  Integrated RAID Controller SROMBSAS28E'',
     ''		8086 34cd  Integrated RAID Controller SROMBSAS28E'',
     ''		8086 3505  Integrated RAID Controller SROMBSASMP2'',
     ''	0062  SAS1078 PCI-Express Fusion-MPT SAS'',
     ''		1000 0062  SAS1078 PCI-Express Fusion-MPT SAS'',
     ''	0064  SAS2116 PCI-Express Fusion-MPT SAS-2 [Meteor]'',
     ''		1000 3030  9200-16e 6Gb/s SAS/SATA PCIe x8 External HBA'',
     ''		1000 30c0  SAS 9201-16i'',
     ''		1000 30d0  9201-16e 6Gb/s SAS/SATA PCIe x8 External HBA'',
     ''	0065  SAS2116 PCI-Express Fusion-MPT SAS-2 [Meteor]'',
     ''	006e  SAS2308 PCI-Express Fusion-MPT SAS-2'',
     ''	0070  SAS2004 PCI-Express Fusion-MPT SAS-2 [Spitfire]'',
     ''		1000 3010  SAS9211-4i'',
     ''		1014 040e  ServeRAID H1110'',
     ''	0071  MR SAS HBA 2004'',
     ''	0072  SAS2008 PCI-Express Fusion-MPT SAS-2 [Falcon]'',
     ''		1000 3020  9211-8i'',
     ''		1000 3040  9210-8i'',
     ''		1000 3080  9200-8e [LSI SAS 6Gb/s SAS/SATA PCIe x8 External HBA]'',
     ''		1000 30b0  9200-8e [LSI SAS 6Gb/s SAS/SATA PCIe x8 External HBA]'',
     ''		1014 03ca  IBM 6Gb SAS HBA [9212-4i4e]'',
     ''		1028 1f1c  6Gbps SAS HBA Adapter'',
     ''		1028 1f1d  PERC H200 Adapter'',
     ''		1028 1f1e  PERC H200 Integrated'',
     ''		1028 1f1f  PERC H200 Modular'',
     ''		1028 1f20  PERC H200 Embedded'',
     ''		1028 1f22  PERC H200 Internal Tape Adapter'',
     ''# Fujitsu D2607 SAS2008 HBA controller'',
     ''		1734 1177  HBA Ctrl SAS 6G 0/1 [D2607]'',
     ''		1bd4 000d  6G SAS2008IT'',
     ''		1bd4 000e  6G SAS2008IR'',
     ''		1bd4 000f  6G SAS2008IT SA5248'',
     ''		1bd4 0010  6G SAS2008IR SA5248'']"

definition pci_ids_13 :: "string list" where
  "pci_ids_13 =
    [''		4c52 96c8  LRSA96C8 8-Port SATA3(6Gb/s)Exchange Adapter (with Raid)'',
     ''		8086 350f  RMS2LL040 RAID Controller'',
     ''		8086 3700  SSD 910 Series'',
     ''	0073  MegaRAID SAS 2008 [Falcon]'',
     ''		1000 9240  MegaRAID SAS 9240-8i'',
     ''		1000 9241  MegaRAID SAS 9240-4i'',
     ''		1000 92a0  MegaRAID SAS 9220-8i'',
     ''		1014 03b1  ServeRAID M1015 SAS/SATA Controller'',
     ''		1014 040d  ServeRAID M1115 SAS/SATA Controller'',
     ''		1028 1f4e  PERC H310 Adapter'',
     ''		1028 1f4f  PERC H310 Integrated'',
     ''		1028 1f50  PERC H310 Mini Blades'',
     ''		1028 1f51  PERC H310 Mini Monolithics'',
     ''		1028 1f52  PERC H310 Embedded1'',
     ''		1028 1f53  PERC H310 Embedded2'',
     ''		1028 1f54  PERC H310 Reserved'',
     ''		1028 1f78  PERC H310'',
     ''		1054 3035  LSI MegaRAID SAS 9240-8i'',
     ''		1137 0072  2004 iMR ROMB'',
     ''		1137 0073  2008 ROMB'',
     ''		1137 00b0  UCSC RAID SAS 2008M-8i'',
     ''		1137 00b1  UCSC RAID SAS 2008M-8i'',
     ''		1137 00c2  UCS E-Series Double Wide'',
     ''		1137 00c3  UCS E-Series Single Wide'',
     ''		15d9 0400  Supermicro SMC2008-iMR'',
     ''		1734 1177  RAID Ctrl SAS 6G 0/1 (D2607)'',
     ''		17aa 1051  ThinkServer RAID 510i'',
     ''		8086 350d  RMS2AF040 RAID Controller'',
     ''		8086 9240  RAID Controller RS2WC080'',
     ''		8086 9241  RAID Controller RS2WC040'',
     ''	0074  SAS2108 PCI-Express Fusion-MPT SAS-2 [Liberator]'',
     ''	0076  SAS2108 PCI-Express Fusion-MPT SAS-2 [Liberator]'',
     ''	0077  SAS2108 PCI-Express Fusion-MPT SAS-2 [Liberator]'',
     ''	0079  MegaRAID SAS 2108 [Liberator]'',
     ''		1000 9251  MegaRAID SAS 9260-4ix'',
     ''		1000 9256  MegaRAID SAS 9260-8ix'',
     ''		1000 9260  MegaRAID SAS 9260-4i'',
     ''		1000 9261  MegaRAID SAS 9260-8i'',
     ''		1000 9262  MegaRAID SAS 9262-8i'',
     ''		1000 9263  MegaRAID SAS 9261-8i'',
     ''		1000 9264  MegaRAID SAS 9264-8i'',
     ''		1000 9267  MegaRAID SAS 9260CV-4i'',
     ''		1000 9268  MegaRAID SAS 9260CV-8i'',
     ''		1000 9275  MegaRAID SAS 9280-8ex'',
     ''		1000 9276  MR9260-16i'',
     ''		1000 9280  MegaRAID SAS 9280-8e'',
     ''		1000 9281  MegaRAID SAS 9281-8E'',
     ''		1000 9282  MegaRAID SAS 9280-4i4e'']"

definition pci_ids_14 :: "string list" where
  "pci_ids_14 =
    [''		1000 9290  MegaRAID SAS 9280DE-24i4e'',
     ''		1014 03b2  ServeRAID M5015 SAS/SATA Controller'',
     ''		1014 03b3  ServeRAID M5025 SAS/SATA Controller'',
     ''		1028 1f15  PERC H800 Adapter'',
     ''		1028 1f16  PERC H700 Adapter'',
     ''		1028 1f17  PERC H700 Integrated'',
     ''		1028 1f18  PERC H700 Modular'',
     ''		1028 1f1a  PERC H800 Proto Adapter'',
     ''		1028 1f1b  PERC H700 Integrated'',
     ''		1043 8480  PIKE-2108 16PD'',
     ''		1734 1176  RAID Ctrl SAS 6G 5/6 512MB (D2616)'',
     ''		1734 1177  RAID Ctrl SAS 6G 0/1 (D2607)'',
     ''		8086 350b  RMS2MH080 RAID Controller'',
     ''		8086 9256  MegaRAID SAS 9260DE-8i RS2BL080DE'',
     ''		8086 9260  RAID Controller RS2BL040'',
     ''		8086 9261  RAID Controller RS2BL080'',
     ''		8086 9264  RAID Controller RT3WB080 Warm Beach (Caster Lite)'',
     ''		8086 9267  RAID Controller RS2VB040'',
     ''		8086 9268  RAID Controller RS2VB080'',
     ''		8086 9275  RAID Controller RS2PI008DE'',
     ''		8086 9276  RAID Controller RS2WG160'',
     ''		8086 9280  RAID Controller RS2PI008'',
     ''		8086 9282  RAID Controller RS2MB044'',
     ''		8086 9290  RAID Controller RS2SG244'',
     ''	007c  MegaRAID SAS 1078DE'',
     ''		1014 0395  ServeRAID-AR10is SAS/SATA Controller'',
     ''	007e  SSS6200 PCI-Express Flash SSD'',
     ''		1000 0504  Nytro NWD-BLP4-800'',
     ''		1000 0507  Nytro NWD-BLP4-1600'',
     ''		1000 0581  Nytro NWD-BLP4-400'',
     ''		1000 100d  Nytro NWD-BFH6-1200'',
     ''		1000 100e  Nytro NWD-BFH8-1600'',
     ''		1000 107e  Nytro NWD-BFH8-3200'',
     ''		1000 1310  Nytro XP6302-8B1536'',
     ''		1000 1311  Nytro XP6302-8B2048'',
     ''		1000 1314  Nytro XP6302-8B4096'',
     ''		1000 150c  Nytro XP6210-4A2048'',
     ''		1000 150f  Nytro XP6210-4B2048'',
     ''		1000 160b  Nytro XP6209-4A1024'',
     ''		1000 1613  Nytro XP6209-4B2048'',
     ''		108e 050a  Nytro ELP4x200_4d_n'',
     ''		108e 0581  Nytro ELP4x100_4d_n'',
     ''	0080  SAS2208 PCI-Express Fusion-MPT SAS-2'',
     ''	0081  SAS2208 PCI-Express Fusion-MPT SAS-2'',
     ''	0082  SAS2208 PCI-Express Fusion-MPT SAS-2'',
     ''	0083  SAS2208 PCI-Express Fusion-MPT SAS-2'',
     ''	0084  SAS2208 PCI-Express Fusion-MPT SAS-2'']"

definition pci_ids_15 :: "string list" where
  "pci_ids_15 =
    [''	0085  SAS2208 PCI-Express Fusion-MPT SAS-2'',
     ''	0086  SAS2308 PCI-Express Fusion-MPT SAS-2'',
     ''		15d9 0690  Onboard MegaRAID SAS2208 [Thunderbolt]'',
     ''		15d9 0691  Onboard SAS2308 PCI-Express Fusion-MPT SAS-2'',
     ''	0087  SAS2308 PCI-Express Fusion-MPT SAS-2'',
     ''		1000 3020  9207-8i SAS2.1 HBA'',
     ''		1000 3030  SAS9207-4i4e'',
     ''		1000 3040  9207-8e SAS2.1 HBA'',
     ''		1000 3050  SAS9217-8i'',
     ''		1000 3060  SAS9217-4i4e'',
     ''		1014 0472  N2125 External Host Bus Adapter'',
     ''		1014 047a  N2115 Internal Host Bus Adapter'',
     ''		1590 0041  H220i'',
     ''		1590 0042  H221 / 9207-8e'',
     ''		1590 0044  H220i'',
     ''		1bd4 0009  6G SAS2308IR'',
     ''		1bd4 000a  6G SAS2308IT'',
     ''		8086 3000  RS25GB008 RAID Controller'',
     ''		8086 3060  RS25FB044 RAID Controller'',
     ''		8086 3516  RMS25JB080 RAID Controller'',
     ''		8086 3517  RMS25JB040 RAID Controller'',
     ''		8086 3518  RMS25KB080 RAID Controller'',
     ''		8086 3519  RMS25KB040 RAID Controller'',
     ''		8086 351a  RMS25LB040 RAID Controller'',
     ''		8086 351b  RMS25LB080 RAID Controller'',
     ''	008f  53c875J'',
     ''		1092 8000  FirePort 40 SCSI Controller'',
     ''		1092 8760  FirePort 40 Dual SCSI Host Adapter'',
     ''	0090  SAS3108 PCI-Express Fusion-MPT SAS-3'',
     ''	0091  SAS3108 PCI-Express Fusion-MPT SAS-3'',
     ''	0094  SAS3108 PCI-Express Fusion-MPT SAS-3'',
     ''	0095  SAS3108 PCI-Express Fusion-MPT SAS-3'',
     ''	0096  SAS3004 PCI-Express Fusion-MPT SAS-3'',
     ''	0097  SAS3008 PCI-Express Fusion-MPT SAS-3'',
     ''		1000 3090  SAS9311-8i'',
     ''		1000 30a0  SAS9300-8e'',
     ''		1000 30e0  SAS9300-8i'',
     ''		1000 3130  SAS 9300-16i'',
     ''		1028 1f45  HBA330 Adapter'',
     ''		1028 1f46  12Gbps HBA'',
     ''		1028 1f53  HBA330 Mini'',
     ''		1028 1fd2  HBA330 MX'',
     ''		1028 1fd3  HBA330 MMZ'',
     ''# Supermicro AOC-S3008L-L8e uses 0808 for their SAS3008 SAS controller'',
     ''		15d9 0808  AOC-S3008L-L8e'',
     ''		1bd4 0008  12G SAS3008IMR Onboard'',
     ''		1bd4 000b  12G SAS3008IR'',
     ''		1bd4 000c  12G SAS3008IT'',
     ''		1bd4 0011  Inspur 12Gb 8i-3008 IT SAS HBA'',
     ''		1bd4 0012  12Gb SAS3008IR UDM'']"

definition pci_ids_head :: "string list" where
  "pci_ids_head =
     pci_ids_00 @ pci_ids_01 @ pci_ids_02 @ pci_ids_03 @ pci_ids_04 @ pci_ids_05
     @ pci_ids_06 @ pci_ids_07 @ pci_ids_08 @ pci_ids_09 @ pci_ids_10
     @ pci_ids_11 @ pci_ids_12 @ pci_ids_13 @ pci_ids_14 @ pci_ids_15"

text \<open>The file: the first lines and the lines after them.\<close>

definition pci_ids :: "u8 list list \<Rightarrow> u8 list" where
  "pci_ids rest = file_of (map bytes_of pci_ids_head @ rest)"

section \<open>Every line fits\<close>

definition hex_char_code :: "char \<Rightarrow> bool" where
  "hex_char_code c \<longleftrightarrow> c \<in> set ''0123456789abcdefABCDEF''"

definition line_fits :: "string \<Rightarrow> bool" where
  "line_fits l \<longleftrightarrow> length l < PCI_MAX_NAMESIZE \<and> CHR 0x0A \<notin> set l \<and>
    (CHR 0x09 \<in> set l \<longrightarrow> \<not> list_all hex_char_code (take 4 l)) \<and>
    (let r = tl (dropWhile (\<lambda>c. c \<noteq> CHR 0x09) l)
     in CHR 0x09 \<in> set r \<longrightarrow> \<not> list_all hex_char_code (take 4 r))"

lemma head_fits_by_part:
  "list_all line_fits pci_ids_00"
  "list_all line_fits pci_ids_01"
  "list_all line_fits pci_ids_02"
  "list_all line_fits pci_ids_03"
  "list_all line_fits pci_ids_04"
  "list_all line_fits pci_ids_05"
  "list_all line_fits pci_ids_06"
  "list_all line_fits pci_ids_07"
  "list_all line_fits pci_ids_08"
  "list_all line_fits pci_ids_09"
  "list_all line_fits pci_ids_10"
  "list_all line_fits pci_ids_11"
  "list_all line_fits pci_ids_12"
  "list_all line_fits pci_ids_13"
  "list_all line_fits pci_ids_14"
  "list_all line_fits pci_ids_15"
  subgoal unfolding pci_ids_00_def by code_simp
  subgoal unfolding pci_ids_01_def by code_simp
  subgoal unfolding pci_ids_02_def by code_simp
  subgoal unfolding pci_ids_03_def by code_simp
  subgoal unfolding pci_ids_04_def by code_simp
  subgoal unfolding pci_ids_05_def by code_simp
  subgoal unfolding pci_ids_06_def by code_simp
  subgoal unfolding pci_ids_07_def by code_simp
  subgoal unfolding pci_ids_08_def by code_simp
  subgoal unfolding pci_ids_09_def by code_simp
  subgoal unfolding pci_ids_10_def by code_simp
  subgoal unfolding pci_ids_11_def by code_simp
  subgoal unfolding pci_ids_12_def by code_simp
  subgoal unfolding pci_ids_13_def by code_simp
  subgoal unfolding pci_ids_14_def by code_simp
  subgoal unfolding pci_ids_15_def by code_simp
  done

lemma head_fits: "list_all line_fits pci_ids_head"
  by (simp add: pci_ids_head_def head_fits_by_part)

lemma unat_of_char: "unat (of_char c :: u8) = of_char c"
proof -
  have "(of_char c :: u8) = of_nat (of_char c)" by (simp only: of_nat_of_char)
  moreover have "(of_char c :: nat) < 256" by simp
  ultimately show ?thesis by (simp only: unat_of_nat) (simp add: take_bit_nat_eq_self)
qed

lemma char_of_u8: "(of_char c :: u8) = w \<Longrightarrow> c = char_of (unat w)"
  using unat_of_char [of c] by auto

lemma of_char_u8_eq: "(of_char c :: u8) = of_char c' \<longleftrightarrow> c = c'"
  using char_of_u8 [of c "of_char c'"] by (auto simp: unat_of_char)

lemma in_bytes_of: "of_char c \<in> set (bytes_of l) \<longleftrightarrow> c \<in> set l"
  by (auto simp: bytes_of_def of_char_u8_eq)

lemma special_bytes: "(9 :: u8) = of_char (CHR 0x09)" "(0x0A :: u8) = of_char (CHR 0x0A)"
  by simp_all

lemma after_tab_bytes_of: "after_tab (bytes_of l) = bytes_of (tl (dropWhile (\<lambda>c. c \<noteq> CHR 0x09) l))"
  unfolding after_tab_def special_bytes
  by (simp only: bytes_of_def dropWhile_map comp_def of_char_u8_eq map_tl)

lemma hex_digit_char:
  assumes "ascii_byte_to_num (of_char c) \<noteq> -1"
  shows "hex_char_code c"
proof -
  define w where "w = (of_char c :: u8)"
  have w_sint: "of_int (sint w) = w" by simp
  have "sint w \<in> {48..57} \<union> ({65..70} \<union> {97..102})"
    using assms by (auto simp: ascii_byte_to_num_def w_def [symmetric] split: if_splits)
  then have "sint w \<in> set ([48..57] @ [65..70] @ [97..102])"
    by (simp only: set_append set_upto)
  then have "of_int (sint w) \<in> (of_int :: int \<Rightarrow> u8) ` set ([48..57] @ [65..70] @ [97..102])"
    by (rule imageI)
  then have "w \<in> set (map of_int ([48..57] @ [65..70] @ [97..102]))"
    using w_sint by (simp only: set_map)
  moreover have "c = char_of (unat w)" by (rule char_of_u8) (simp add: w_def)
  moreover have "list_all (\<lambda>w. hex_char_code (char_of (unat (w :: u8)))) (map of_int ([48..57] @ [65..70] @ [97..102]))"
    by code_simp
  ultimately show ?thesis by (simp only: list_all_iff)
qed

lemma id_prefix_hex: "id_prefix x (bytes_of l) \<Longrightarrow> list_all hex_char_code (take 4 l)"
proof -
  assume id: "id_prefix x (bytes_of l)"
  then have len: "4 \<le> length l" by (simp add: id_prefix_def bytes_of_def)
  have "hex_char_code (l ! k)" if "k < 4" for k
  proof (rule hex_digit_char)
    have "nibble_of x (3 - k) = ascii_byte_to_num (of_char (l ! k))"
      using id that len by (auto simp: id_prefix_def bytes_of_def)
    then show "ascii_byte_to_num (of_char (l ! k)) \<noteq> -1" using nibble_small by metis
  qed
  then show ?thesis using len by (simp add: list_all_length)
qed

lemma readable_text:
  assumes "length l < PCI_MAX_NAMESIZE" and "CHR 0x09 \<in> set l \<longrightarrow> \<not> list_all hex_char_code (take 4 l)"
  shows "readable x (bytes_of l)"
proof (cases "entry x (bytes_of l)")
  case (Some n)
  then have "id_prefix x (bytes_of l)" by (simp add: entry_def split: if_splits)
  then have "9 \<notin> set (bytes_of l)"
    using assms(2) id_prefix_hex unfolding special_bytes in_bytes_of by blast
  moreover have "length (bytes_of l) = length l" by (simp add: bytes_of_def)
  ultimately show ?thesis using entry_part [OF Some] assms(1) Some by (simp add: readable_def)
qed (simp add: readable_def)

lemma line_fits_good:
  assumes "line_fits l"
  shows "good_line v d (bytes_of l)"
proof -
  let ?r = "tl (dropWhile (\<lambda>c. c \<noteq> CHR 0x09) l)"
  have l: "length l < PCI_MAX_NAMESIZE" "CHR 0x0A \<notin> set l"
    "CHR 0x09 \<in> set l \<longrightarrow> \<not> list_all hex_char_code (take 4 l)"
    "CHR 0x09 \<in> set ?r \<longrightarrow> \<not> list_all hex_char_code (take 4 ?r)"
    using assms by (simp_all add: line_fits_def Let_def)
  have "length (bytes_of ?r) < PCI_MAX_NAMESIZE"
    using after_tab_subset(2) [of "bytes_of l"] l(1) unfolding after_tab_bytes_of by (simp add: bytes_of_def)
  then have "readable d (bytes_of ?r)" using l(4) by (intro readable_text) (simp_all add: bytes_of_def)
  moreover have "0x0A \<notin> set (bytes_of l)" using l(2) unfolding special_bytes in_bytes_of .
  ultimately show ?thesis using readable_text [OF l(1,3)] by (simp add: good_line_def after_tab_bytes_of)
qed

text \<open>A vendor's line: it starts with the four digits of its number, without a tab.\<close>

definition vendor_line :: "string \<Rightarrow> bool" where
  "vendor_line l \<longleftrightarrow> 4 \<le> length l \<and> list_all hex_char_code (take 4 l)"

text \<open>A line that is no entry of anything has any length: a comment, or a subsystem below a device.\<close>

definition plain_line :: "string \<Rightarrow> bool" where
  "plain_line l \<longleftrightarrow> CHR 0x0A \<notin> set l \<and> \<not> vendor_line l \<and> \<not> vendor_line (tl (dropWhile (\<lambda>c. c \<noteq> CHR 0x09) l))"

lemma no_hex_readable: "\<not> vendor_line l \<Longrightarrow> readable x (bytes_of l)"
  using id_prefix_hex [of x l] by (auto simp: readable_def entry_def vendor_line_def bytes_of_def)

lemma plain_line_good: "plain_line l \<Longrightarrow> good_line v d (bytes_of l)"
  using no_hex_readable [of l v] no_hex_readable [of "tl (dropWhile (\<lambda>c. c \<noteq> CHR 0x09) l)" d]
  unfolding plain_line_def good_line_def after_tab_bytes_of special_bytes in_bytes_of by simp

text \<open>The lines of the file with 128 and more characters (4033, 4312, 7319, 15891, 22455 and 22462).\<close>

definition pci_ids_long :: "string list" where
  "pci_ids_long = [
     ''# Gaming 1440/QHD Overclock edition with 12 Gb GDDR6 and PCIe 4.0 of Radeon RX 6700 XT by Sapphire PULSE manufactured on autumn 2022 / C1 reviseion'',
     ''# ID is probably a copy-paste error by a MSI developer from another mainboard, since all other ID numbers on this mainboard including the sub-device of this device has used subsystem ID 1462:7596'',
     ''# Motorola made a mistake and used 1507 instead of 1057 in some chips. Please look at the 1507 entry as well when updating this.'',
     ''# Unknown card with Altera ACE EP1K50TC144-2 as the PCI interface and has 4 BNC inputs connected to 4 TL3016 Comparators and one TRS output connected to two LTC1650 DACs'',
     ''		15b3 0068  ConnectX-5 EN network interface card for OCP2.0, Type 1, with host management, 25GbE dual-port SFP28, PCIe3.0 x8, no bracket Halogen free ; MCX542B-ACAN'',
     ''		15b3 0125  Tencent ConnectX-5 EN Ex network interface card for OCP 3.0, with host management, 50GbE Dual-port QSFP28, PCIe4.0 x16, Thumbscrew (pull-tab) bracket'']"

lemma long_lines_plain: "list_all plain_line pci_ids_long"
  unfolding pci_ids_long_def by code_simp

lemma long_lines_good: "list_all (good_line v d) (map bytes_of pci_ids_long)"
  using long_lines_plain plain_line_good by (simp add: list_all_iff)

lemma head_good: "list_all (good_line v d) (map bytes_of pci_ids_head)"
  using head_fits line_fits_good by (simp add: list_all_iff)

end
