(* ===== verification/Pci_Lookup.thy ===== *)
theory Pci_Lookup
  imports Pci_Ids
begin

text \<open>
  Searches in the table the kernel ships: what \<open>pci_get_vendor_dev_name\<close> returns for given numbers,
  whatever readable lines follow the first ones. \<open>c_string\<close> is the string a name buffer holds.
\<close>

definition c_string :: "u8 list \<Rightarrow> u8 list" where
  "c_string buf = takeWhile (\<lambda>c. c \<noteq> 0) buf"

lemma c_string_put_name: "0 \<notin> set n \<Longrightarrow> c_string (put_name 0 n buf) = n"
  by (simp add: c_string_def put_name_def takeWhile_append2 takeWhile_append)

lemma c_string_empty: "buf \<noteq> [] \<Longrightarrow> c_string (buf[0 := 0]) = []"
  by (cases buf) (simp_all add: c_string_def)

lemma find_vendor_at:
  "k < length ls \<Longrightarrow> list_all (\<lambda>l. entry v l = None) (take k ls) \<Longrightarrow> entry v (ls ! k) = Some n \<Longrightarrow>
   find_vendor v (ls @ rest) = Some (n, drop (Suc k) ls @ rest)"
proof (induction ls arbitrary: k)
  case (Cons l ls)
  then show ?case by (cases k) simp_all
qed simp

lemma find_device_at:
  "k < length ls \<Longrightarrow> list_all (\<lambda>l. entry d (after_tab l) = None) (take k ls) \<Longrightarrow>
   entry d (after_tab (ls ! k)) = Some n \<Longrightarrow> find_device d (ls @ rest) = Some n"
proof (induction ls arbitrary: k)
  case (Cons l ls)
  then show ?case by (cases k) simp_all
qed simp

text \<open>Entries, read from the text of a line.\<close>

fun text_prefix :: "u16 \<Rightarrow> string \<Rightarrow> bool" where
  "text_prefix x (a # b # c # d # l) \<longleftrightarrow>
     nibble_of x 3 = ascii_byte_to_num (of_char a) \<and> nibble_of x 2 = ascii_byte_to_num (of_char b) \<and>
     nibble_of x 1 = ascii_byte_to_num (of_char c) \<and> nibble_of x 0 = ascii_byte_to_num (of_char d)"
| "text_prefix x _ \<longleftrightarrow> False"

lemma id_prefix_text: "id_prefix x (bytes_of l) \<longleftrightarrow> text_prefix x l"
proof -
  have "(\<forall>k < 4. P k) \<longleftrightarrow> P 0 \<and> P 1 \<and> P 2 \<and> P (3 :: nat)" for P
    by (auto simp: eval_nat_numeral less_Suc_eq)
  then show ?thesis
    by (cases "(x, l)" rule: text_prefix.cases) (auto simp: id_prefix_def bytes_of_def eval_nat_numeral)
qed

definition text_entry :: "u16 \<Rightarrow> string \<Rightarrow> u8 list option" where
  "text_entry x l =
     (if text_prefix x l \<and> length l > 4 then Some (name_after (bytes_of (drop 4 l))) else None)"

lemma entry_text: "entry x (bytes_of l) = text_entry x l"
  by (simp add: entry_def text_entry_def id_prefix_text) (simp add: bytes_of_def drop_map)

lemma entry_after_tab_text:
  "entry x (after_tab (bytes_of l)) = text_entry x (tl (dropWhile (\<lambda>c. c \<noteq> CHR 0x09) l))"
  by (simp only: after_tab_bytes_of entry_text)

lemma find_vendor_text:
  assumes "k < length ls" and "list_all (\<lambda>l. \<not> text_prefix v l) (take k ls)" and "text_entry v (ls ! k) = Some n"
  shows "find_vendor v (map bytes_of ls @ rest) = Some (n, map bytes_of (drop (Suc k) ls) @ rest)"
  using assms find_vendor_at [of k "map bytes_of ls" v n rest]
  by (auto simp: list_all_iff take_map drop_map entry_text text_entry_def)

lemma find_device_text:
  assumes "k < length ls"
    and "list_all (\<lambda>l. \<not> text_prefix d (tl (dropWhile (\<lambda>c. c \<noteq> CHR 0x09) l))) (take k ls)"
    and "text_entry d (tl (dropWhile (\<lambda>c. c \<noteq> CHR 0x09) (ls ! k))) = Some n"
  shows "find_device d (map bytes_of ls @ rest) = Some n"
  using assms find_device_at [of k "map bytes_of ls" d n rest]
  by (auto simp: list_all_iff take_map entry_after_tab_text text_entry_def)

section \<open>A device under another vendor\<close>

lemma vendor_10_at: "find_vendor 0x10 (map bytes_of pci_ids_00 @ rest) =
  Some (bytes_of ''Allied Telesis, Inc (Wrong ID)'', map bytes_of (drop 29 pci_ids_00) @ rest)"
proof -
  have "list_all (\<lambda>l. \<not> text_prefix 0x10 l) (take 28 pci_ids_00)"
    unfolding pci_ids_00_def by (simp add: nibble_of_def ascii_byte_to_num_def)
  moreover have "text_entry 0x10 (pci_ids_00 ! 28) = Some (bytes_of ''Allied Telesis, Inc (Wrong ID)'')"
    unfolding pci_ids_00_def by (simp add: text_entry_def nibble_of_def ascii_byte_to_num_def bytes_of_def)
  moreover have "28 < length pci_ids_00" by (simp add: pci_ids_00_def)
  ultimately show ?thesis
    using find_vendor_text [where k = 28 and ls = pci_ids_00 and v = "0x10" and rest = rest] by simp
qed

lemma device_7801_at: "find_device 0x7801 (map bytes_of (drop 29 pci_ids_00 @ pci_ids_01) @ rest) =
  Some (bytes_of ''WinTV HVR-1800 MCE'')"
proof -
  let ?ls = "drop 29 pci_ids_00 @ pci_ids_01"
  have "list_all (\<lambda>l. \<not> text_prefix 0x7801 (tl (dropWhile (\<lambda>c. c \<noteq> CHR 0x09) l))) (take 45 ?ls)"
    unfolding pci_ids_00_def pci_ids_01_def by (simp add: nibble_of_def ascii_byte_to_num_def)
  moreover have "text_entry 0x7801 (tl (dropWhile (\<lambda>c. c \<noteq> CHR 0x09) (?ls ! 45)))
      = Some (bytes_of ''WinTV HVR-1800 MCE'')"
    unfolding pci_ids_00_def pci_ids_01_def
    by (simp add: text_entry_def nibble_of_def ascii_byte_to_num_def bytes_of_def)
  moreover have "45 < length ?ls" by (simp add: pci_ids_00_def pci_ids_01_def)
  ultimately show ?thesis
    using find_device_text [where k = 45 and ls = ?ls and d = "0x7801" and rest = rest] by simp
qed

lemma names_10_7801:
  assumes "list_all (good_line 0x10 0x7801) rest"
    and "length vname = PCI_MAX_NAMESIZE" and "length dname = PCI_MAX_NAMESIZE"
  shows "pci_get_vendor_dev_name (pci_ids rest) 0x10 0x7801 vname dname =
    ok (put_name 0 (bytes_of ''Allied Telesis, Inc (Wrong ID)'') vname,
        put_name 0 (bytes_of ''WinTV HVR-1800 MCE'') dname)"
proof -
  let ?ls = "map bytes_of pci_ids_head @ rest"
  obtain xs where xs: "map bytes_of pci_ids_head = map bytes_of pci_ids_00 @ map bytes_of pci_ids_01 @ xs"
    by (simp add: pci_ids_head_def)
  have "list_all (good_line 0x10 0x7801) ?ls" using assms(1) head_good by simp
  from lookup_spec [OF this assms(2,3)]
  have "pci_get_vendor_dev_name (pci_ids rest) 0x10 0x7801 vname dname = ok (lookup 0x10 0x7801 ?ls vname dname)"
    by (simp only: pci_ids_def)
  moreover have "find_vendor 0x10 ?ls = Some (bytes_of ''Allied Telesis, Inc (Wrong ID)'',
      map bytes_of (drop 29 pci_ids_00 @ pci_ids_01) @ xs @ rest)"
    unfolding xs append_assoc map_append by (rule vendor_10_at)
  ultimately show ?thesis by (simp only: lookup_def device_7801_at option.case prod.case)
qed

section \<open>Properties\<close>

text \<open>
  C16: the parser of the table of names is the search by lines: for every vendor and device it fills
  the buffers with the name on the first line that starts with the vendor number, and the name on the
  first line after it whose text behind the tab starts with the device number; a vendor or a device
  that is not found leaves both names empty. Every access stays in bounds. The table is the first lines
  of the one the kernel ships and any further ones, of which no line has a line break inside and no line
  that is the entry of the two numbers has a tab in it or a name of 128 characters (\<open>good_line\<close>); lines
  that are no entry may be as long as they like, as the six long ones of the kernel's table are, with
  which the witness runs.
\<close>

lemma pci_names_by_line:
  assumes "list_all (good_line v d) rest"
    and "length vname = PCI_MAX_NAMESIZE" and "length dname = PCI_MAX_NAMESIZE"
  shows "pci_get_vendor_dev_name (pci_ids rest) v d vname dname =
    ok (lookup v d (map bytes_of pci_ids_head @ rest) vname dname)"
proof -
  have "list_all (good_line v d) (map bytes_of pci_ids_head @ rest)"
    using assms(1) head_good by simp
  from lookup_spec [OF this assms(2,3)] show ?thesis by (simp only: pci_ids_def)
qed

lemma pci_names_by_line_witness:
  "pci_get_vendor_dev_name (pci_ids (map bytes_of pci_ids_long)) 0x8086 0x1237 (replicate 128 0) (replicate 128 0) =
    ok (lookup 0x8086 0x1237 (map bytes_of pci_ids_head @ map bytes_of pci_ids_long) (replicate 128 0) (replicate 128 0))"
  by (rule pci_names_by_line) (simp_all add: long_lines_good)

text \<open>
  C34: the search for the device does not stop at the next vendor. Vendor 0x10 has one device in the
  table, 0x8139: below its line stand a comment and that device's line, then the next vendor's. Yet the
  parser names its device 0x7801, with the name of a device that stands below another vendor, Hauppauge.
  The buffers have 128 characters, and the lines after the first ones are readable (\<open>good_line\<close>).
\<close>

lemma pci_device_of_other_vendor:
  assumes "list_all (good_line 0x10 0x7801) rest"
    and "length vname = PCI_MAX_NAMESIZE" and "length dname = PCI_MAX_NAMESIZE"
  shows "(\<exists>v d. pci_get_vendor_dev_name (pci_ids rest) 0x10 0x7801 vname dname = ok (v, d) \<and>
      c_string v = bytes_of ''Allied Telesis, Inc (Wrong ID)'' \<and> c_string d = bytes_of ''WinTV HVR-1800 MCE'') \<and>
    pci_ids_00 ! 28 = ''0010  Allied Telesis, Inc (Wrong ID)'' \<and>
    takeWhile (\<lambda>l. \<not> vendor_line l) (drop 29 pci_ids_00) =
      [''# This is a relabelled RTL-8139'', CHR 0x09 # ''8139  AT-2500TX V3 Ethernet''] \<and>
    \<not> text_prefix 0x7801 ''8139  AT-2500TX V3 Ethernet'' \<and>
    pci_ids_01 ! 18 = CHR 0x09 # ''7801  WinTV HVR-1800 MCE'' \<and>
    find vendor_line (rev (pci_ids_00 @ take 18 pci_ids_01)) = Some ''0070  Hauppauge computer works Inc.''"
proof (intro conjI)
  have "0 \<notin> set (bytes_of ''Allied Telesis, Inc (Wrong ID)'')" "0 \<notin> set (bytes_of ''WinTV HVR-1800 MCE'')"
    by (simp_all add: bytes_of_def)
  then show "\<exists>v d. pci_get_vendor_dev_name (pci_ids rest) 0x10 0x7801 vname dname = ok (v, d) \<and>
      c_string v = bytes_of ''Allied Telesis, Inc (Wrong ID)'' \<and> c_string d = bytes_of ''WinTV HVR-1800 MCE''"
    using names_10_7801 [OF assms] by (simp add: c_string_put_name)
  show "pci_ids_00 ! 28 = ''0010  Allied Telesis, Inc (Wrong ID)''"
    and "takeWhile (\<lambda>l. \<not> vendor_line l) (drop 29 pci_ids_00) =
      [''# This is a relabelled RTL-8139'', CHR 0x09 # ''8139  AT-2500TX V3 Ethernet'']"
    and "pci_ids_01 ! 18 = CHR 0x09 # ''7801  WinTV HVR-1800 MCE''"
    and "find vendor_line (rev (pci_ids_00 @ take 18 pci_ids_01)) = Some ''0070  Hauppauge computer works Inc.''"
    unfolding pci_ids_00_def pci_ids_01_def by code_simp+
  show "\<not> text_prefix 0x7801 ''8139  AT-2500TX V3 Ethernet''"
    by (simp add: nibble_of_def ascii_byte_to_num_def)
qed

lemma pci_device_of_other_vendor_witness:
  "\<exists>v d. pci_get_vendor_dev_name (pci_ids (map bytes_of pci_ids_long)) 0x10 0x7801 (replicate 128 0) (replicate 128 0) = ok (v, d) \<and>
    c_string d = bytes_of ''WinTV HVR-1800 MCE''"
  using pci_device_of_other_vendor [OF long_lines_good, of "replicate 128 0" "replicate 128 0"] by auto

end
