(* ===== verification/Live.thy ===== *)
theory Live
  imports Effects
begin

text \<open>
  The console when nothing is known of the ring but that its cursor is inside: every text without a
  backspace is still taken without a fault and sent to COM1, only what the screen shows is not said.
  The boot and the panic print in such states, since \<open>VGA_clear_screen\<close> can leave the ring out of step.
\<close>

definition live_console :: "hw \<Rightarrow> machine \<Rightarrow> bool" where
  "live_console hw s \<longleftrightarrow> vga_inv s \<and> uart_live hw"

lemma live_console_mem [simp]:
  "live_console hw (s\<lparr>mem := m\<rparr>) = live_console hw s" "live_console hw (s\<lparr>io_log := l\<rparr>) = live_console hw s"
  "live_console hw (s\<lparr>lock := k\<rparr>) = live_console hw s"
  by (simp_all add: live_console_def vga_inv_def)

lemma VGA_next_line_inside:
  assumes "vga_inv s"
  shows "\<exists>s'. VGA_next_line s = ok s' \<and> vga_inv s' \<and> vgabuf_col s' = 0"
proof -
  have "row_succ x = row_succ x \<and> unat (row_succ x) < HEIGHT" for x by simp
  then show ?thesis
    using assms by (simp add: VGA_next_line_def Let_def VGA_clear_line_in vga_inv_def)
qed

lemma VGA_putc_inside:
  assumes "vga_inv s" and "c \<noteq> 8"
  shows "\<exists>s'. VGA_putc c s = ok s' \<and> vga_inv s'"
proof -
  obtain u where u: "(if unat (vgabuf_col s) = WIDTH then VGA_next_line s else ok s) = ok u" "vga_inv u"
    "unat (vgabuf_col u) < WIDTH"
  proof (cases "unat (vgabuf_col s) = WIDTH")
    case True
    with VGA_next_line_inside [OF assms(1)] that show ?thesis by auto
  next
    case False
    with assms(1) that [of s] show ?thesis by (auto simp: vga_inv_def)
  qed
  show ?thesis
  proof (cases "c = 10")
    case True
    let ?v = "u\<lparr>mem := put_row (unat (vgabuf_row u)) (unat (vgabuf_col u)) WIDTH (mem u)\<rparr>"
    have row: "for_range (unat (vgabuf_col u)) WIDTH
        (\<lambda>i s. VGA_set (unat (vgabuf_row s)) i 32 default_color_code s) u = ok ?v"
    proof -
      have "for_range (unat (vgabuf_col u)) WIDTH
          (\<lambda>i s. VGA_set (unat (vgabuf_row u)) i 32 default_color_code s) u = ok ?v"
        using fill_row [of "\<lambda>_. vgabuf_row u" u "unat (vgabuf_col u)"] u(2,3) by (simp add: vga_inv_def)
      then show ?thesis
        using fill_row [of vgabuf_row u "unat (vgabuf_col u)"] u(2,3) by (simp add: vga_inv_def)
    qed
    have "vga_inv ?v" using u(2) by (simp add: vga_inv_def)
    from VGA_next_line_inside [OF this] show ?thesis
      using True by (auto simp: VGA_putc_def u(1) row)
  next
    case False
    have "unat (vgabuf_col u + 1) = Suc (unat (vgabuf_col u))" using u(3) by (simp add: unat_word_ariths)
    then show ?thesis
      using False assms(2) u by (auto simp: VGA_putc_def VGA_set_in vga_inv_def)
  qed
qed

lemma putc_live:
  assumes "live_console hw s" and "c \<noteq> 8"
  shows "\<exists>s'. putc hw c s = ok s' \<and> live_console hw s' \<and> com1_sent (io_log s') = com1_sent (io_log s) @ [c]"
proof -
  obtain t where t: "VGA_putc c s = ok t" "vga_inv t"
    using VGA_putc_inside [of s c] assms by (auto simp: live_console_def)
  obtain l where "serial_tx hw c (io_log s) = ok l" "com1_sent l = com1_sent (io_log s) @ [c]"
    using serial_tx_live [of hw c "io_log s"] assms(1) unfolding live_console_def by blast
  with t VGA_putc_rest [OF t(1)] assms(1) show ?thesis by (simp add: putc_def live_console_def same_rest_def)
qed

interpretation live: transcript "putc hw" "live_console hw" "\<lambda>c. c \<noteq> 8" "\<lambda>s. com1_sent (io_log s)"
  for hw
proof unfold_locales
  fix s s' and c :: u8
  assume "live_console hw s" "c \<noteq> 8"
  from putc_live [OF this] show "\<exists>s'. putc hw c s = ok s' \<and> live_console hw s'" by blast
  assume "putc hw c s = ok s'"
  with putc_live [OF \<open>live_console hw s\<close> \<open>c \<noteq> 8\<close>]
  show "com1_sent (io_log s') = com1_sent (io_log s) @ [c]" by auto
qed

section \<open>Messages\<close>

definition writes :: "hw \<Rightarrow> u8 list \<Rightarrow> machine \<Rightarrow> machine \<Rightarrow> bool" where
  "writes hw t s s' \<longleftrightarrow> live_console hw s' \<and> screen_only s s' \<and>
     (\<forall>a. off_screen a \<longrightarrow> mem s' Phys a = mem s Phys a) \<and>
     com1_sent (io_log s') = com1_sent (io_log s) @ t"

lemma writes_trans: "writes hw t a b \<Longrightarrow> writes hw u b c \<Longrightarrow> writes hw (t @ u) a c"
  by (auto simp: writes_def intro: screen_only_trans)

lemma printf_nolock_live:
  assumes "live_console hw s" and "0 \<notin> set (bytes_of fmt)" and "length fmt < 4294967295"
    and "strings_at rd args (mem s)" and "fmt_text rd (bytes_of fmt) args = Some (t, True)" and "8 \<notin> set t"
  shows "\<exists>s'. printf_nolock hw (lit fmt) args s = ok s' \<and> writes hw t s s'"
proof -
  have c: "cstring (mem s) (lit fmt) (bytes_of fmt)" using assms(2,3) by (rule cstring_lit)
  have fits: "list_all (\<lambda>c. c \<noteq> 8) t" using assms(6) by (auto simp: list_all_iff)
  obtain u where u: "emit hw t s = ok u" "live_console hw u" using live.text_ok [OF assms(1) fits] by blast
  obtain v where v: "VGA_flush u = ok v" "io_log v = io_log u" "vga_inv v"
    using flush_keeps_console [of u] u(2) by (auto simp: live_console_def)
  have "screen_only s v"
    using emit_rest [OF u(1)] VGA_flush_screen [OF v(1)] by (auto simp: screen_only_def)
  moreover have "mem v Phys a = mem s Phys a" if "off_screen a" for a
    using emit_rest [OF u(1)] VGA_flush_off_screen [OF _ v(1) that] u(2) by (simp add: live_console_def)
  ultimately show ?thesis
    using v u(1,2) printf_base_text [OF c _ assms(4,5), of hw] live.text_sent [OF assms(1) fits u(1)]
    by (simp add: printf_nolock_def lit_def writes_def live_console_def)
qed

lemma printf_live:
  assumes "live_console hw s" and "\<not> bit (lock s) 0" and "0 \<notin> set (bytes_of fmt)" and "length fmt < 4294967295"
    and "strings_at rd args (mem s)" and "fmt_text rd (bytes_of fmt) args = Some (t, True)" and "8 \<notin> set t"
  shows "\<exists>s'. printf hw (lit fmt) args s = ok s' \<and> writes hw t s s'"
proof -
  obtain u where u: "printf_nolock hw (lit fmt) args (s\<lparr>lock := set_bit 0 (lock s)\<rparr>) = ok u"
    "writes hw t (s\<lparr>lock := set_bit 0 (lock s)\<rparr>) u"
    using printf_nolock_live [of hw "s\<lparr>lock := set_bit 0 (lock s)\<rparr>" fmt rd args t] assms by auto
  then show ?thesis
    using assms(2) sl_release_acquire [OF assms(2)]
    by (auto simp: printf_def printf_nolock_def sl_acquire_free writes_def screen_only_def)
qed

lemma VGA_clear_screen_returns:
  "\<exists>s'. VGA_clear_screen s = ok s' \<and> vga_inv s' \<and> io_log s' = io_log s \<and>
    (\<forall>a. off_screen a \<longrightarrow> mem s' Phys a = mem s Phys a)"
proof -
  obtain m where m: "for_range 0 24 (\<lambda>r. for_range 0 WIDTH (\<lambda>c. VGA_set r c 32 default_color_code)) s =
      ok (s\<lparr>mem := m\<rparr>)" "m Phys = mem s Phys"
    using VGA_clear_rows [of 24 s] by auto
  let ?t = "s\<lparr>mem := m, vgabuf_start_row := 0, vgabuf_col := 0, vgabuf_row := 0\<rparr>"
  have inv: "vga_inv ?t" by (simp add: vga_inv_def)
  then obtain v where v: "VGA_flush ?t = ok v" "vga_inv v" "io_log v = io_log ?t"
    using flush_keeps_console by blast
  moreover have "mem v Phys a = mem s Phys a" if "off_screen a" for a
    using VGA_flush_off_screen [OF inv v(1) that] m(2) by simp
  ultimately show ?thesis using m(1) by (simp add: VGA_clear_screen_def)
qed

lemma VGA_clear_screen_live:
  assumes "live_console hw s"
  shows "\<exists>s'. VGA_clear_screen s = ok s' \<and> live_console hw s' \<and> screen_only s s' \<and> io_log s' = io_log s \<and>
    (\<forall>a. off_screen a \<longrightarrow> mem s' Phys a = mem s Phys a)"
  using VGA_clear_screen_returns [of s] VGA_clear_screen_screen assms by (auto simp: live_console_def)

section \<open>Sequences of messages\<close>

text \<open>A routine that, with the lock free, returns and sends a text.\<close>

definition outputs :: "hw \<Rightarrow> (machine \<Rightarrow> machine res) \<Rightarrow> u8 list \<Rightarrow> bool" where
  "outputs hw f t \<longleftrightarrow> (\<forall>s. live_console hw s \<longrightarrow> \<not> bit (lock s) 0 \<longrightarrow> (\<exists>s'. f s = ok s' \<and> writes hw t s s'))"

lemma writes_lock: "writes hw t s s' \<Longrightarrow> lock s' = lock s"
  by (simp add: writes_def screen_only_def)

lemma outputsD:
  assumes "outputs hw f t" and "live_console hw s" and "\<not> bit (lock s) 0"
  obtains s' where "f s = ok s'" and "writes hw t s s'" and "live_console hw s'" and "\<not> bit (lock s') 0"
  using assms writes_lock unfolding outputs_def writes_def by metis

lemma outputs_bind:
  assumes "outputs hw f t" and "outputs hw g u"
  shows "outputs hw (\<lambda>s. bind_res (f s) g) (t @ u)"
  unfolding outputs_def
proof (intro allI impI)
  fix s assume s: "live_console hw s" "\<not> bit (lock s) 0"
  obtain a where a: "f s = ok a" "writes hw t s a" "live_console hw a" "\<not> bit (lock a) 0"
    using assms(1) s by (rule outputsD)
  obtain b where "g a = ok b" "writes hw u a b" using assms(2) a(3,4) by (rule outputsD)
  with a(1,2) show "\<exists>s'. bind_res (f s) g = ok s' \<and> writes hw (t @ u) s s'" by (auto intro: writes_trans)
qed

text \<open>One line, with numbers only or nothing to fill in.\<close>

lemma outputs_numbers:
  assumes "0 \<notin> set (bytes_of fmt)" and "length fmt < 4294967295"
    and "fmt_text (\<lambda>_. []) (bytes_of fmt) (map Va_int ns) = Some (t, True)" and "8 \<notin> set t"
  shows "outputs hw (printf hw (lit fmt) (map Va_int ns)) t"
  unfolding outputs_def using assms by (intro allI impI printf_live) (auto simp: strings_at_def)

lemma outputs_line:
  assumes "set (bytes_of l) \<inter> {0, 8, 37} = {}" and "length l < 4294967295"
  shows "outputs hw (printf hw (lit l) []) (bytes_of l)"
  using assms outputs_numbers [of l "[]" "bytes_of l"] by (simp add: fmt_text_plain)

section \<open>Clearing a screen that has scrolled\<close>

text \<open>A line of text that fits a row of the screen.\<close>

definition short_line :: "u8 list \<Rightarrow> bool" where
  "short_line l \<longleftrightarrow> length l < WIDTH \<and> 8 \<notin> set l \<and> 10 \<notin> set l"

definition lines_text :: "u8 list list \<Rightarrow> u8 list" where
  "lines_text ls = concat (map (\<lambda>l. l @ [10]) ls)"

lemma VGA_putc_row:
  assumes "vga_inv s" and "unat (vgabuf_col s) < WIDTH" and "c \<noteq> 8" and "c \<noteq> 10"
  shows "\<exists>s'. VGA_putc c s = ok s' \<and> vga_inv s' \<and> unat (vgabuf_col s') = Suc (unat (vgabuf_col s)) \<and>
    vgabuf_row s' = vgabuf_row s \<and> vgabuf_start_row s' = vgabuf_start_row s \<and> vgabuf_move_row s' = vgabuf_move_row s"
proof -
  have "unat (vgabuf_col s + 1) = Suc (unat (vgabuf_col s))" using assms(2) by (simp add: unat_word_ariths)
  then show ?thesis using assms by (simp add: VGA_putc_def VGA_set_in vga_inv_def)
qed

lemma VGA_putc_rows:
  assumes "vga_inv s" and "unat (vgabuf_col s) + length l < WIDTH" and "8 \<notin> set l" and "10 \<notin> set l"
  shows "\<exists>s'. fold_res VGA_putc l s = ok s' \<and> vga_inv s' \<and> unat (vgabuf_col s') < WIDTH \<and>
    vgabuf_row s' = vgabuf_row s \<and> vgabuf_start_row s' = vgabuf_start_row s \<and> vgabuf_move_row s' = vgabuf_move_row s"
  using assms
proof (induction l arbitrary: s)
  case (Cons c l)
  obtain t where t: "VGA_putc c s = ok t" "vga_inv t" "unat (vgabuf_col t) = Suc (unat (vgabuf_col s))"
    "vgabuf_row t = vgabuf_row s" "vgabuf_start_row t = vgabuf_start_row s" "vgabuf_move_row t = vgabuf_move_row s"
    using VGA_putc_row [OF Cons.prems(1), of c] Cons.prems(2-4) by auto
  have "unat (vgabuf_col t) + length l < WIDTH" "8 \<notin> set l" "10 \<notin> set l" using t(3) Cons.prems(2-4) by simp_all
  from Cons.IH [OF t(2) this] show ?case using t by simp
qed simp

lemma VGA_newline_ring:
  assumes "vga_inv s" and "unat (vgabuf_col s) < WIDTH"
  shows "\<exists>s'. VGA_putc 10 s = ok s' \<and> vga_inv s' \<and> vgabuf_col s' = 0 \<and> vgabuf_row s' = row_succ (vgabuf_row s) \<and>
    (vgabuf_start_row s', vgabuf_move_row s') =
      (if vgabuf_start_row s > 0 \<or> row_succ (vgabuf_row s) = 0
       then if vgabuf_move_row s = vgabuf_start_row s
            then (row_succ (vgabuf_start_row s), row_succ (vgabuf_start_row s))
            else (vgabuf_start_row s, vgabuf_move_row s + 1)
       else (vgabuf_start_row s, vgabuf_move_row s))"
proof -
  let ?v = "s\<lparr>mem := put_row (unat (vgabuf_row s)) (unat (vgabuf_col s)) WIDTH (mem s)\<rparr>"
  have row: "for_range (unat (vgabuf_col s)) WIDTH
      (\<lambda>i s. VGA_set (unat (vgabuf_row s)) i 32 default_color_code s) s = ok ?v"
    using fill_row [of vgabuf_row s "unat (vgabuf_col s)"] assms by (simp add: vga_inv_def)
  have "VGA_putc 10 s = VGA_next_line ?v" using row assms(2) by (simp add: VGA_putc_def)
  then show ?thesis
    using assms(1) by (auto simp: VGA_next_line_def Let_def VGA_clear_line_in vga_inv_def)
qed

text \<open>
  One line, with the ring's start at row 0. Only the step from the last row of the buffer to the first
  looks at \<open>vgabuf_move_row\<close>: while that is not 0 it is counted up, and the start stays.
\<close>

lemma VGA_line_ring:
  assumes "vga_inv s" and "vgabuf_col s = 0" and "vgabuf_start_row s = 0" and "short_line l"
    and "vgabuf_move_row s \<noteq> 0 \<or> unat (vgabuf_row s) < 24"
  shows "\<exists>s'. fold_res VGA_putc (l @ [10]) s = ok s' \<and> vga_inv s' \<and> vgabuf_col s' = 0 \<and>
    unat (vgabuf_row s') = Suc (unat (vgabuf_row s)) mod HEIGHT \<and> vgabuf_start_row s' = 0 \<and>
    vgabuf_move_row s' = (if unat (vgabuf_row s) = 24 then vgabuf_move_row s + 1 else vgabuf_move_row s)"
proof -
  obtain t where t: "fold_res VGA_putc l s = ok t" "vga_inv t" "unat (vgabuf_col t) < WIDTH"
    "vgabuf_row t = vgabuf_row s" "vgabuf_start_row t = vgabuf_start_row s" "vgabuf_move_row t = vgabuf_move_row s"
    using VGA_putc_rows [OF assms(1), of l] assms(2,4) by (auto simp: short_line_def)
  have last: "row_succ (vgabuf_row s) = 0 \<longleftrightarrow> unat (vgabuf_row s) = 24"
  proof -
    have "row_succ (vgabuf_row s) = 0 \<longleftrightarrow> unat (row_succ (vgabuf_row s)) = 0" by (simp only: unat_eq_0)
    moreover have "unat (vgabuf_row s) < 25" using assms(1) by (simp add: vga_inv_def)
    ultimately show ?thesis by (auto simp: mod_if)
  qed
  show ?thesis
    using VGA_newline_ring [OF t(2,3)] t(1,4-6) assms(3,5) last
    by (auto simp: fold_res_append split: if_splits)
qed

lemma VGA_lines_ring:
  assumes "vga_inv s" and "vgabuf_col s = 0" and "vgabuf_row s = 0" and "vgabuf_start_row s = 0"
    and "vgabuf_move_row s \<noteq> 0" and "list_all short_line ls"
    and "length ls < HEIGHT * (257 - unat (vgabuf_move_row s))"
  shows "\<exists>s'. fold_res VGA_putc (lines_text ls) s = ok s' \<and> vga_inv s' \<and> vgabuf_col s' = 0 \<and>
    unat (vgabuf_row s') = length ls mod HEIGHT \<and> vgabuf_start_row s' = 0 \<and>
    vgabuf_move_row s' = vgabuf_move_row s + of_nat (length ls div HEIGHT)"
  using assms(6,7)
proof (induction ls rule: rev_induct)
  case Nil
  then show ?case using assms(1-4) by (simp add: lines_text_def)
next
  case (snoc l ls)
  let ?n = "length ls" and ?m = "vgabuf_move_row s"
  obtain t where t: "fold_res VGA_putc (lines_text ls) s = ok t" "vga_inv t" "vgabuf_col t = 0"
    "unat (vgabuf_row t) = ?n mod 25" "vgabuf_start_row t = 0" "vgabuf_move_row t = ?m + of_nat (?n div 25)"
    using snoc by auto
  have "vgabuf_move_row t \<noteq> 0" if "unat (vgabuf_row t) = 24"
  proof -
    have "?n mod 25 = 24" using that t(4) by simp
    then have "Suc ?n = 25 * Suc (?n div 25)" by presburger
    then have "25 * Suc (?n div 25) < 25 * (257 - unat ?m)" using snoc.prems(2) by simp
    then have "Suc (?n div 25) < 257 - unat ?m" by (simp only: mult_less_cancel1)
    then have "unat ?m + ?n div 25 < 256" by linarith
    moreover from this have "unat (?m + of_nat (?n div 25)) = unat ?m + ?n div 25"
      by (simp add: unat_word_ariths unat_of_nat)
    moreover have "unat ?m \<noteq> 0" using assms(5) unat_eq_0 by blast
    ultimately show ?thesis using t(6) by (metis add_is_0 unat_0)
  qed
  moreover have "unat (vgabuf_row t) < 25" using t(2) by (simp add: vga_inv_def)
  ultimately have go: "vgabuf_move_row t \<noteq> 0 \<or> unat (vgabuf_row t) < 24" by linarith
  have l: "short_line l" using snoc.prems(1) by simp
  have count: "Suc ?n mod 25 = Suc (?n mod 25) mod 25" "Suc ?n div 25 = (if ?n mod 25 = 24 then Suc (?n div 25) else ?n div 25)"
    by (simp_all add: mod_Suc_eq div_Suc mod_Suc)
  show ?case
    using VGA_line_ring [OF t(2,3,5) l go] t(1,4,6) count
    by (auto simp: lines_text_def fold_res_append)
qed

text \<open>The terminal, for comparison: its cursor stays on the last line once it is there.\<close>

lemma term_text_row:
  "tcol t + length l < WIDTH \<Longrightarrow> 8 \<notin> set l \<Longrightarrow> 10 \<notin> set l \<Longrightarrow>
   trow (fold term_putc l t) = trow t \<and> tcol (fold term_putc l t) = tcol t + length l"
proof (induction l arbitrary: t)
  case (Cons c l)
  have p: "term_putc c t = term_put c t" using Cons.prems by (simp add: term_putc_def)
  show ?case using Cons.IH [of "term_put c t"] Cons.prems by (simp add: p term_put_def)
qed simp

lemma term_line_row:
  assumes "tcol t = 0" and "short_line l" and "trow t \<le> 24"
  shows "trow (fold term_putc (l @ [10]) t) = min (Suc (trow t)) 24 \<and> tcol (fold term_putc (l @ [10]) t) = 0"
  using term_text_row [of t l] assms
  by (auto simp: short_line_def term_putc_def term_newline_def term_cut_def Let_def min_def)

lemma term_lines_row:
  assumes "tcol t = 0" and "trow t = 0" and "list_all short_line ls"
  shows "trow (fold term_putc (lines_text ls) t) = min (length ls) 24 \<and> tcol (fold term_putc (lines_text ls) t) = 0"
  using assms(3)
proof (induction ls rule: rev_induct)
  case (snoc l ls)
  then show ?case
    using term_line_row [of "fold term_putc (lines_text ls) t" l] by (auto simp: lines_text_def)
qed (simp add: lines_text_def assms)

lemma lines_text_plain: "list_all short_line ls \<Longrightarrow> list_all (\<lambda>c. c \<noteq> 8) (lines_text ls)"
  by (auto simp: lines_text_def list_all_iff short_line_def)

lemma cleared_ring:
  assumes "VGA_clear_screen s = ok s'"
  shows "vgabuf_row s' = 0 \<and> vgabuf_col s' = 0 \<and> vgabuf_start_row s' = 0 \<and> vgabuf_move_row s' = vgabuf_move_row s"
proof -
  obtain m where "for_range 0 24 (\<lambda>r. for_range 0 WIDTH (\<lambda>c. VGA_set r c 32 default_color_code)) s =
      ok (s\<lparr>mem := m\<rparr>)"
    using VGA_clear_rows [of 24 s] by auto
  then show ?thesis
    using assms by (auto simp: VGA_clear_screen_def VGA_flush_def Let_def bind_res_eq_ok)
qed

section \<open>Properties\<close>

text \<open>
  C40: clearing the screen does not reset \<open>vgabuf_move_row\<close>. Where that is 0 (a screen that has not
  scrolled, or has scrolled a multiple of 25 times) the cleared screen works as new: lines of text reach
  the terminal, and from the 24th on the cursor stays on the last line while the text scrolls. Where it
  is not 0 the screen does not scroll any more: the start of the ring stays at row 0, and every 25th
  line takes the cursor back to the top, from where the next lines overwrite the text that stands there.
  That lasts for fewer than 25 * (257 - \<open>vgabuf_move_row\<close>) lines, at least 5,824 of them for the values up to
  24 that scrolling gives. A line here has fewer than 80 characters and no backspace.
\<close>

lemma VGA_clear_screen_scrolling:
  assumes "list_all short_line ls"
    and "vgabuf_move_row s = 0 \<or> length ls < HEIGHT * (257 - unat (vgabuf_move_row s))"
  shows "\<exists>a s'. VGA_clear_screen s = ok a \<and> fold_res VGA_putc (lines_text ls) a = ok s' \<and> tcol (term_of s') = 0 \<and>
    (if vgabuf_move_row s = 0
     then in_step s' \<and> term_of s' = fold term_putc (lines_text ls) (term_of a) \<and> trow (term_of s') = min (length ls) 24
     else vgabuf_start_row s' = 0 \<and> trow (term_of s') = length ls mod HEIGHT)"
proof -
  obtain a where a: "VGA_clear_screen s = ok a" using VGA_clear_screen_returns by blast
  note ring = cleared_ring [OF a]
  have inv: "vga_inv a" using ring by (simp add: vga_inv_def)
  show ?thesis
  proof (cases "vgabuf_move_row s = 0")
    case True
    have step: "vga_inv a \<and> in_step a" using inv ring True by (simp add: in_step_def)
    note fits = lines_text_plain [OF assms(1)]
    obtain s' where s': "fold_res VGA_putc (lines_text ls) a = ok s'" "vga_inv s' \<and> in_step s'"
      using vga.text_ok [OF step fits] by blast
    have t: "term_of s' = fold term_putc (lines_text ls) (term_of a)"
      using vga.text_abstract [OF step fits s'(1)] .
    have "tcol (term_of a) = 0" "trow (term_of a) = 0" using ring by (simp_all add: term_of_def)
    from term_lines_row [OF this assms(1)] show ?thesis using a s' t True by (auto simp del: tcol_term_of)
  next
    case False
    then obtain s' where "fold_res VGA_putc (lines_text ls) a = ok s'" "vgabuf_col s' = 0"
      "unat (vgabuf_row s') = length ls mod 25" "vgabuf_start_row s' = 0"
      using VGA_lines_ring [OF inv, of ls] ring assms by auto
    with a False show ?thesis by (auto simp: term_of_def)
  qed
qed

lemma VGA_clear_screen_scrolling_witness:
  "\<exists>a s'. VGA_clear_screen (fresh_machine\<lparr>vgabuf_move_row := 3\<rparr>) = ok a \<and>
    fold_res VGA_putc (lines_text (replicate 60 (bytes_of ''hello''))) a = ok s' \<and>
    vgabuf_start_row s' = 0 \<and> trow (term_of s') = 10"
proof -
  have "list_all short_line (replicate 60 (bytes_of ''hello''))"
    by (simp add: list_all_iff short_line_def bytes_of_def)
  from VGA_clear_screen_scrolling [OF this, of "fresh_machine\<lparr>vgabuf_move_row := 3\<rparr>"]
  show ?thesis by auto
qed

end
