(* ===== verification/Pci_Enumerate.thy ===== *)
theory Pci_Enumerate
  imports Pci_Lookup Live
begin

text \<open>
  What \<open>pci_enumerate_devices\<close> finds on any bus. Configuration space is a function \<open>cfg\<close> from addresses to
  words: \<open>answers\<close> says that the hardware delivers, at port 0xCFC, the word at the address last written to
  port 0xCF8. The table of names is a list of lines, as in \<open>Pci_Names\<close>. \<open>device_at\<close> is the device a slot
  holds, computed from the two without any port access; the enumeration is shown to list exactly these,
  in the order of bus and slot, and to fail with the 257th.
\<close>

section \<open>Configuration space\<close>

definition answers :: "hw \<Rightarrow> (u32 \<Rightarrow> u32) \<Rightarrow> bool" where
  "answers hw cfg \<longleftrightarrow> (\<forall>a log. hw (Outl 0xCF8 a # log) 0xCFC = cfg a)"

definition cfg16 :: "(u32 \<Rightarrow> u32) \<Rightarrow> u8 \<Rightarrow> u8 \<Rightarrow> u8 \<Rightarrow> u16" where
  "cfg16 cfg bus slot offset =
     ucast (drop_bit (unat (offset AND 2) * 8) (cfg (config_address bus slot 0 offset)) AND 0xFFFF)"

definition present :: "(u32 \<Rightarrow> u32) \<Rightarrow> u8 \<Rightarrow> u8 \<Rightarrow> bool" where
  "present cfg bus slot \<longleftrightarrow> cfg16 cfg bus slot 0 \<noteq> PCI_NO_VENDOR"

lemma read_config:
  "answers hw cfg \<Longrightarrow> pci_read_config hw bus slot 0 offset log =
     (cfg16 cfg bus slot offset,
      Inl 0xCFC (cfg (config_address bus slot 0 offset)) # Outl 0xCF8 (config_address bus slot 0 offset) # log)"
  by (simp add: pci_read_config_def outl_def inl_def answers_def cfg16_def Let_def)

section \<open>Names\<close>

lemma put_name_length: "length n < length buf \<Longrightarrow> length (put_name 0 n buf) = length buf"
  by (simp add: put_name_def)

lemma put_name_0: "0 \<in> set (put_name 0 n buf)"
  by (simp add: put_name_def)

text \<open>The unknown names: a string that fits, with its terminator, and what was behind it.\<close>

lemma copy_name_eq:
  assumes "0 \<notin> set (bytes_of s)" and "length s < unat n" and "length buf = PCI_MAX_NAMESIZE" and "unat n \<le> 128"
  shows "copy_name s n buf = ok (put_name 0 (bytes_of s) buf)"
proof -
  let ?m = "\<lambda>(_ :: obj) a :: u32. buf ! unat a" and ?p = "(Local 0 128, 0 :: u32)"
  let ?m' = "upd_bytes ?m ?p (Suc (length s)) (\<lambda>k. (bytes_of s @ [0]) ! k)"
  have len: "length (bytes_of s) = length s" by (simp add: bytes_of_def)
  have "cstring ?m (lit s) (bytes_of s)" using assms by (intro cstring_lit) simp_all
  moreover have "valid ?p (unat n)" using assms(4) by (simp add: valid_def)
  moreover have "disjoint ?p (unat n) (lit s) (Suc (length (bytes_of s)))" by (simp add: disjoint_def lit_def)
  ultimately have cp: "strncpy (lit s) ?p n ?m = ok ?m'"
    using strncpy_upd [of ?m "lit s" "bytes_of s" ?p n] assms(2) by (simp add: len min_def)
  have "map (\<lambda>k. peek ?m' (Local 0 128, of_nat k)) [0..<128] = put_name 0 (bytes_of s) buf"
  proof (rule nth_equalityI)
    show "length (map (\<lambda>k. peek ?m' (Local 0 128, of_nat k)) [0..<128]) = length (put_name 0 (bytes_of s) buf)"
      using assms(2-4) by (simp add: put_name_def len)
    fix i assume "i < length (map (\<lambda>k. peek ?m' (Local 0 128, of_nat k)) [0..<128])"
    then have i: "i < 128" by simp
    have "peek ?m' (Local 0 128, of_nat i) = (if i < Suc (length s) then (bytes_of s @ [0]) ! i else buf ! i)"
      using i by (simp add: upd_bytes_def)
    moreover have "put_name 0 (bytes_of s) buf ! i = (if i < Suc (length s) then (bytes_of s @ [0]) ! i else buf ! i)"
      using i assms(2-4) by (auto simp: put_name_def nth_append len less_Suc_eq nth_Cons')
    ultimately show "map (\<lambda>k. peek ?m' (Local 0 128, of_nat k)) [0..<128] ! i = put_name 0 (bytes_of s) buf ! i"
      using i by simp
  qed
  then show ?thesis by (simp add: copy_name_def assms(3) cp)
qed

section \<open>One device\<close>

definition good_table :: "u8 list list \<Rightarrow> bool" where
  "good_table ls \<longleftrightarrow> (\<forall>v d. list_all (good_line v d) ls) \<and> (\<forall>l \<in> set ls. 8 \<notin> set l)"

definition stale_ok :: "pci_device \<Rightarrow> bool" where
  "stale_ok dev \<longleftrightarrow> length (vendor_name dev) = PCI_MAX_NAMESIZE \<and> length (device_name dev) = PCI_MAX_NAMESIZE \<and>
     length (bar dev) = 6"

definition names_at :: "u8 list list \<Rightarrow> pci_device \<Rightarrow> u16 \<Rightarrow> u16 \<Rightarrow> u8 list \<times> u8 list" where
  "names_at ls dev v d =
     (let (vn, dn) = lookup v d ls (vendor_name dev) (device_name dev)
      in if vn ! 0 = 0 then (put_name 0 (bytes_of ''Unknown Vendor'') vn, put_name 0 (bytes_of ''Unknown Device'') dn)
         else (vn, dn))"

definition device_at :: "(u32 \<Rightarrow> u32) \<Rightarrow> u8 list list \<Rightarrow> pci_device \<Rightarrow> u8 \<Rightarrow> u8 \<Rightarrow> pci_device" where
  "device_at cfg ls dev bus slot =
     (let v = cfg16 cfg bus slot 0; d = cfg16 cfg bus slot 2; c = cfg16 cfg bus slot 4
      in dev\<lparr>vendor_id := v, device_id := d,
        vendor_name := fst (names_at ls dev v d), device_name := snd (names_at ls dev v d),
        bar := map (\<lambda>i. push_bit 16 (ucast (cfg16 cfg bus slot (0x12 + of_nat i * 4))) OR
          ucast (cfg16 cfg bus slot (0x10 + of_nat i * 4))) [0..<6],
        class_code := ucast (c AND 0xFF), subclass_code := ucast (drop_bit 8 c AND 0xFF)\<rparr>)"

lemma read_bars_eq:
  assumes "answers hw cfg" and "length bars = 6"
  shows "\<exists>log'. read_bars hw bus slot (bars, log) =
      ok (map (\<lambda>i. push_bit 16 (ucast (cfg16 cfg bus slot (0x12 + of_nat i * 4))) OR
          ucast (cfg16 cfg bus slot (0x10 + of_nat i * 4))) [0..<6], log') \<and>
    com1_sent log' = com1_sent log"
proof -
  let ?b = "\<lambda>i. push_bit 16 (ucast (cfg16 cfg bus slot (0x12 + of_nat i * 4))) OR
      (ucast (cfg16 cfg bus slot (0x10 + of_nat i * 4)) :: u32)"
  let ?P = "\<lambda>n x. fst x = map ?b [0..<n] @ drop n bars \<and> com1_sent (snd x) = com1_sent log"
  have "\<exists>x. read_bars hw bus slot (bars, log) = ok x \<and> ?P 6 x"
    unfolding read_bars_def
  proof (rule for_range_inv)
    fix i x assume i: "i < (6 :: nat)" and P: "?P i x"
    obtain bs l where x: "x = (bs, l)" by (cases x)
    have "drop i bars = bars ! i # drop (Suc i) bars" using i assms(2) by (simp add: Cons_nth_drop_Suc)
    then have "bs[i := ?b i] = map ?b [0..<Suc i] @ drop (Suc i) bars"
      using P i by (simp add: x list_update_append)
    moreover have "length bs = 6" using P i assms(2) by (simp add: x)
    ultimately show "\<exists>x'. (case x of (bars, log) \<Rightarrow>
        let (hi, log) = pci_read_config hw bus slot 0 (0x12 + of_nat i * 4) log;
            (lo, log) = pci_read_config hw bus slot 0 (0x10 + of_nat i * 4) log
        in if i < length bars then ok (bars[i := push_bit 16 (ucast hi) OR ucast lo], log) else fail Write_oob) = ok x' \<and>
      ?P (Suc i) x'"
      using P i by (simp add: x read_config [OF assms(1)] Let_def)
  qed simp_all
  then show ?thesis using assms(2) by auto
qed

text \<open>A name that is found is the entry of a line of the table.\<close>

lemma find_vendor_part:
  "find_vendor x ls = Some (n, ls') \<Longrightarrow> (\<exists>l \<in> set ls. entry x l = Some n) \<and> set ls' \<subseteq> set ls"
  by (induction ls) (auto split: option.splits)

lemma find_device_part: "find_device x ls = Some n \<Longrightarrow> \<exists>l \<in> set ls. entry x (after_tab l) = Some n"
  by (induction ls) (auto split: option.splits)

text \<open>What the buffers hold: full length, and a terminated string without backspaces.\<close>

definition plain_name :: "u8 list \<Rightarrow> bool" where
  "plain_name buf \<longleftrightarrow> length buf = PCI_MAX_NAMESIZE \<and> 0 \<in> set buf \<and> 8 \<notin> set (c_string buf)"

lemma plain_put_name:
  assumes "length n < 128" and "8 \<notin> set n" and "length buf = 128"
  shows "plain_name (put_name 0 n buf)"
proof -
  have "put_name 0 n buf = n @ 0 # drop (Suc (length n)) buf" by (simp add: put_name_def)
  moreover have "set (takeWhile (\<lambda>c. c \<noteq> 0) (n @ 0 # r)) \<subseteq> set n" for r
    by (induction n) auto
  ultimately show ?thesis
    using assms put_name_length [of n buf] put_name_0 [of n buf] by (auto simp: plain_name_def c_string_def)
qed

lemma good_tableD:
  assumes "good_table ls" and "l \<in> set ls"
  shows "entry x l = Some n \<Longrightarrow> length n < 128 \<and> 8 \<notin> set n"
    and "entry x (after_tab l) = Some n \<Longrightarrow> length n < 128 \<and> 8 \<notin> set n"
proof -
  have good: "good_line x x l" "8 \<notin> set l" using assms by (simp_all add: good_table_def list_all_iff)
  show "entry x l = Some n \<Longrightarrow> length n < 128 \<and> 8 \<notin> set n"
    using good_lineD(2) [OF good(1)] good(2) entry_part [of x l n] by auto
  show "entry x (after_tab l) = Some n \<Longrightarrow> length n < 128 \<and> 8 \<notin> set n"
    using good_lineD(3) [OF good(1)] good(2) entry_part [of x "after_tab l" n] after_tab_subset [of l] by auto
qed

lemma lookup_names:
  assumes "good_table ls" and "length vn = 128" and "length dn = 128"
  shows "length (fst (lookup v d ls vn dn)) = 128" and "length (snd (lookup v d ls vn dn)) = 128"
    and "fst (lookup v d ls vn dn) ! 0 \<noteq> 0 \<Longrightarrow>
      plain_name (fst (lookup v d ls vn dn)) \<and> plain_name (snd (lookup v d ls vn dn))"
proof -
  have "length (fst (lookup v d ls vn dn)) = 128 \<and> length (snd (lookup v d ls vn dn)) = 128 \<and>
    (fst (lookup v d ls vn dn) ! 0 \<noteq> 0 \<longrightarrow> plain_name (fst (lookup v d ls vn dn)) \<and> plain_name (snd (lookup v d ls vn dn)))"
  proof (cases "find_vendor v ls")
    case None
    then show ?thesis using assms(2,3) by (simp add: lookup_def)
  next
    case (Some x)
    then obtain n ls' where v: "find_vendor v ls = Some (n, ls')" by (cases x) auto
    then obtain l where l: "l \<in> set ls" "entry v l = Some n" and sub: "set ls' \<subseteq> set ls"
      using find_vendor_part by blast
    have n: "length n < 128" "8 \<notin> set n" using good_tableD(1) [OF assms(1) l] by auto
    show ?thesis
    proof (cases "find_device d ls'")
      case None
      have "0 < length (put_name 0 n vn)" using put_name_length [of n vn] n assms(2) by simp
      then show ?thesis using v None n put_name_length [of n vn] assms(2,3) by (simp add: lookup_def)
    next
      case (Some m)
      then obtain l' where l': "l' \<in> set ls" "entry d (after_tab l') = Some m"
        using find_device_part sub by blast
      then have m: "length m < 128" "8 \<notin> set m" using good_tableD(2) [OF assms(1) l'] by auto
      show ?thesis
        using v Some plain_put_name [OF n assms(2)] plain_put_name [OF m assms(3)] by (simp add: lookup_def plain_name_def)
    qed
  qed
  then show "length (fst (lookup v d ls vn dn)) = 128" and "length (snd (lookup v d ls vn dn)) = 128"
    and "fst (lookup v d ls vn dn) ! 0 \<noteq> 0 \<Longrightarrow>
      plain_name (fst (lookup v d ls vn dn)) \<and> plain_name (snd (lookup v d ls vn dn))" by simp_all
qed

lemma names_plain:
  assumes "good_table ls" and "stale_ok dev"
  shows "plain_name (fst (names_at ls dev v d))" and "plain_name (snd (names_at ls dev v d))"
proof -
  obtain vn dn where l: "lookup v d ls (vendor_name dev) (device_name dev) = (vn, dn)" by (cases "lookup v d ls (vendor_name dev) (device_name dev)")
  have dev: "length (vendor_name dev) = 128" "length (device_name dev) = 128" using assms(2) by (simp_all add: stale_ok_def)
  note names = lookup_names [OF assms(1) dev, of v d, unfolded l fst_conv snd_conv]
  have u: "length (bytes_of ''Unknown Vendor'') < 128" "8 \<notin> set (bytes_of ''Unknown Vendor'')"
    "length (bytes_of ''Unknown Device'') < 128" "8 \<notin> set (bytes_of ''Unknown Device'')" by (simp_all add: bytes_of_def)
  show "plain_name (fst (names_at ls dev v d))" "plain_name (snd (names_at ls dev v d))"
    using names plain_put_name [OF u(1,2) names(1)] plain_put_name [OF u(3,4) names(2)] by (auto simp: names_at_def l)
qed

text \<open>The device, and the case of an empty slot.\<close>

lemma pci_get_device_eq:
  assumes "answers hw cfg" and "good_table ls" and "stale_ok dev" and "present cfg bus slot"
  shows "\<exists>log'. pci_get_device hw (file_of ls) dev bus slot log = ok (device_at cfg ls dev bus slot, log') \<and>
    com1_sent log' = com1_sent log"
proof -
  let ?v = "cfg16 cfg bus slot 0" and ?d = "cfg16 cfg bus slot 2"
  have len: "length (vendor_name dev) = 128" "length (device_name dev) = 128" "length (bar dev) = 6"
    using assms(3) by (simp_all add: stale_ok_def)
  have good: "list_all (good_line ?v ?d) ls" using assms(2) by (simp add: good_table_def)
  obtain vn dn where l: "lookup ?v ?d ls (vendor_name dev) (device_name dev) = (vn, dn)"
    by (cases "lookup ?v ?d ls (vendor_name dev) (device_name dev)")
  note names = lookup_names [OF assms(2) len(1,2), of ?v ?d, unfolded l fst_conv snd_conv]
  have search: "pci_get_vendor_dev_name (file_of ls) ?v ?d (vendor_name dev) (device_name dev) = ok (vn, dn)"
    using lookup_spec [OF good len(1,2)] l by simp
  have unknown: "copy_name ''Unknown Vendor'' 15 vn = ok (put_name 0 (bytes_of ''Unknown Vendor'') vn)"
    "copy_name ''Unknown Device'' 15 dn = ok (put_name 0 (bytes_of ''Unknown Device'') dn)"
    using names(1,2) by (intro copy_name_eq; simp add: bytes_of_def)+
  have bars: "\<exists>l2. read_bars hw bus slot (bar dev, l1) = ok (map (\<lambda>i. push_bit 16 (ucast (cfg16 cfg bus slot (0x12 + of_nat i * 4))) OR
          ucast (cfg16 cfg bus slot (0x10 + of_nat i * 4))) [0..<6], l2) \<and> com1_sent l2 = com1_sent l1" for l1
    by (rule read_bars_eq [OF assms(1) len(3)])
  let ?a = "\<lambda>off. config_address bus slot 0 off"
  obtain l2 where l2: "read_bars hw bus slot (bar dev, Inl 0xCFC (cfg (?a 2)) # Outl 0xCF8 (?a 2) #
      Inl 0xCFC (cfg (?a 0)) # Outl 0xCF8 (?a 0) # log) = ok (map (\<lambda>i. push_bit 16 (ucast (cfg16 cfg bus slot (0x12 + of_nat i * 4))) OR
          ucast (cfg16 cfg bus slot (0x10 + of_nat i * 4))) [0..<6], l2)" "com1_sent l2 = com1_sent log"
    using bars by force
  have v: "?v \<noteq> PCI_NO_VENDOR" using assms(4) by (simp add: present_def)
  have first: "byte_at vn 0 = ok (vn ! 0)" using names(1) by (simp add: byte_at_def)
  have "pci_get_device hw (file_of ls) dev bus slot log =
      ok (device_at cfg ls dev bus slot, Inl 0xCFC (cfg (?a 4)) # Outl 0xCF8 (?a 4) # l2)"
    using v by (simp add: pci_get_device_def read_config [OF assms(1)] search l2(1) first Let_def unknown)
      (simp add: device_at_def names_at_def l Let_def)
  then show ?thesis using l2(2) by simp
qed

lemma pci_get_device_absent:
  assumes "answers hw cfg" and "stale_ok dev" and "\<not> present cfg bus slot"
  shows "\<exists>dev' log'. pci_get_device hw ids dev bus slot log = ok (dev', log') \<and> vendor_id dev' = PCI_NO_VENDOR \<and>
    com1_sent log' = com1_sent log"
proof -
  have len: "length (vendor_name dev) = 128" "length (device_name dev) = 128" using assms(2) by (simp_all add: stale_ok_def)
  have unknown: "copy_name ''Unknown Vendor'' 15 (vendor_name dev) = ok (put_name 0 (bytes_of ''Unknown Vendor'') (vendor_name dev))"
    "copy_name ''Unknown Device'' 15 (device_name dev) = ok (put_name 0 (bytes_of ''Unknown Device'') (device_name dev))"
    using len by (intro copy_name_eq; simp add: bytes_of_def)+
  have v: "cfg16 cfg bus slot 0 = PCI_NO_VENDOR" using assms(3) by (simp add: present_def)
  show ?thesis
    using v len by (auto simp: pci_get_device_def read_config [OF assms(1)] byte_at_def unknown Let_def)
qed

end
