(* ===== verification/Pci_Bus.thy ===== *)
theory Pci_Bus
  imports Pci_Enumerate
begin

text \<open>
  The enumeration of all buses and slots: \<open>pci_probe\<close> on a slot with a device and on one without, the
  two lines it prints, and the loop over 256 buses of 256 slots as one pass over \<open>slots\<close>. The result is
  the list of the devices of \<open>Pci_Enumerate\<close>, or the fault of writing the 257th.
\<close>

section \<open>The two lines of a device\<close>

lemma c_string_cstring:
  assumes "0 \<in> set bs" and "length bs < 4294967296"
  shows "cstring m (Const bs, 0) (c_string bs)"
proof -
  have lt: "length (c_string bs) < length bs" using assms(1) unfolding c_string_def by (induction bs) auto
  have "bs ! length (c_string bs) = 0" using nth_length_takeWhile lt unfolding c_string_def by blast
  then have "bs ! k = (c_string bs @ [0]) ! k" if "k \<le> length (c_string bs)" for k
    using that by (cases "k = length (c_string bs)") (simp_all add: nth_append takeWhile_nth c_string_def)
  then show ?thesis
    using lt assms(2) by (auto simp: cstring_def valid_def c_string_def dest: set_takeWhileD)
qed

definition const_strings :: "ptr \<Rightarrow> u8 list" where
  "const_strings p = (case fst p of Const bs \<Rightarrow> c_string bs | _ \<Rightarrow> [])"

definition device_text :: "u8 \<Rightarrow> u8 \<Rightarrow> pci_device \<Rightarrow> u8 list" where
  "device_text bus slot dev =
     (let b = uint_text (unat bus); s = uint_text (unat slot)
      in bytes_of ''pci: '' @ b @ bytes_of ''.'' @ s @ bytes_of '': PCI device found bus '' @ b @ bytes_of '' slot '' @ s @
         bytes_of '' vendor '' @ hex_text (ucast (vendor_id dev)) @ bytes_of '', device '' @ hex_text (ucast (device_id dev)) @
         bytes_of '' ('' @ uint_text (unat (class_code dev)) @ bytes_of '' '' @ uint_text (unat (subclass_code dev)) @
         bytes_of '')\<newline>'' @
         bytes_of ''pci: '' @ b @ bytes_of ''.'' @ s @ bytes_of '': '' @ c_string (vendor_name dev) @ bytes_of '' '' @
         c_string (device_name dev) @ bytes_of ''\<newline>'')"

lemma int_text_byte: "int_text (sint (ucast (x :: u8) :: u32)) = uint_text (unat x)"
proof -
  have x: "uint x < 256" using uint_lt2p [of x] by simp
  have "signed_take_bit 31 (uint x) = uint x"
  proof (rule signed_take_bit_int_eq_self)
    show "- (2 ^ 31) \<le> uint x" by (rule order_trans [of _ 0]) simp_all
    show "uint x < 2 ^ 31" using x by simp
  qed
  then have "sint (ucast x :: u32) = uint x"
    using x by (simp add: sint_uint unsigned_ucast_eq take_bit_int_eq_self)
  then show ?thesis by (simp add: int_text_def)
qed

lemma device_lines:
  assumes "live_console hw k" and "plain_name (vendor_name dev)" and "plain_name (device_name dev)"
  shows "\<exists>k1 k2. printf_nolock hw
      (lit ''pci: %d.%d: PCI device found bus %d slot %d vendor %x, device %x (%d %d)\<newline>'')
      [Va_int (ucast (bus :: u8)), Va_int (ucast (slot :: u8)), Va_int (ucast bus), Va_int (ucast slot),
       Va_int (ucast (vendor_id dev)), Va_int (ucast (device_id dev)), Va_int (ucast (class_code dev)),
       Va_int (ucast (subclass_code dev))] k = ok k1 \<and>
    printf_nolock hw (lit ''pci: %d.%d: %s %s\<newline>'')
      [Va_int (ucast bus), Va_int (ucast slot), Va_ptr (Const (vendor_name dev), 0), Va_ptr (Const (device_name dev), 0)]
      k1 = ok k2 \<and> writes hw (device_text bus slot dev) k k2"
proof -
  let ?f1 = "''pci: %d.%d: PCI device found bus %d slot %d vendor %x, device %x (%d %d)\<newline>''"
    and ?f2 = "''pci: %d.%d: %s %s\<newline>''"
  let ?a1 = "[Va_int (ucast bus), Va_int (ucast slot), Va_int (ucast bus), Va_int (ucast slot),
       Va_int (ucast (vendor_id dev)), Va_int (ucast (device_id dev)), Va_int (ucast (class_code dev)),
       Va_int (ucast (subclass_code dev))]"
    and ?a2 = "[Va_int (ucast bus), Va_int (ucast slot), Va_ptr (Const (vendor_name dev), 0), Va_ptr (Const (device_name dev), 0)]"
  let ?b = "uint_text (unat bus)" and ?s = "uint_text (unat slot)"
  let ?t1 = "bytes_of ''pci: '' @ ?b @ bytes_of ''.'' @ ?s @ bytes_of '': PCI device found bus '' @ ?b @ bytes_of '' slot '' @ ?s @
         bytes_of '' vendor '' @ hex_text (ucast (vendor_id dev)) @ bytes_of '', device '' @ hex_text (ucast (device_id dev)) @
         bytes_of '' ('' @ uint_text (unat (class_code dev)) @ bytes_of '' '' @ uint_text (unat (subclass_code dev)) @
         bytes_of '')\<newline>''"
    and ?t2 = "bytes_of ''pci: '' @ ?b @ bytes_of ''.'' @ ?s @ bytes_of '': '' @ c_string (vendor_name dev) @ bytes_of '' '' @
         c_string (device_name dev) @ bytes_of ''\<newline>''"
  have f1: "fmt_text (\<lambda>_. []) (bytes_of ?f1) ?a1 = Some (?t1, True)"
    by (simp add: bytes_of_def conv_text_def int_text_byte)
  have p1: "8 \<notin> set ?t1" by (simp add: numbers_printable) (simp add: bytes_of_def)
  obtain k1 where k1: "printf_nolock hw (lit ?f1) ?a1 k = ok k1" "writes hw ?t1 k k1"
    using printf_nolock_live [OF assms(1) _ _ _ f1 p1] by (auto simp: bytes_of_def strings_at_def)
  have f2: "fmt_text const_strings (bytes_of ?f2) ?a2 = Some (?t2, True)"
    by (simp add: bytes_of_def conv_text_def int_text_byte const_strings_def)
  have p2: "8 \<notin> set ?t2"
    using assms(2,3) by (simp add: numbers_printable plain_name_def) (simp add: bytes_of_def)
  have rd: "strings_at const_strings ?a2 (mem k1)"
    using assms(2,3) by (auto simp: strings_at_def const_strings_def plain_name_def intro!: c_string_cstring)
  have "live_console hw k1" using k1(2) by (simp add: writes_def)
  then obtain k2 where k2: "printf_nolock hw (lit ?f2) ?a2 k1 = ok k2" "writes hw ?t2 k1 k2"
    using printf_nolock_live [OF _ _ _ rd f2 p2] by (auto simp: bytes_of_def)
  have "?t1 @ ?t2 = device_text bus slot dev" by (simp add: device_text_def Let_def)
  with k1(1) k2(1) writes_trans [OF k1(2) k2(2)] show ?thesis by metis
qed

section \<open>One slot\<close>

lemma writes_log:
  "com1_sent l = com1_sent (io_log k) \<Longrightarrow> writes hw t (k\<lparr>io_log := l\<rparr>) k' = writes hw t k k'"
  by (simp add: writes_def screen_only_def)

lemma device_at_parts:
  assumes "good_table ls" and "stale_ok dev"
  shows "plain_name (vendor_name (device_at cfg ls dev bus slot))" and "plain_name (device_name (device_at cfg ls dev bus slot))"
    and "vendor_id (device_at cfg ls dev bus slot) = cfg16 cfg bus slot 0"
  using names_plain [OF assms] by (simp_all add: device_at_def Let_def)

lemma probe_present:
  assumes "answers hw cfg" and "good_table ls" and "stale_ok (stale bus slot)" and "present cfg bus slot"
    and "live_console hw k" and "unat (pci_devices_count p) < length (pci_devices_list p)"
  defines "dev \<equiv> device_at cfg ls (stale bus slot) bus slot"
  shows "\<exists>k'. pci_probe hw (file_of ls) stale bus slot (p, k) =
      ok (p\<lparr>pci_devices_list := (pci_devices_list p)[unat (pci_devices_count p) := dev],
            pci_devices_count := pci_devices_count p + 1\<rparr>, k') \<and>
    writes hw (device_text bus slot dev) k k'"
proof -
  obtain l where l: "pci_get_device hw (file_of ls) (stale bus slot) bus slot (io_log k) = ok (dev, l)"
    "com1_sent l = com1_sent (io_log k)"
    using pci_get_device_eq [OF assms(1-4)] unfolding dev_def by blast
  note parts = device_at_parts [OF assms(2,3), of cfg bus slot, folded dev_def]
  have v: "vendor_id dev \<noteq> PCI_NO_VENDOR" using parts(3) assms(4) by (simp add: present_def)
  have "live_console hw (k\<lparr>io_log := l\<rparr>)" using assms(5) by simp
  from device_lines [OF this parts(1,2), of bus slot] obtain k1 k2 where k: "printf_nolock hw
      (lit ''pci: %d.%d: PCI device found bus %d slot %d vendor %x, device %x (%d %d)\<newline>'')
      [Va_int (ucast (bus :: u8)), Va_int (ucast (slot :: u8)), Va_int (ucast bus), Va_int (ucast slot),
       Va_int (ucast (vendor_id dev)), Va_int (ucast (device_id dev)), Va_int (ucast (class_code dev)),
       Va_int (ucast (subclass_code dev))] (k\<lparr>io_log := l\<rparr>) = ok k1"
    "printf_nolock hw (lit ''pci: %d.%d: %s %s\<newline>'')
      [Va_int (ucast bus), Va_int (ucast slot), Va_ptr (Const (vendor_name dev), 0), Va_ptr (Const (device_name dev), 0)]
      k1 = ok k2" "writes hw (device_text bus slot dev) (k\<lparr>io_log := l\<rparr>) k2"
    by blast
  have "pci_probe hw (file_of ls) stale bus slot (p, k) =
      ok (p\<lparr>pci_devices_list := (pci_devices_list p)[unat (pci_devices_count p) := dev],
            pci_devices_count := pci_devices_count p + 1\<rparr>, k2)"
    using v assms(6) by (simp add: pci_probe_def l(1) Let_def add_device_def k(1,2))
  then show ?thesis using k(3) writes_log [OF l(2)] by blast
qed

lemma probe_full:
  assumes "answers hw cfg" and "good_table ls" and "stale_ok (stale bus slot)" and "present cfg bus slot"
    and "length (pci_devices_list p) \<le> unat (pci_devices_count p)"
  shows "pci_probe hw (file_of ls) stale bus slot (p, k) = fail Write_oob"
proof -
  obtain l where l: "pci_get_device hw (file_of ls) (stale bus slot) bus slot (io_log k) =
      ok (device_at cfg ls (stale bus slot) bus slot, l)"
    using pci_get_device_eq [OF assms(1-4)] by blast
  have "vendor_id (device_at cfg ls (stale bus slot) bus slot) \<noteq> PCI_NO_VENDOR"
    using device_at_parts(3) [OF assms(2,3)] assms(4) by (simp add: present_def)
  then show ?thesis using assms(5) by (simp add: pci_probe_def l Let_def add_device_def)
qed

lemma probe_absent:
  assumes "answers hw cfg" and "stale_ok (stale bus slot)" and "\<not> present cfg bus slot" and "live_console hw k"
  shows "\<exists>k'. pci_probe hw ids stale bus slot (p, k) = ok (p, k') \<and> writes hw [] k k'"
proof -
  obtain dev l where "pci_get_device hw ids (stale bus slot) bus slot (io_log k) = ok (dev, l)"
    "vendor_id dev = PCI_NO_VENDOR" "com1_sent l = com1_sent (io_log k)"
    using pci_get_device_absent [OF assms(1-3)] by blast
  then show ?thesis using assms(4) by (auto simp: pci_probe_def writes_def screen_only_def Let_def)
qed

section \<open>All slots\<close>

lemma fold_res_product:
  "fold_res (\<lambda>a. fold_res (f a) ys) xs = fold_res (\<lambda>(a, b). f a b) (List.product xs ys)"
proof (induction xs)
  case (Cons a xs)
  have "fold_res (f a) ys s = fold_res (\<lambda>(a, b). f a b) (map (Pair a) ys) s" for s
    by (induction ys arbitrary: s) (simp_all cong: bind_res_cong)
  with Cons show ?case by (simp add: fun_eq_iff fold_res_append cong: bind_res_cong)
qed (simp add: fun_eq_iff)

lemma fold_res_map: "fold_res f (map g xs) s = fold_res (\<lambda>x. f (g x)) xs s"
  by (induction xs arbitrary: s) (simp_all cong: bind_res_cong)

definition slots :: "(u8 \<times> u8) list" where
  "slots = List.product (map of_nat [0..<256]) (map of_nat [0..<256])"

lemma enumerate_slots:
  "pci_enumerate_devices hw ids stale x = fold_res (\<lambda>(bus, slot). pci_probe hw ids stale bus slot) slots x"
  unfolding pci_enumerate_devices_def slots_def fold_res_product [symmetric]
  by (simp add: for_range_def [abs_def] fold_res_map [abs_def])

definition devices_on :: "(u32 \<Rightarrow> u32) \<Rightarrow> u8 list list \<Rightarrow> (u8 \<Rightarrow> u8 \<Rightarrow> pci_device) \<Rightarrow> (u8 \<times> u8) list \<Rightarrow> pci_device list" where
  "devices_on cfg ls stale xs =
     map (\<lambda>(bus, slot). device_at cfg ls (stale bus slot) bus slot) (filter (\<lambda>(bus, slot). present cfg bus slot) xs)"

definition devices_text :: "(u32 \<Rightarrow> u32) \<Rightarrow> u8 list list \<Rightarrow> (u8 \<Rightarrow> u8 \<Rightarrow> pci_device) \<Rightarrow> (u8 \<times> u8) list \<Rightarrow> u8 list" where
  "devices_text cfg ls stale xs =
     concat (map (\<lambda>(bus, slot). device_text bus slot (device_at cfg ls (stale bus slot) bus slot))
       (filter (\<lambda>(bus, slot). present cfg bus slot) xs))"

lemma devices_on_simps [simp]:
  "devices_on cfg ls stale [] = []" "devices_text cfg ls stale [] = []"
  "present cfg b s \<Longrightarrow> devices_on cfg ls stale ((b, s) # xs) = device_at cfg ls (stale b s) b s # devices_on cfg ls stale xs"
  "present cfg b s \<Longrightarrow> devices_text cfg ls stale ((b, s) # xs) =
     device_text b s (device_at cfg ls (stale b s) b s) @ devices_text cfg ls stale xs"
  "\<not> present cfg b s \<Longrightarrow> devices_on cfg ls stale ((b, s) # xs) = devices_on cfg ls stale xs"
  "\<not> present cfg b s \<Longrightarrow> devices_text cfg ls stale ((b, s) # xs) = devices_text cfg ls stale xs"
  by (simp_all add: devices_on_def devices_text_def)

definition with_devices :: "pci_device list \<Rightarrow> pci \<Rightarrow> pci" where
  "with_devices ds p =
     p\<lparr>pci_devices_list := take (unat (pci_devices_count p)) (pci_devices_list p) @ ds @
         drop (unat (pci_devices_count p) + length ds) (pci_devices_list p),
       pci_devices_count := pci_devices_count p + of_nat (length ds)\<rparr>"

lemma with_devices_Nil: "with_devices [] p = p"
  by (simp add: with_devices_def)

lemma with_devices_Cons:
  assumes "unat (pci_devices_count p) < length (pci_devices_list p)" and "length (pci_devices_list p) = PCI_MAX_DEVICES"
  shows "with_devices ds (p\<lparr>pci_devices_list := (pci_devices_list p)[unat (pci_devices_count p) := d],
      pci_devices_count := pci_devices_count p + 1\<rparr>) = with_devices (d # ds) p"
proof -
  let ?n = "unat (pci_devices_count p)"
  have n: "unat (pci_devices_count p + 1) = Suc ?n" using assms by (simp add: unat_word_ariths)
  have "take (Suc ?n) ((pci_devices_list p)[?n := d]) = take ?n (pci_devices_list p) @ [d]"
    using assms(1) by (simp add: take_Suc_conv_app_nth)
  then show ?thesis by (simp add: with_devices_def n drop_update_cancel)
qed

lemma probe_slots:
  assumes hw: "answers hw cfg" "good_table ls" "\<And>bus slot. stale_ok (stale bus slot)"
  shows "live_console hw k \<Longrightarrow> length (pci_devices_list p) = PCI_MAX_DEVICES \<Longrightarrow> unat (pci_devices_count p) \<le> PCI_MAX_DEVICES \<Longrightarrow>
    (if unat (pci_devices_count p) + length (devices_on cfg ls stale xs) \<le> PCI_MAX_DEVICES
     then \<exists>k'. fold_res (\<lambda>(bus, slot). pci_probe hw (file_of ls) stale bus slot) xs (p, k) =
         ok (with_devices (devices_on cfg ls stale xs) p, k') \<and> writes hw (devices_text cfg ls stale xs) k k'
     else fold_res (\<lambda>(bus, slot). pci_probe hw (file_of ls) stale bus slot) xs (p, k) = fail Write_oob)"
proof (induction xs arbitrary: p k)
  case Nil
  then show ?case by (simp add: with_devices_Nil writes_def)
next
  case (Cons x xs)
  obtain b s where x: "x = (b, s)" by (cases x)
  show ?case
  proof (cases "present cfg b s")
    case False
    obtain k1 where k1: "pci_probe hw (file_of ls) stale b s (p, k) = ok (p, k1)" "writes hw [] k k1"
      using probe_absent [where stale = stale, OF hw(1) hw(3) False Cons.prems(1)] by blast
    then have "live_console hw k1" by (simp add: writes_def)
    from Cons.IH [OF this Cons.prems(2,3)] show ?thesis
      using k1 False writes_trans [OF k1(2)] by (auto simp: x split: if_splits)
  next
    case True
    let ?d = "device_at cfg ls (stale b s) b s"
    show ?thesis
    proof (cases "unat (pci_devices_count p) < PCI_MAX_DEVICES")
      case False
      then show ?thesis
        using probe_full [of hw cfg ls stale b s p k] hw True Cons.prems(2) by (simp add: x)
    next
      case lt: True
      let ?p = "p\<lparr>pci_devices_list := (pci_devices_list p)[unat (pci_devices_count p) := ?d],
            pci_devices_count := pci_devices_count p + 1\<rparr>"
      obtain k1 where k1: "pci_probe hw (file_of ls) stale b s (p, k) = ok (?p, k1)"
        "writes hw (device_text b s ?d) k k1"
        using probe_present [of hw cfg ls stale b s k p] hw True Cons.prems(1,2) lt by auto
      then have live: "live_console hw k1" by (simp add: writes_def)
      have c: "unat (pci_devices_count p + 1) = Suc (unat (pci_devices_count p))" using lt by (simp add: unat_word_ariths)
      have w: "with_devices (devices_on cfg ls stale xs) ?p = with_devices (?d # devices_on cfg ls stale xs) p"
        using with_devices_Cons [of p "devices_on cfg ls stale xs" ?d] lt Cons.prems(2) by simp
      have "length (pci_devices_list ?p) = 256" "unat (pci_devices_count ?p) \<le> 256" using Cons.prems(2) lt c by simp_all
      from Cons.IH [OF live this] show ?thesis
        using k1(1) True w c writes_trans [OF k1(2)] by (auto simp: x split: if_splits)
    qed
  qed
qed

lemma enumerate_devices:
  assumes "answers hw cfg" and "good_table ls" and "\<And>bus slot. stale_ok (stale bus slot)"
    and "live_console hw k" and "length (pci_devices_list p) = PCI_MAX_DEVICES" and "unat (pci_devices_count p) \<le> PCI_MAX_DEVICES"
    and "unat (pci_devices_count p) + length (devices_on cfg ls stale slots) \<le> PCI_MAX_DEVICES"
  shows "\<exists>k'. pci_enumerate_devices hw (file_of ls) stale (p, k) = ok (with_devices (devices_on cfg ls stale slots) p, k') \<and>
    writes hw (devices_text cfg ls stale slots) k k'"
  using probe_slots [where xs = slots, OF assms(1-6)] assms(7) by (simp add: enumerate_slots)

section \<open>The same device met again\<close>

text \<open>The slot field has five bits, and what does not fit goes into the bus field.\<close>

lemma config_address_alias:
  "config_address bus slot 0 offset = config_address (bus OR drop_bit 5 slot) (slot AND 0x1F) 0 offset"
proof -
  have m: "(0x1F :: u8) = mask 5" "(0xFC :: u32) = push_bit 2 (mask 6)" "(8 :: u32) = push_bit 3 1"
    by (simp_all add: mask_eq_exp_minus_1)
  have u8: "n < 8" if "bit (w :: u8) n" for w n using bit_imp_le_length [OF that] by simp
  have spill: "n - 11 < 5" if "bit slot (n - 11)" and "\<not> bit slot (5 + (n - 16))" for n
  proof (rule ccontr)
    assume "\<not> n - 11 < 5"
    then have "5 + (n - 16) = n - 11" by simp
    with that show False by simp
  qed
  show ?thesis unfolding bit_eq_iff bit_simps config_address_def m by (auto dest: u8 intro: spill)
qed

lemma present_alias: "present cfg bus slot = present cfg (bus OR drop_bit 5 slot) (slot AND 0x1F)"
  unfolding present_def cfg16_def using config_address_alias [of bus slot 0] by simp

text \<open>Every way to write a slot below 10 of bus 7.\<close>

definition spills :: "(u8 \<times> u8) list" where
  "spills = filter (\<lambda>(b, x). b OR x = 7) (List.product [0, 1, 2, 3, 4, 5, 6, 7] [0, 1, 2, 3, 4, 5, 6, 7])"

definition aliases :: "(u8 \<times> u8) list" where
  "aliases = map (\<lambda>((b, x), s). (b, push_bit 5 x OR s)) (List.product spills [0, 1, 2, 3, 4, 5, 6, 7, 8, 9])"

lemma length_spills: "length spills = 27" and distinct_spills: "distinct spills"
  unfolding spills_def by (code_simp, simp add: distinct_product)

lemma unspill:
  "list_all (\<lambda>(x :: u8, s :: u8). drop_bit 5 (push_bit 5 x OR s) = x \<and> (push_bit 5 x OR s) AND 0x1F = s)
    (List.product [0, 1, 2, 3, 4, 5, 6, 7] [0, 1, 2, 3, 4, 5, 6, 7, 8, 9])"
  by code_simp

lemma unspill_at:
  assumes "(b, x) \<in> set spills" and "s \<in> set [0, 1, 2, 3, 4, 5, 6, 7, 8, 9]"
  shows "drop_bit 5 (push_bit 5 x OR s) = x" and "(push_bit 5 x OR s) AND 0x1F = s" and "b OR x = 7"
proof -
  have "x \<in> set [0, 1, 2, 3, 4, 5, 6, 7]" and b: "b OR x = 7" using assms(1) by (auto simp: spills_def)
  then have "(x, s) \<in> set (List.product [0, 1, 2, 3, 4, 5, 6, 7] [0, 1, 2, 3, 4, 5, 6, 7, 8, 9])"
    using assms(2) unfolding set_product by blast
  then show "drop_bit 5 (push_bit 5 x OR s) = x" and "(push_bit 5 x OR s) AND 0x1F = s"
    using unspill unfolding list_all_iff by blast+
  show "b OR x = 7" by (rule b)
qed

lemma length_aliases: "length aliases = 270"
  by (simp add: aliases_def length_spills length_product)

lemma distinct_aliases: "distinct aliases"
proof -
  let ?ss = "[0, 1, 2, 3, 4, 5, 6, 7, 8, 9 :: u8]"
  let ?f = "\<lambda>((b :: u8, x), s :: u8). (b, push_bit 5 x OR s)"
  have "inj_on ?f (set spills \<times> set ?ss)"
  proof (rule inj_onI)
    fix u v
    assume u: "u \<in> set spills \<times> set ?ss" and v: "v \<in> set spills \<times> set ?ss"
      and eq: "?f u = ?f v"
    obtain b x s c y t where p: "u = ((b, x), s)" "v = ((c, y), t)" by (metis surj_pair)
    have "b = c" and e: "push_bit 5 x OR s = push_bit 5 y OR t" using eq by (simp_all add: p)
    have m: "(b, x) \<in> set spills" "s \<in> set ?ss" "(c, y) \<in> set spills" "t \<in> set ?ss"
      using u v by (simp_all only: p mem_Sigma_iff)
    have "x = y" using unspill_at(1) [OF m(1,2)] unspill_at(1) [OF m(3,4)] by (simp only: e)
    moreover have "s = t" using unspill_at(2) [OF m(1,2)] unspill_at(2) [OF m(3,4)] by (simp only: e)
    ultimately show "u = v" using \<open>b = c\<close> by (simp add: p)
  qed
  moreover have "distinct (List.product spills ?ss)"
    by (rule distinct_product [OF distinct_spills]) simp
  ultimately show ?thesis unfolding aliases_def distinct_map set_product by blast
qed

lemma all_slots: "x \<in> set slots"
proof -
  have "w \<in> set (map of_nat [0..<256])" for w :: u8
  proof -
    have "unat w < 256" using unsigned_less [of w] by simp
    then have "of_nat (unat w) \<in> (of_nat :: nat \<Rightarrow> u8) ` set [0..<256]" by (intro imageI) simp
    then show ?thesis by simp
  qed
  then show ?thesis by (cases x) (simp add: slots_def del: set_map)
qed

lemma many_devices:
  assumes "\<forall>s < 10. present cfg 7 s"
  shows "PCI_MAX_DEVICES < length (devices_on cfg ls stale slots)"
proof -
  have "set aliases \<subseteq> set (filter (\<lambda>(b, s). present cfg b s) slots)"
  proof
    fix a assume "a \<in> set aliases"
    then obtain b x s where s: "(b, x) \<in> set spills" "s \<in> set [0, 1, 2, 3, 4, 5, 6, 7, 8, 9 :: u8]"
      and a: "a = (b, push_bit 5 x OR s)" unfolding aliases_def by auto
    have "s < 10" using s(2) by auto
    then have "present cfg b (push_bit 5 x OR s)"
      using assms unspill_at [OF s] present_alias [of cfg b "push_bit 5 x OR s"] by simp
    then show "a \<in> set (filter (\<lambda>(b, s). present cfg b s) slots)" using all_slots [of a] by (simp add: a)
  qed
  then have "card (set aliases) \<le> card (set (filter (\<lambda>(b, s). present cfg b s) slots))" by (intro card_mono) simp_all
  also have "\<dots> \<le> length (filter (\<lambda>(b, s). present cfg b s) slots)" by (rule card_length)
  finally show ?thesis
    using distinct_card [OF distinct_aliases] by (simp add: devices_on_def length_aliases)
qed

section \<open>The first lines of the table\<close>

lemma head_plain_by_part:
  "list_all (\<lambda>l. CHR 0x08 \<notin> set l) pci_ids_00"
  "list_all (\<lambda>l. CHR 0x08 \<notin> set l) pci_ids_01"
  "list_all (\<lambda>l. CHR 0x08 \<notin> set l) pci_ids_02"
  "list_all (\<lambda>l. CHR 0x08 \<notin> set l) pci_ids_03"
  "list_all (\<lambda>l. CHR 0x08 \<notin> set l) pci_ids_04"
  "list_all (\<lambda>l. CHR 0x08 \<notin> set l) pci_ids_05"
  "list_all (\<lambda>l. CHR 0x08 \<notin> set l) pci_ids_06"
  "list_all (\<lambda>l. CHR 0x08 \<notin> set l) pci_ids_07"
  "list_all (\<lambda>l. CHR 0x08 \<notin> set l) pci_ids_08"
  "list_all (\<lambda>l. CHR 0x08 \<notin> set l) pci_ids_09"
  "list_all (\<lambda>l. CHR 0x08 \<notin> set l) pci_ids_10"
  "list_all (\<lambda>l. CHR 0x08 \<notin> set l) pci_ids_11"
  "list_all (\<lambda>l. CHR 0x08 \<notin> set l) pci_ids_12"
  "list_all (\<lambda>l. CHR 0x08 \<notin> set l) pci_ids_13"
  "list_all (\<lambda>l. CHR 0x08 \<notin> set l) pci_ids_14"
  "list_all (\<lambda>l. CHR 0x08 \<notin> set l) pci_ids_15"
  subgoal unfolding pci_ids_00_def by simp
  subgoal unfolding pci_ids_01_def by simp
  subgoal unfolding pci_ids_02_def by simp
  subgoal unfolding pci_ids_03_def by simp
  subgoal unfolding pci_ids_04_def by simp
  subgoal unfolding pci_ids_05_def by simp
  subgoal unfolding pci_ids_06_def by simp
  subgoal unfolding pci_ids_07_def by simp
  subgoal unfolding pci_ids_08_def by simp
  subgoal unfolding pci_ids_09_def by simp
  subgoal unfolding pci_ids_10_def by simp
  subgoal unfolding pci_ids_11_def by simp
  subgoal unfolding pci_ids_12_def by simp
  subgoal unfolding pci_ids_13_def by simp
  subgoal unfolding pci_ids_14_def by simp
  subgoal unfolding pci_ids_15_def by simp
  done

lemma head_plain: "list_all (\<lambda>l. CHR 0x08 \<notin> set l) pci_ids_head"
  by (simp add: pci_ids_head_def head_plain_by_part)

lemma no_backspace: "CHR 0x08 \<notin> set l \<Longrightarrow> 8 \<notin> set (bytes_of l)"
proof -
  have "(8 :: u8) = of_char (CHR 0x08)" by simp
  then show "CHR 0x08 \<notin> set l \<Longrightarrow> 8 \<notin> set (bytes_of l)" using in_bytes_of [of "CHR 0x08" l] by simp
qed

lemma head_table: "good_table (map bytes_of pci_ids_head)"
  using head_plain head_good no_backspace by (auto simp: good_table_def list_all_iff)

lemma long_plain: "list_all (\<lambda>l. CHR 0x08 \<notin> set l) pci_ids_long"
  unfolding pci_ids_long_def by simp

lemma long_table: "good_table (map bytes_of (pci_ids_head @ pci_ids_long))"
  using head_plain head_good long_plain long_lines_good no_backspace by (auto simp: good_table_def list_all_iff)

section \<open>A machine with one device\<close>

definition blank_device :: pci_device where
  "blank_device = \<lparr>device_id = 0, vendor_id = 0, device_name = replicate 128 0, vendor_name = replicate 128 0,
     bar = replicate 6 0, class_code = 0, subclass_code = 0\<rparr>"

definition blank_pci :: pci where
  "blank_pci = \<lparr>pci_devices_list = replicate 256 blank_device, pci_devices_count = 0\<rparr>"

text \<open>Configuration mechanism 1, with the word at the address last written; the UART always ready.\<close>

definition pci_hw :: "(u32 \<Rightarrow> u32) \<Rightarrow> hw" where
  "pci_hw cfg log port =
     (if port = 0xCFC then (case log of Outl _ a # _ \<Rightarrow> cfg a | _ \<Rightarrow> 0xFFFFFFFF) else 0xFF)"

lemma pci_hw_ok: "answers (pci_hw cfg) cfg" "uart_live (pci_hw cfg)"
proof -
  have "tx_ready (pci_hw cfg) log" for log by (simp add: tx_ready_def port_byte_def pci_hw_def bit_simps)
  then show "answers (pci_hw cfg) cfg" "uart_live (pci_hw cfg)" by (simp_all add: answers_def pci_hw_def uart_live_def)
qed

definition one_device :: "u32 \<Rightarrow> u32" where
  "one_device a = (if a = config_address 0 1 0 0 then 0x12378086 else 0xFFFFFFFF)"

lemma one_device_present: "present one_device bus slot \<longleftrightarrow> bus = 0 \<and> slot = 1"
proof
  assume "present one_device bus slot"
  then have a: "config_address bus slot 0 0 = config_address 0 1 0 0"
    by (auto simp: present_def cfg16_def one_device_def split: if_splits)
  have inj: "x = y" if "(ucast x :: u32) = ucast y" for x y :: u8
    using that by (simp add: bit_eq_iff bit_simps)
  have "drop_bit 16 (config_address bus slot 0 0) AND 0xFF = ucast (bus OR drop_bit 5 slot)"
    "drop_bit 11 (config_address bus slot 0 0) AND 0x1F = ucast (slot AND 0x1F)"
    using config_address_fields [of bus slot 0 0] by simp_all
  moreover have "drop_bit 16 (config_address 0 1 0 0) AND 0xFF = ucast (0 :: u8)"
    "drop_bit 11 (config_address 0 1 0 0) AND 0x1F = ucast (1 :: u8)"
    by (simp_all add: config_address_def)
  ultimately have z: "bus OR drop_bit 5 slot = 0" and l: "slot AND 0x1F = 1" using inj a by metis+
  have "bus = 0" "drop_bit 5 slot = 0" using z by (simp_all add: or_eq_0_iff)
  moreover have "slot = push_bit 5 (drop_bit 5 slot) OR (slot AND 0x1F)"
  proof -
    have m: "(0x1F :: u8) = mask 5" by (simp add: mask_eq_exp_minus_1)
    show ?thesis unfolding bit_eq_iff bit_simps m by auto
  qed
  then have "slot = 1" using \<open>drop_bit 5 slot = 0\<close> l by simp
  ultimately show "bus = 0 \<and> slot = 1" by simp
next
  assume "bus = 0 \<and> slot = 1"
  then show "present one_device bus slot" by (simp add: present_def cfg16_def one_device_def)
qed

lemma slots_distinct: "distinct slots"
proof -
  have "inj_on (of_nat :: nat \<Rightarrow> u8) {0..<256}"
    by (rule inj_onI) (simp add: word_of_nat_eq_iff take_bit_nat_eq_self)
  then have "distinct (map (of_nat :: nat \<Rightarrow> u8) [0..<256])" by (simp add: distinct_map)
  then show ?thesis unfolding slots_def by (intro distinct_product)
qed

lemma one_device_slots: "filter (\<lambda>(bus, slot). present one_device bus slot) slots = [(0, 1)]"
proof -
  let ?f = "filter (\<lambda>(bus, slot). present one_device bus slot) slots"
  have s: "set ?f = {(0, 1)}" using all_slots by (auto simp: one_device_present)
  have "length ?f = card (set ?f)" using distinct_card [OF distinct_filter [OF slots_distinct]] by simp
  then have "length ?f = 1" unfolding s by simp
  then obtain x where "?f = [x]" by (cases ?f) auto
  with s show ?thesis by simp
qed

lemma one_device_list:
  "devices_on one_device ls stale slots = [device_at one_device ls (stale 0 1) 0 1]"
  "devices_text one_device ls stale slots = device_text 0 1 (device_at one_device ls (stale 0 1) 0 1)"
  by (simp_all add: devices_on_def devices_text_def one_device_slots)

lemma blank_console: "live_console (pci_hw cfg) fresh_machine"
  using pci_hw_ok(2) fresh_machine_ok(1) by (simp add: live_console_def)

lemma words_below_10: "(w :: u8) < 10 \<Longrightarrow> w \<in> set [0, 1, 2, 3, 4, 5, 6, 7, 8, 9]"
proof -
  assume "w < 10"
  then have "unat w \<in> set [0..<10]" by (simp add: word_less_nat_alt)
  then have "of_nat (unat w) \<in> (of_nat :: nat \<Rightarrow> u8) ` set [0..<10]" by (rule imageI)
  then show ?thesis by (auto simp: upt_rec)
qed

section \<open>Properties\<close>

text \<open>
  C12: what the enumeration makes of any configuration space and any table of names with readable lines
  (\<open>good_table\<close>: no line break or backspace in a line, no tab in an entry, no entry's name of 128
  characters or more; lines that are no entry may be longer, and the kernel's own six long lines are in
  the table of the witness), with an empty list and a console that takes bytes: the list of devices is the devices of the slots that answer, in the order of bus and slot, each with
  its numbers, its six base addresses, its class and the names by the table; their count is right; two
  lines about each go to COM1. With more than 256 of them it writes past the end of the list.
\<close>

lemma pci_enumerate_lists:
  assumes "answers hw cfg" and "good_table ls" and "\<And>bus slot. stale_ok (stale bus slot)"
    and "live_console hw k" and "length (pci_devices_list p) = PCI_MAX_DEVICES" and "pci_devices_count p = 0"
  shows "let ds = devices_on cfg ls stale slots
    in if length ds \<le> PCI_MAX_DEVICES
       then \<exists>k'. pci_enumerate_devices hw (file_of ls) stale (p, k) =
           ok (p\<lparr>pci_devices_list := ds @ drop (length ds) (pci_devices_list p), pci_devices_count := of_nat (length ds)\<rparr>, k') \<and>
         com1_sent (io_log k') = com1_sent (io_log k) @ devices_text cfg ls stale slots
       else pci_enumerate_devices hw (file_of ls) stale (p, k) = fail Write_oob"
proof -
  let ?ds = "devices_on cfg ls stale slots"
  have w: "with_devices ?ds p =
      p\<lparr>pci_devices_list := ?ds @ drop (length ?ds) (pci_devices_list p), pci_devices_count := of_nat (length ?ds)\<rparr>"
    by (simp add: with_devices_def assms(6))
  have "unat (pci_devices_count p) + length ?ds = length ?ds" "unat (pci_devices_count p) \<le> PCI_MAX_DEVICES"
    by (simp_all add: assms(6))
  note all = probe_slots [of hw cfg ls stale k p slots, OF assms(1-5) this(2), unfolded this(1) w]
  show ?thesis
    unfolding Let_def enumerate_slots using all by (fastforce simp: writes_def split: if_split_asm)
qed

lemma pci_enumerate_lists_witness:
  "\<exists>p' k'. pci_enumerate_devices (pci_hw one_device) (file_of (map bytes_of (pci_ids_head @ pci_ids_long))) (\<lambda>_ _. blank_device)
      (blank_pci, fresh_machine) = ok (p', k') \<and>
    pci_devices_count p' = 1 \<and> vendor_id (pci_devices_list p' ! 0) = 0x8086 \<and> device_id (pci_devices_list p' ! 0) = 0x1237"
proof -
  have stale: "stale_ok blank_device" by (simp add: stale_ok_def blank_device_def)
  have p: "length (pci_devices_list blank_pci) = PCI_MAX_DEVICES" "pci_devices_count blank_pci = 0"
    by (simp_all add: blank_pci_def)
  have id: "vendor_id (device_at one_device ls d 0 1) = 0x8086" "device_id (device_at one_device ls d 0 1) = 0x1237" for ls d
    by (simp_all add: device_at_def cfg16_def one_device_def config_address_def Let_def)
  note found = pci_enumerate_lists [where stale = "\<lambda>_ _. blank_device" and cfg = one_device, OF pci_hw_ok(1) long_table stale blank_console p]
  show ?thesis
    using found unfolding one_device_list Let_def by (fastforce simp: id)
qed

text \<open>
  C30: ten devices on bus 7 are enough to write past the list of 256: the slots asked for run to 255, a
  slot number above 31 spills into the bus number, and each of the ten answers to 27 of the addresses.
  The table of names is any whose lines are readable (\<open>good_table\<close>: no line break or backspace in a line,
  no tab and fewer than 128 characters in an entry's name); the console works and the count starts at 0.
\<close>

lemma pci_bus_overflow:
  assumes "answers hw cfg" and "good_table ls" and "\<And>bus slot. stale_ok (stale bus slot)"
    and "live_console hw k" and "length (pci_devices_list p) = PCI_MAX_DEVICES" and "pci_devices_count p = 0"
    and "\<forall>slot < 10. present cfg 7 slot"
  shows "pci_enumerate_devices hw (file_of ls) stale (p, k) = fail Write_oob"
  using probe_slots [of hw cfg ls stale k p slots] many_devices [OF assms(7), of ls stale] assms(1-6)
  by (simp add: enumerate_slots)

lemma pci_bus_overflow_witness:
  "pci_enumerate_devices (pci_hw (\<lambda>a. if drop_bit 16 a AND 0xFF = 7 \<and> drop_bit 11 a AND 0x1F < 10 then 0 else 0xFFFFFFFF))
     (file_of (map bytes_of (pci_ids_head @ pci_ids_long))) (\<lambda>_ _. blank_device) (blank_pci, fresh_machine) = fail Write_oob"
proof (rule pci_bus_overflow [OF pci_hw_ok(1)])
  show "good_table (map bytes_of (pci_ids_head @ pci_ids_long))" by (rule long_table)
  show "stale_ok blank_device" by (simp add: stale_ok_def blank_device_def)
  show "length (pci_devices_list blank_pci) = PCI_MAX_DEVICES" "pci_devices_count blank_pci = 0"
    by (simp_all add: blank_pci_def)
  let ?cfg = "\<lambda>a :: u32. if drop_bit 16 a AND 0xFF = 7 \<and> drop_bit 11 a AND 0x1F < 10 then 0 else (0xFFFFFFFF :: u32)"
  show "live_console (pci_hw ?cfg) fresh_machine" by (rule blank_console)
  show "\<forall>slot < 10. present ?cfg 7 slot"
  proof (intro allI impI)
    fix slot :: u8 assume "slot < 10"
    then have "slot \<in> set [0, 1, 2, 3, 4, 5, 6, 7, 8, 9]"
      by (rule words_below_10)
    then show "present ?cfg 7 slot" by (auto simp: present_def cfg16_def config_address_def)
  qed
qed

end
