(* ===== verification/Shell_Listings.thy ===== *)
theory Shell_Listings
  imports Shell_Replies Pci_Bus
begin

text \<open>
  The two commands of the shell that list the kernel's tables: \<open>lspci\<close> and \<open>lsproc\<close>, each a system call
  that copies at most seven entries to the process and a loop that prints them. They are followed on two
  consoles: one whose screen is in step with the terminal, and one of which only the port is known, as
  the boot leaves it. What the two have in common is the locale \<open>printing\<close>.
\<close>

section \<open>Printing that needs strings in memory\<close>

text \<open>
  The contract of a console that processes print on: \<open>free\<close> says that it takes a message, \<open>rel\<close> what a
  text does to the kernel. A print with its strings in place returns, and a system call that answers in
  memory of the process is an empty text. \<open>responds\<close> is then a piece of a process that prints a text
  whenever the strings it needs (a predicate on memory) are in place.
\<close>

definition off_screen_fact :: "(mem \<Rightarrow> bool) \<Rightarrow> bool" where
  "off_screen_fact Q \<longleftrightarrow> (\<forall>m m'. Q m \<longrightarrow> (\<forall>a. off_screen a \<longrightarrow> m' Phys a = m Phys a) \<longrightarrow> Q m')"

definition responds :: "(kernel \<Rightarrow> bool) \<Rightarrow> (u8 list \<Rightarrow> kernel \<Rightarrow> kernel \<Rightarrow> bool) \<Rightarrow> (mem \<Rightarrow> bool) \<Rightarrow>
    (kernel \<Rightarrow> kernel res) \<Rightarrow> u8 list \<Rightarrow> bool" where
  "responds free rel Q f t \<longleftrightarrow> (\<forall>k. free k \<longrightarrow> Q (mem (k_machine k)) \<longrightarrow>
     (\<exists>k'. f k = ok k' \<and> rel t k k' \<and> user_devs k' = user_devs k \<and> user_procs k' = user_procs k))"

locale printing =
  fixes hw :: hw and free :: "kernel \<Rightarrow> bool" and rel :: "u8 list \<Rightarrow> kernel \<Rightarrow> kernel \<Rightarrow> bool"
  assumes rel_refl: "free k \<Longrightarrow> rel [] k k"
    and rel_trans: "rel t a b \<Longrightarrow> rel u b c \<Longrightarrow> rel (t @ u) a c"
    and rel_free: "free k \<Longrightarrow> rel t k k' \<Longrightarrow> free k'"
    and rel_memory: "rel t k k' \<Longrightarrow> off_screen x \<Longrightarrow> mem (k_machine k') Phys x = mem (k_machine k) Phys x"
    and rel_print: "free k \<Longrightarrow> 0 \<notin> set (bytes_of fmt) \<Longrightarrow> length fmt < 4294967295 \<Longrightarrow>
      strings_at rd args (mem (k_machine k)) \<Longrightarrow> fmt_text rd (bytes_of fmt) args = Some (t, True) \<Longrightarrow> 8 \<notin> set t \<Longrightarrow>
      \<exists>m. print hw fmt args k = ok (k\<lparr>k_machine := m\<rparr>) \<and> rel t k (k\<lparr>k_machine := m\<rparr>)"
    and rel_call: "free k \<Longrightarrow> k_sched k' = k_sched k \<Longrightarrow> k_ps2 k' = k_ps2 k \<Longrightarrow> k_pci k' = k_pci k \<Longrightarrow>
      k_machine k' = (k_machine k)\<lparr>io_log := l\<rparr> \<Longrightarrow> com1_sent l = com1_sent (io_log (k_machine k)) \<Longrightarrow> rel [] k k'"
begin

lemma rel_fact: "rel t k k' \<Longrightarrow> off_screen_fact Q \<Longrightarrow> Q (mem (k_machine k)) \<Longrightarrow> Q (mem (k_machine k'))"
  using rel_memory unfolding off_screen_fact_def by blast

lemma respondsD:
  assumes "responds free rel Q f t" and "free k" and "Q (mem (k_machine k))" and "off_screen_fact Q"
  obtains k' where "f k = ok k'" and "rel t k k'" and "user_devs k' = user_devs k" and "user_procs k' = user_procs k"
    and "free k'" and "Q (mem (k_machine k'))"
proof -
  obtain k' where k': "f k = ok k'" "rel t k k'" "user_devs k' = user_devs k" "user_procs k' = user_procs k"
    using assms(1-3) unfolding responds_def by blast
  moreover have "free k'" using rel_free [OF assms(2) k'(2)] .
  moreover have "Q (mem (k_machine k'))" using rel_fact [OF k'(2) assms(4,3)] .
  ultimately show ?thesis by (rule that)
qed

lemma responds_bind:
  assumes "responds free rel Q f t" and "responds free rel Q g u" and "off_screen_fact Q"
  shows "responds free rel Q (\<lambda>k. bind_res (f k) g) (t @ u)"
  unfolding responds_def
proof (intro allI impI)
  fix k assume k: "free k" "Q (mem (k_machine k))"
  obtain a where a: "f k = ok a" "rel t k a" "user_devs a = user_devs k" "user_procs a = user_procs k"
    "free a" "Q (mem (k_machine a))"
    using assms(1) k assms(3) by (rule respondsD)
  obtain b where "g a = ok b" "rel u a b" "user_devs b = user_devs a" "user_procs b = user_procs a"
    using assms(2) a(5,6) assms(3) by (rule respondsD)
  with a show "\<exists>k'. bind_res (f k) g = ok k' \<and> rel (t @ u) k k' \<and>
      user_devs k' = user_devs k \<and> user_procs k' = user_procs k"
    by (auto intro: rel_trans)
qed

lemma responds_print:
  assumes "0 \<notin> set (bytes_of fmt)" and "length fmt < 4294967295"
    and "\<And>m. Q m \<Longrightarrow> strings_at rd args m" and "fmt_text rd (bytes_of fmt) args = Some (t, True)" and "8 \<notin> set t"
  shows "responds free rel Q (print hw fmt args) t"
  unfolding responds_def
proof (intro allI impI)
  fix k assume k: "free k" "Q (mem (k_machine k))"
  then obtain m where "print hw fmt args k = ok (k\<lparr>k_machine := m\<rparr>)" "rel t k (k\<lparr>k_machine := m\<rparr>)"
    using rel_print [of k fmt rd args t] assms by auto
  then show "\<exists>k'. print hw fmt args k = ok k' \<and> rel t k k' \<and> user_devs k' = user_devs k \<and> user_procs k' = user_procs k"
    by simp
qed

lemma responds_loop:
  assumes "\<And>j. j < n \<Longrightarrow> responds free rel Q (g j) (t j)" and "off_screen_fact Q"
    and "\<And>j k'. j < n \<Longrightarrow> user_devs k' = user_devs k \<Longrightarrow> user_procs k' = user_procs k \<Longrightarrow> body j k' = g j k'"
    and "free k" and "Q (mem (k_machine k))"
  shows "\<exists>k'. for_range 0 n body k = ok k' \<and> rel (concat (map t [0..<n])) k k'"
proof -
  let ?P = "\<lambda>j k'. rel (concat (map t [0..<j])) k k' \<and> user_devs k' = user_devs k \<and> user_procs k' = user_procs k \<and>
    Q (mem (k_machine k')) \<and> free k'"
  have "\<exists>k'. for_range 0 n body k = ok k' \<and> ?P n k'"
  proof (rule for_range_inv)
    show "?P 0 k" using assms(4,5) rel_refl by simp
    fix j a assume j: "j < n" and a: "?P j a"
    then have c: "free a" "Q (mem (k_machine a))" by simp_all
    obtain b where b: "g j a = ok b" "rel (t j) a b" "user_devs b = user_devs a" "user_procs b = user_procs a"
      "free b" "Q (mem (k_machine b))"
      using assms(1) [OF j] c assms(2) by (rule respondsD)
    have "rel (concat (map t [0..<j]) @ t j) k b" using a b(2) rel_trans by blast
    then show "\<exists>b. body j a = ok b \<and> ?P (Suc j) b" using assms(3) [OF j] a b by auto
  qed simp
  then show ?thesis by blast
qed

end

text \<open>The console with its screen, and the console of which only the port is followed.\<close>

definition live_free :: "hw \<Rightarrow> kernel \<Rightarrow> bool" where
  "live_free hw k \<longleftrightarrow> live_console hw (k_machine k) \<and> \<not> bit (lock (k_machine k)) 0"

definition sends :: "hw \<Rightarrow> u8 list \<Rightarrow> kernel \<Rightarrow> kernel \<Rightarrow> bool" where
  "sends hw t k k' \<longleftrightarrow> k_sched k' = k_sched k \<and> k_ps2 k' = k_ps2 k \<and> k_pci k' = k_pci k \<and>
     writes hw t (k_machine k) (k_machine k')"

interpretation shown: printing hw "console_free hw" "replies hw" for hw
proof
  fix k fmt rd args t
  assume "console_free hw k" "0 \<notin> set (bytes_of fmt)" "length fmt < 4294967295"
    "strings_at rd args (mem (k_machine k))" "fmt_text rd (bytes_of fmt) args = Some (t, True)" "8 \<notin> set t"
  then show "\<exists>m. print hw fmt args k = ok (k\<lparr>k_machine := m\<rparr>) \<and> replies hw t k (k\<lparr>k_machine := m\<rparr>)"
    using print_says [of hw k fmt rd args t] by (auto simp: console_free_def replies_def)
qed (auto simp: replies_refl intro: replies_trans replies_free,
  auto simp: replies_def says_def console_free_def console_inv_def screen_only_def)

interpretation sent: printing hw "live_free hw" "sends hw" for hw
proof
  fix k fmt rd args t
  assume "live_free hw k" "0 \<notin> set (bytes_of fmt)" "length fmt < 4294967295"
    "strings_at rd args (mem (k_machine k))" "fmt_text rd (bytes_of fmt) args = Some (t, True)" "8 \<notin> set t"
  then show "\<exists>m. print hw fmt args k = ok (k\<lparr>k_machine := m\<rparr>) \<and> sends hw t k (k\<lparr>k_machine := m\<rparr>)"
    using printf_live [of hw "k_machine k" fmt rd args t] by (auto simp: live_free_def sends_def print_def)
next
  fix t a b u c assume "sends hw t a b" "sends hw u b c"
  then show "sends hw (t @ u) a c" by (auto simp: sends_def intro: writes_trans)
qed (auto simp: sends_def writes_def live_free_def screen_only_def)

section \<open>lspci\<close>

definition listed_ok :: "pci \<Rightarrow> bool" where
  "listed_ok p \<longleftrightarrow> unat (pci_devices_count p) \<le> length (pci_devices_list p) \<and>
     (\<forall>i < unat (pci_devices_count p). plain_name (vendor_name (pci_devices_list p ! i)) \<and>
        plain_name (device_name (pci_devices_list p ! i)) \<and> length (bar (pci_devices_list p ! i)) = 6)"

definition device_reply :: "pci_device \<Rightarrow> u8 list" where
  "device_reply d =
     (c_string (vendor_name d) @ [32] @ c_string (device_name d) @ [32, 40] @ uint_text (unat (class_code d)) @ [32] @
      uint_text (unat (subclass_code d)) @ [41, 10]) @
     (bytes_of ''Device ID: '' @ hex_text (ucast (device_id d)) @ [10]) @
     (bytes_of ''Vendor ID: '' @ hex_text (ucast (vendor_id d)) @ [10]) @
     (bytes_of ''Bar 5    : '' @ hex_text (bar d ! 5) @ [32] @ uint_text (unat (bar d ! 5)) @ [10, 10])"

definition lspci_text :: "pci \<Rightarrow> u8 list" where
  "lspci_text p = concat (map (\<lambda>j. device_reply (pci_devices_list p ! j)) [0..<min 7 (unat (pci_devices_count p))])"

lemma device_address_inj:
  fixes i j :: nat and base :: u32
  assumes "i < 7" and "j < 7" and "base + device_size * of_nat i = base + device_size * of_nat j"
  shows "i = j"
proof -
  have "unat (device_size * of_nat k) = 288 * k" if "k < 7" for k
    using that by (simp add: unat_word_ariths)
  then show ?thesis using assms by (metis add_left_cancel mult_cancel1 zero_neq_numeral)
qed

lemma syscall_lspci_seven:
  assumes "unat (pci_devices_count p) \<le> length (pci_devices_list p)" and "r_ecx r = 7"
  shows "\<exists>devs'. syscall_lspci r p devs = ok (r\<lparr>r_eax := of_nat (min 7 (unat (pci_devices_count p)))\<rparr>, devs') \<and>
    (\<forall>j < min 7 (unat (pci_devices_count p)). devs' (r_ebx r + device_size * of_nat j) = pci_devices_list p ! j)"
proof -
  let ?n = "min 7 (unat (pci_devices_count p))"
  let ?P = "\<lambda>i devs'. \<forall>j < i. devs' (r_ebx r + device_size * of_nat j) = pci_devices_list p ! j"
  have len: "(if r_ecx r < pci_devices_count p then r_ecx r else pci_devices_count p) = of_nat ?n"
    using assms(2) by (auto simp: word_less_nat_alt min_def)
  have n: "unat (of_nat ?n :: u32) = ?n" by (simp add: min_def)
  have "\<exists>devs'. for_range 0 ?n (\<lambda>i devs.
           if i < length (pci_devices_list p)
           then ok (devs(r_ebx r + device_size * of_nat i := pci_devices_list p ! i))
           else fail Read_oob) devs = ok devs' \<and> ?P ?n devs'"
  proof (rule for_range_inv)
    fix i f assume i: "i < ?n" and f: "?P i f"
    have "r_ebx r + device_size * of_nat j \<noteq> r_ebx r + device_size * of_nat i" if "j < i" for j
      using device_address_inj [of j i "r_ebx r"] that i by auto
    then have "?P (Suc i) (f(r_ebx r + device_size * of_nat i := pci_devices_list p ! i))"
      using f by (auto simp: less_Suc_eq)
    then show "\<exists>f'. (if i < length (pci_devices_list p)
           then ok (f(r_ebx r + device_size * of_nat i := pci_devices_list p ! i)) else fail Read_oob) = ok f' \<and> ?P (Suc i) f'"
      using i assms(1) by simp
  qed simp_all
  then show ?thesis unfolding syscall_lspci_def Let_def len n by auto
qed

lemma sint_small: "n \<le> 7 \<Longrightarrow> nat (sint (of_nat n :: u32)) = n"
proof -
  assume "n \<le> 7"
  then have "n \<in> set [0, 1, 2, 3, 4, 5, 6, 7]" by auto
  then show ?thesis by auto
qed

definition print_device :: "hw \<Rightarrow> pci_device \<Rightarrow> kernel \<Rightarrow> kernel res" where
  "print_device hw d k =
       bind_res (print hw ''%s %s (%d %d)\<newline>''
         [Va_ptr (Const (vendor_name d), 0), Va_ptr (Const (device_name d), 0),
          Va_int (ucast (class_code d)), Va_int (ucast (subclass_code d))] k) (\<lambda>k.
       bind_res (print hw ''Device ID: %x\<newline>'' [Va_int (ucast (device_id d))] k) (\<lambda>k.
       bind_res (print hw ''Vendor ID: %x\<newline>'' [Va_int (ucast (vendor_id d))] k)
       (print hw ''Bar 5    : %x %u\<newline>\<newline>'' [Va_int (bar d ! 5), Va_int (bar d ! 5)])))"

context printing
begin

lemma lspci_call:
  assumes "free k" and "unat (pci_devices_count (k_pci k)) \<le> length (pci_devices_list (k_pci k))"
  shows "\<exists>k'. lspci hw r devlist 7 k = ok (of_nat (min 7 (unat (pci_devices_count (k_pci k)))), k') \<and> rel [] k k' \<and>
    (\<forall>j < min 7 (unat (pci_devices_count (k_pci k))). user_devs k' (devlist + device_size * of_nat j) = pci_devices_list (k_pci k) ! j)"
proof -
  have n: "map_of syscall_numbers 3 = Some SYSCALL_lspci" by (simp add: syscall_numbers_def)
  obtain devs where "syscall_lspci (r\<lparr>r_ebx := devlist, r_ecx := 7, r_eax := 3, r_int_no := 128\<rparr>) (k_pci k) (user_devs k) =
      ok (r\<lparr>r_ebx := devlist, r_ecx := 7, r_int_no := 128, r_eax := of_nat (min 7 (unat (pci_devices_count (k_pci k))))\<rparr>, devs)"
    "\<forall>j < min 7 (unat (pci_devices_count (k_pci k))). devs (devlist + device_size * of_nat j) = pci_devices_list (k_pci k) ! j"
    using syscall_lspci_seven [OF assms(2), of "r\<lparr>r_ebx := devlist, r_ecx := 7, r_eax := 3, r_int_no := 128\<rparr>" "user_devs k"] by auto
  moreover have "rel [] k (k\<lparr>user_devs := d, k_machine := (k_machine k)\<lparr>io_log := Outb 0x20 0x20 # io_log (k_machine k)\<rparr>\<rparr>)" for d
    by (rule rel_call [where l = "Outb 0x20 0x20 # io_log (k_machine k)", OF assms(1)]) simp_all
  ultimately show ?thesis
    by (simp add: lspci_def invoke_syscall_def irq_handler_def syscall_def n send_eoi_def outb_def)
qed

lemma print_device_responds:
  assumes "plain_name (vendor_name d)" and "plain_name (device_name d)"
  shows "responds free rel (\<lambda>_. True) (print_device hw d) (device_reply d)"
proof -
  let ?Q = "\<lambda>_ :: mem. True"
  have t: "off_screen_fact ?Q" by (simp add: off_screen_fact_def)
  have names: "strings_at const_strings [Va_ptr (Const (vendor_name d), 0), Va_ptr (Const (device_name d), 0),
      Va_int (ucast (class_code d)), Va_int (ucast (subclass_code d))] m" for m
    using assms by (auto simp: strings_at_def const_strings_def plain_name_def intro!: c_string_cstring)
  have 1: "responds free rel ?Q (print hw ''%s %s (%d %d)\<newline>''
      [Va_ptr (Const (vendor_name d), 0), Va_ptr (Const (device_name d), 0),
       Va_int (ucast (class_code d)), Va_int (ucast (subclass_code d))])
      (c_string (vendor_name d) @ [32] @ c_string (device_name d) @ [32, 40] @ uint_text (unat (class_code d)) @ [32] @
       uint_text (unat (subclass_code d)) @ [41, 10])"
    by (rule responds_print [OF _ _ names])
      (use assms in \<open>simp_all add: numbers_printable plain_name_def\<close>,
        simp_all add: bytes_of_def conv_text_def int_text_byte const_strings_def)
  have 2: "responds free rel ?Q (print hw ''Device ID: %x\<newline>'' [Va_int (ucast (device_id d))])
      (bytes_of ''Device ID: '' @ hex_text (ucast (device_id d)) @ [10])"
    by (rule responds_print [where rd = "\<lambda>_. []"])
      (simp_all add: numbers_printable strings_at_def, simp_all add: bytes_of_def conv_text_def)
  have 3: "responds free rel ?Q (print hw ''Vendor ID: %x\<newline>'' [Va_int (ucast (vendor_id d))])
      (bytes_of ''Vendor ID: '' @ hex_text (ucast (vendor_id d)) @ [10])"
    by (rule responds_print [where rd = "\<lambda>_. []"])
      (simp_all add: numbers_printable strings_at_def, simp_all add: bytes_of_def conv_text_def)
  have 4: "responds free rel ?Q (print hw ''Bar 5    : %x %u\<newline>\<newline>'' [Va_int (bar d ! 5), Va_int (bar d ! 5)])
      (bytes_of ''Bar 5    : '' @ hex_text (bar d ! 5) @ [32] @ uint_text (unat (bar d ! 5)) @ [10, 10])"
    by (rule responds_print [where rd = "\<lambda>_. []"])
      (simp_all add: numbers_printable strings_at_def, simp_all add: bytes_of_def conv_text_def)
  show ?thesis
    using responds_bind [OF 1 responds_bind [OF 2 responds_bind [OF 3 4 t] t] t]
    by (simp only: print_device_def [abs_def] device_reply_def)
qed

lemma lspci_prints:
  assumes "free k" and "listed_ok (k_pci k)"
  shows "\<exists>k'. sh_lspci hw env k = ok k' \<and> rel (lspci_text (k_pci k)) k k'"
proof -
  let ?p = "k_pci k"
  let ?n = "min 7 (unat (pci_devices_count ?p))"
  let ?body = "\<lambda>j k. let d = user_devs k (env_devlist env + device_size * of_nat j) in
       bind_res (print hw ''%s %s (%d %d)\<newline>''
         [Va_ptr (Const (vendor_name d), 0), Va_ptr (Const (device_name d), 0),
          Va_int (ucast (class_code d)), Va_int (ucast (subclass_code d))] k) (\<lambda>k.
       bind_res (print hw ''Device ID: %x\<newline>'' [Va_int (ucast (device_id d))] k) (\<lambda>k.
       bind_res (print hw ''Vendor ID: %x\<newline>'' [Va_int (ucast (vendor_id d))] k) (\<lambda>k.
       if 5 < length (bar d)
       then print hw ''Bar 5    : %x %u\<newline>\<newline>'' [Va_int (bar d ! 5), Va_int (bar d ! 5)] k
       else fail Read_oob)))"
  obtain a where a: "lspci hw (env_regs env) (env_devlist env) 7 k = ok (of_nat ?n, a)" "rel [] k a"
    "\<forall>j < ?n. user_devs a (env_devlist env + device_size * of_nat j) = pci_devices_list ?p ! j"
    using lspci_call [OF assms(1)] assms(2) unfolding listed_ok_def by blast
  have "\<exists>k'. for_range 0 ?n ?body a = ok k' \<and> rel (concat (map (\<lambda>j. device_reply (pci_devices_list ?p ! j)) [0..<?n])) a k'"
  proof (rule responds_loop)
    fix j assume j: "j < ?n"
    show "responds free rel (\<lambda>_. True) (print_device hw (pci_devices_list ?p ! j)) (device_reply (pci_devices_list ?p ! j))"
      using assms(2) j by (intro print_device_responds) (simp_all add: listed_ok_def)
    fix k' :: kernel assume "user_devs k' = user_devs a" "user_procs k' = user_procs a"
    then have d: "user_devs k' (env_devlist env + device_size * of_nat j) = pci_devices_list ?p ! j" using a(3) j by simp
    have "length (bar (pci_devices_list ?p ! j)) = 6" using assms(2) j by (simp add: listed_ok_def)
    then show "?body j k' = print_device hw (pci_devices_list ?p ! j) k'"
      by (simp add: d Let_def print_device_def cong: bind_res_cong)
  qed (use rel_free [OF assms(1) a(2)] in \<open>simp_all add: off_screen_fact_def\<close>)
  then obtain b where b: "for_range 0 ?n ?body a = ok b" "rel (lspci_text ?p) a b"
    unfolding lspci_text_def by blast
  have n: "nat (sint (of_nat ?n :: u32)) = ?n" by (rule sint_small) simp
  have "sh_lspci hw env k = ok b" using b(1) unfolding sh_lspci_def by (simp add: a(1) n)
  then show ?thesis using rel_trans [OF a(2) b(2)] by auto
qed

end

section \<open>lsproc\<close>

text \<open>The first seven live entries, and their names standing outside the screen.\<close>

definition listed_tasks :: "sched \<Rightarrow> task_struct list" where
  "listed_tasks s = take 7 (live_tasks (process_table s))"

definition name_stands :: "(u32 \<Rightarrow> u8 list) \<Rightarrow> mem \<Rightarrow> u32 \<Rightarrow> bool" where
  "name_stands nm m a \<longleftrightarrow> cstring m (Phys, a) (nm a) \<and> (\<forall>i \<le> length (nm a). off_screen (a + of_nat i))"

definition names_stand :: "(u32 \<Rightarrow> u8 list) \<Rightarrow> sched \<Rightarrow> mem \<Rightarrow> bool" where
  "names_stand nm s m \<longleftrightarrow> (\<forall>t \<in> set (listed_tasks s). name_stands nm m (ts_process_name t))"

lemma names_stand_fact: "off_screen_fact (names_stand nm s)"
  unfolding off_screen_fact_def
proof (intro allI impI)
  fix m m' assume n: "names_stand nm s m" and same: "\<forall>a. off_screen a \<longrightarrow> m' Phys a = m Phys a"
  show "names_stand nm s m'"
    unfolding names_stand_def
  proof
    fix t assume "t \<in> set (listed_tasks s)"
    then have a: "name_stands nm m (ts_process_name t)" using n by (simp add: names_stand_def)
    then show "name_stands nm m' (ts_process_name t)"
      using same by (simp add: name_stands_def cstring_def)
  qed
qed

definition state_letter :: "task_state_t \<Rightarrow> string" where
  "state_letter x = (case x of TASKSTATE_ready \<Rightarrow> ''R'' | TASKSTATE_blocked \<Rightarrow> ''B'' | _ \<Rightarrow> ''?'')"

definition task_reply :: "(u32 \<Rightarrow> u8 list) \<Rightarrow> task_struct \<Rightarrow> u8 list" where
  "task_reply nm t =
     bytes_of (state_letter (ts_state t)) @
     ([32] @ int_text (sint (ts_pid t)) @ [58, 32] @ nm (ts_process_name t)) @ [10]"

definition lsproc_text :: "(u32 \<Rightarrow> u8 list) \<Rightarrow> sched \<Rightarrow> u8 list" where
  "lsproc_text nm s = concat (map (\<lambda>j. task_reply nm (listed_tasks s ! j)) [0..<length (listed_tasks s)])"

definition print_task :: "hw \<Rightarrow> task_struct \<Rightarrow> kernel \<Rightarrow> kernel res" where
  "print_task hw t k =
     bind_res (print hw (state_letter (ts_state t)) [] k) (\<lambda>k.
     bind_res (print hw '' %d: %s'' [Va_int (ts_pid t), Va_ptr (Phys, ts_process_name t)] k) (print hw ''\<newline>'' []))"

context printing
begin

lemma print_task_responds:
  assumes "t \<in> set (listed_tasks s)" and "8 \<notin> set (nm (ts_process_name t))"
  shows "responds free rel (names_stand nm s) (print_task hw t) (task_reply nm t)"
proof -
  let ?Q = "names_stand nm s"
  have letter: "state_letter (ts_state t) \<in> {''R'', ''B'', ''?''}" by (simp add: state_letter_def split: task_state_t.split)
  have 1: "responds free rel ?Q (print hw (state_letter (ts_state t)) []) (bytes_of (state_letter (ts_state t)))"
    by (rule responds_print [where rd = "\<lambda>_. []"])
      (use letter in \<open>auto simp: strings_at_def bytes_of_def\<close>)
  have names: "strings_at (\<lambda>p. nm (snd p)) [Va_int (ts_pid t), Va_ptr (Phys, ts_process_name t)] m" if "?Q m" for m
    using that assms(1) by (simp add: names_stand_def name_stands_def strings_at_def)
  have 2: "responds free rel ?Q (print hw '' %d: %s'' [Va_int (ts_pid t), Va_ptr (Phys, ts_process_name t)])
      ([32] @ int_text (sint (ts_pid t)) @ [58, 32] @ nm (ts_process_name t))"
    by (rule responds_print [OF _ _ names])
      (use assms(2) in \<open>simp_all add: numbers_printable\<close>, simp_all add: bytes_of_def conv_text_def)
  have 3: "responds free rel ?Q (print hw ''\<newline>'' []) [10]"
    by (rule responds_print [where rd = "\<lambda>_. []"]) (simp_all add: strings_at_def bytes_of_def)
  show ?thesis
    using responds_bind [OF 1 responds_bind [OF 2 3 names_stand_fact] names_stand_fact]
    by (simp only: print_task_def [abs_def] task_reply_def)
qed

lemma lsproc_call:
  assumes "free k" and "table_ok (k_sched k)"
  shows "\<exists>k'. lsproc hw r proclist 7 k = ok (of_nat (length (listed_tasks (k_sched k))), k') \<and> rel [] k k' \<and>
    (\<forall>j < length (listed_tasks (k_sched k)). user_procs k' (proclist + task_size * of_nat j) = listed_tasks (k_sched k) ! j)"
proof -
  let ?ts = "listed_tasks (k_sched k)"
  have n: "map_of syscall_numbers 4 = Some SYSCALL_lsproc" by (simp add: syscall_numbers_def)
  have "syscall_lsproc (r\<lparr>r_ebx := proclist, r_ecx := 7, r_eax := 4, r_int_no := 128\<rparr>) (k_sched k) (user_procs k) =
      ok (r\<lparr>r_ebx := proclist, r_ecx := 7, r_int_no := 128, r_eax := of_nat (length ?ts)\<rparr>, put_procs proclist 0 ?ts (user_procs k))"
    using assms(2) by (simp add: syscall_lsproc_eq Let_def listed_tasks_def)
  moreover have "put_procs proclist 0 ?ts (user_procs k) (proclist + task_size * of_nat j) = ?ts ! j" if "j < length ?ts" for j
    using put_procs_nth [of 0 ?ts j proclist "user_procs k"] that by (simp add: listed_tasks_def)
  moreover have "rel [] k (k\<lparr>user_procs := d, k_machine := (k_machine k)\<lparr>io_log := Outb 0x20 0x20 # io_log (k_machine k)\<rparr>\<rparr>)" for d
    by (rule rel_call [where l = "Outb 0x20 0x20 # io_log (k_machine k)", OF assms(1)]) simp_all
  ultimately show ?thesis
    by (simp add: lsproc_def invoke_syscall_def irq_handler_def syscall_def n send_eoi_def outb_def)
qed

lemma lsproc_prints:
  assumes "free k" and "table_ok (k_sched k)" and "names_stand nm (k_sched k) (mem (k_machine k))"
    and "\<forall>t \<in> set (listed_tasks (k_sched k)). 8 \<notin> set (nm (ts_process_name t))"
  shows "\<exists>k'. sh_lsproc hw env k = ok k' \<and> rel (lsproc_text nm (k_sched k)) k k'"
proof -
  let ?ts = "listed_tasks (k_sched k)"
  let ?body = "\<lambda>j k. let t = user_procs k (env_proclist env + task_size * of_nat j) in
       bind_res (print hw
         (case ts_state t of TASKSTATE_ready \<Rightarrow> ''R'' | TASKSTATE_blocked \<Rightarrow> ''B'' | _ \<Rightarrow> ''?'') [] k) (\<lambda>k.
       bind_res (print hw '' %d: %s'' [Va_int (ts_pid t), Va_ptr (Phys, ts_process_name t)] k)
         (print hw ''\<newline>'' []))"
  obtain a where a: "lsproc hw (env_regs env) (env_proclist env) 7 k = ok (of_nat (length ?ts), a)" "rel [] k a"
    "\<forall>j < length ?ts. user_procs a (env_proclist env + task_size * of_nat j) = ?ts ! j"
    using lsproc_call [OF assms(1,2)] by blast
  have "\<exists>k'. for_range 0 (length ?ts) ?body a = ok k' \<and> rel (concat (map (\<lambda>j. task_reply nm (?ts ! j)) [0..<length ?ts])) a k'"
  proof (rule responds_loop [where Q = "names_stand nm (k_sched k)"])
    fix j assume j: "j < length ?ts"
    show "responds free rel (names_stand nm (k_sched k)) (print_task hw (?ts ! j)) (task_reply nm (?ts ! j))"
      using assms(4) j by (intro print_task_responds) simp_all
    fix k' :: kernel assume "user_devs k' = user_devs a" "user_procs k' = user_procs a"
    then have t: "user_procs k' (env_proclist env + task_size * of_nat j) = ?ts ! j" using a(3) j by simp
    show "?body j k' = print_task hw (?ts ! j) k'" by (simp add: t Let_def print_task_def state_letter_def)
  next
    show "names_stand nm (k_sched k) (mem (k_machine a))"
      using rel_fact [OF a(2) names_stand_fact assms(3)] .
  qed (use rel_free [OF assms(1) a(2)] names_stand_fact in simp_all)
  then obtain b where b: "for_range 0 (length ?ts) ?body a = ok b" "rel (lsproc_text nm (k_sched k)) a b"
    unfolding lsproc_text_def by blast
  have n: "nat (sint (of_nat (length ?ts) :: u32)) = length ?ts" by (rule sint_small) (simp add: listed_tasks_def)
  have "sh_lsproc hw env k = ok b" using b(1) unfolding sh_lsproc_def by (simp add: a(1) n)
  then show ?thesis using rel_trans [OF a(2) b(2)] by auto
qed

end

text \<open>
  The listing shows number, state and name of a process, which no timer interrupt changes: it is the same
  whichever process runs.
\<close>

definition task_view :: "task_struct \<Rightarrow> u32 \<times> task_state_t \<times> u32" where
  "task_view t = (ts_pid t, ts_state t, ts_process_name t)"

definition same_listing :: "sched \<Rightarrow> sched \<Rightarrow> bool" where
  "same_listing s s' \<longleftrightarrow> map task_view (process_table s') = map task_view (process_table s)"

lemma same_listing_ok: "same_listing s s' \<Longrightarrow> table_ok s' = table_ok s"
  unfolding same_listing_def table_ok_def by (metis length_map)

lemma schedule_listing:
  assumes "table_ok s" and "schedule r s = ok (r', s')"
  shows "same_listing s s'"
proof -
  obtain q where s': "s' = (saved r s)\<lparr>current_pid := of_nat q\<rparr>" using assms by (rule schedule_cases)
  have "map task_view (process_table (saved r s)) = map task_view (process_table s)"
    using assms(1) by (intro nth_equalityI) (simp_all add: saved_nth table_ok_def task_view_def)
  then show ?thesis by (simp add: s' same_listing_def)
qed

lemma ticks_listing:
  "table_ok s \<Longrightarrow> ticks rs (r, s) = ok (r', s') \<Longrightarrow> same_listing s s'"
proof (induction rs arbitrary: r s)
  case (Cons a rs)
  then obtain r1 s1 where s1: "schedule a s = ok (r1, s1)" "ticks rs (r1, s1) = ok (r', s')"
    by (auto simp: bind_res_eq_ok)
  have "same_listing s1 s'" using Cons.IH [OF _ s1(2)] schedule_keeps(1) [OF Cons.prems(1) s1(1)] by simp
  then show ?case using schedule_listing [OF Cons.prems(1) s1(1)] by (simp add: same_listing_def)
qed (simp add: same_listing_def)

lemma listed_views:
  assumes "same_listing s s'"
  shows "map task_view (listed_tasks s') = map task_view (listed_tasks s)"
proof -
  have live: "map task_view (live_tasks ts) = filter (\<lambda>v. fst (snd v) \<noteq> TASKSTATE_unused) (map task_view ts)" for ts
    by (simp add: live_tasks_def filter_map comp_def task_view_def)
  show ?thesis using assms by (simp add: listed_tasks_def live same_listing_def flip: take_map)
qed

lemma listing_text:
  assumes "same_listing s s'"
  shows "lsproc_text nm s' = lsproc_text nm s"
proof -
  let ?f = "\<lambda>v. bytes_of (state_letter (fst (snd v))) @
     ([32] @ int_text (sint (fst v)) @ [58, 32] @ nm (snd (snd v))) @ [10]"
  have "lsproc_text nm s = concat (map ?f (map task_view (listed_tasks s)))" for s
  proof -
    have "map (\<lambda>j. task_reply nm (listed_tasks s ! j)) [0..<length (listed_tasks s)] = map (task_reply nm) (listed_tasks s)"
      by (intro nth_equalityI) simp_all
    moreover have "task_reply nm = ?f \<circ> task_view" by (simp add: fun_eq_iff task_reply_def task_view_def)
    ultimately show ?thesis by (simp add: lsproc_text_def)
  qed
  then show ?thesis by (simp only: listed_views [OF assms])
qed

lemma listing_names:
  assumes "same_listing s s'"
  shows "(\<forall>t \<in> set (listed_tasks s'). P (ts_process_name t)) \<longleftrightarrow> (\<forall>t \<in> set (listed_tasks s). P (ts_process_name t))"
proof -
  have "(\<forall>t \<in> set (listed_tasks s). P (ts_process_name t)) \<longleftrightarrow>
      list_all (\<lambda>v. P (snd (snd v))) (map task_view (listed_tasks s))" for s
    by (simp add: list_all_iff task_view_def)
  then show ?thesis by (simp only: listed_views [OF assms])
qed

lemma listing_stands: "same_listing s s' \<Longrightarrow> names_stand nm s' m = names_stand nm s m"
  unfolding names_stand_def by (rule listing_names)

lemmas sh_lspci_replies = shown.lspci_prints
  and sh_lsproc_replies = shown.lsproc_prints

end
