(* ===== verification/Shell_Session.thy ===== *)
theory Shell_Session
  imports Shell_Listings
begin

text \<open>
  What the shell promises to the person who types: the line holds what was typed, every key is echoed,
  Enter runs the command and prints the prompt again. The lemmas about one print (\<open>Shell_Replies\<close>) and
  about the listings compose to those about a key, and those to a whole command.
\<close>

section \<open>The command line\<close>

definition line_at :: "mem \<Rightarrow> u32 \<Rightarrow> u8 list" where
  "line_at m n = map (window m command) [0..<unat n]"

abbreviation line :: "shell \<Rightarrow> u8 list" where
  "line st \<equiv> line_at (sh_mem st) (cmd_len st)"

lemma command_valid: "valid command 2048" "\<not> is_const (fst command)" "fst command = Local 4 2048"
  by (simp_all add: command_def valid_def)

lemma length_line [simp]: "length (line_at m n) = unat n"
  by (simp add: line_at_def)

lemma store_command:
  assumes "unat n < 2048"
  shows "store m (padd command n) v = ok (upd_bytes m (padd command n) 1 (\<lambda>_. v))"
  using store_byte [OF command_valid(1) assms command_valid(2), of m v] by simp

lemma window_command:
  assumes "unat n < 2048" and "i < 2048"
  shows "window (upd_bytes m (padd command n) 1 (\<lambda>_. v)) command i =
    (if i = unat n then v else window m command i)"
  using window_upd [OF command_valid(1) _ assms(2) command_valid(2), of "unat n" 1 m "\<lambda>_. v"] assms(1)
  by (auto simp del: One_nat_def)

lemma store_command_full: "unat n \<ge> 2048 \<Longrightarrow> store m (padd command n) v = fail Write_oob"
  by (simp add: store_def command_def)

text \<open>What the listings read: the tables of processes and devices, and memory outside the screen.\<close>

definition same_tables :: "kernel \<Rightarrow> kernel \<Rightarrow> bool" where
  "same_tables k k' \<longleftrightarrow> k_sched k' = k_sched k \<and> k_pci k' = k_pci k \<and>
     (\<forall>a. off_screen a \<longrightarrow> mem (k_machine k') Phys a = mem (k_machine k) Phys a)"

lemma replies_tables: "replies hw t k k' \<Longrightarrow> same_tables k k'"
  by (simp add: replies_def says_def same_tables_def)

lemma same_tables_trans: "same_tables a b \<Longrightarrow> same_tables b c \<Longrightarrow> same_tables a c"
  by (simp add: same_tables_def)

lemma same_tables_command [simp]:
  "same_tables (k\<lparr>k_machine := (k_machine k)\<lparr>mem := upd_bytes m (padd command n) i f\<rparr>\<rparr>) k' =
     same_tables (k\<lparr>k_machine := (k_machine k)\<lparr>mem := m\<rparr>\<rparr>) k'"
  "same_tables k (k'\<lparr>k_machine := (k_machine k')\<lparr>mem := upd_bytes m (padd command n) i f\<rparr>\<rparr>) =
     same_tables k (k'\<lparr>k_machine := (k_machine k')\<lparr>mem := m\<rparr>\<rparr>)"
  by (simp_all add: same_tables_def upd_bytes_other command_def)

text \<open>What a key does to the line, and what the console gets.\<close>

definition edit :: "u8 \<Rightarrow> u8 list \<Rightarrow> u8 list" where
  "edit c xs = (if c = 8 then butlast xs else xs @ [c])"

definition echo :: "u8 \<Rightarrow> u8 list \<Rightarrow> u8 list" where
  "echo c xs = (if c = 8 then (if xs = [] then [] else [8, 32, 8]) else [c])"

definition shell_ready :: "hw \<Rightarrow> shell \<Rightarrow> bool" where
  "shell_ready hw st \<longleftrightarrow> console_free hw (sh_kernel st) \<and> \<not> bit (lock2 st) 0"

lemma console_free_mem [simp]:
  "console_free hw (k\<lparr>k_machine := (k_machine k)\<lparr>mem := upd_bytes m (padd command n) (Suc 0) f\<rparr>\<rparr>) = console_free hw k"
  by (simp add: console_free_def console_inv_def vga_inv_def in_step_def)

lemma term_of_command [simp]:
  "term_of (s\<lparr>mem := upd_bytes (mem s) (padd command n) (Suc 0) f\<rparr>) = term_of s"
proof -
  have "cell (upd_bytes (mem s) (padd command n) (Suc 0) f) = cell (mem s)"
    by (intro ext) (simp add: cell_def upd_bytes_other command_valid)
  then show ?thesis by (simp add: term_of_def ring_row_def)
qed

lemma replies_mem: "replies hw t k k' \<Longrightarrow> mem (k_machine k') (Local 4 2048) = mem (k_machine k) (Local 4 2048)"
  unfolding replies_def using says_command by blast

lemma window_replies: "replies hw t k k' \<Longrightarrow> window (mem (k_machine k')) command = window (mem (k_machine k)) command"
  by (rule window_cong) (simp add: replies_mem command_valid)

lemma unat_succ: "unat (n :: u32) < 2048 \<Longrightarrow> unat (n + 1) = Suc (unat n)"
  using unat_offset [of n 1] by simp

lemma unat_pred: "n \<noteq> 0 \<Longrightarrow> unat (n - 1 :: u32) = unat n - 1"
  by (metis unat_minus_one)

lemma char_replies:
  assumes "console_free hw k" and "c \<noteq> 8"
  shows "\<exists>k'. print hw ''%c'' [Va_int (scast c)] k = ok k' \<and> replies hw [c] k k'"
proof -
  have "fmt_text (\<lambda>_. []) (bytes_of ''%c'') [Va_int (scast c)] = Some ([c], True)"
    by (simp add: bytes_of_def conv_text_def char_byte)
  then show ?thesis
    using print_replies [OF assms(1), of "''%c''" "\<lambda>_. []" "[Va_int (scast c)]" "[c]"] assms(2)
    by (auto simp: bytes_of_def strings_at_def)
qed

lemma char_action:
  assumes "console_free hw (sh_kernel st)" and "unat (cmd_len st) < 2048" and "c \<noteq> 8" and "c \<noteq> 10"
  shows "\<exists>k m. key_action hw env c st = ok (with_mem m (st\<lparr>sh_kernel := k, cmd_len := cmd_len st + 1\<rparr>)) \<and>
    replies hw [c] (sh_kernel st) k \<and> m = upd_bytes (mem (k_machine k)) (padd command (cmd_len st)) 1 (\<lambda>_. c)"
proof -
  obtain k where k: "print hw ''%c'' [Va_int (scast c)] (sh_kernel st) = ok k" "replies hw [c] (sh_kernel st) k"
    using char_replies [OF assms(1,3)] by blast
  then show ?thesis
    using store_command [OF assms(2), of "mem (k_machine k)" c] assms(3,4)
    by (intro exI [of _ k]) (simp add: key_action_def on_kernel_def with_mem_def)
qed

lemma rubout_action:
  assumes "console_free hw (sh_kernel st)" and "unat (cmd_len st) < 2048" and "cmd_len st \<noteq> 0"
    and "0 < tcol (term_of (console_of st))" and "tcol (term_of (console_of st)) < WIDTH"
  shows "\<exists>k. key_action hw env 8 st = ok (st\<lparr>sh_kernel := k, cmd_len := cmd_len st - 1\<rparr>) \<and>
    replies hw [8, 32, 8]
      (sh_kernel (with_mem (upd_bytes (sh_mem st) (padd command (cmd_len st)) 1 (\<lambda>_. 0)) st)) k"
proof -
  define u where "u = sh_kernel (with_mem (upd_bytes (sh_mem st) (padd command (cmd_len st)) 1 (\<lambda>_. 0)) st)"
  have fmt: "bytes_of (CHR 0x08 # '' '' @ [CHR 0x08]) = [8, 32, 8]"
    "bytes_of [CHR 0x08, CHR 0x20, CHR 0x08] = [8, 32, 8]"
    by (simp_all add: bytes_of_def)
  have free: "console_free hw u" using assms(1) by (simp add: u_def with_mem_def)
  have "printable [8, 32, 8] (k_machine u)"
    using assms(4,5) term_of_command [of "console_of st" "cmd_len st" "\<lambda>_. 0"]
    by (simp add: u_def with_mem_def printable_def del: tcol_term_of term_of_command)
  then obtain k where k: "print hw (CHR 0x08 # '' '' @ [CHR 0x08]) [] u = ok k" "replies hw [8, 32, 8] u k"
    using print_replies [OF free, of "CHR 0x08 # '' '' @ [CHR 0x08]" "\<lambda>_. []" "[]"]
    by (auto simp: fmt strings_at_def fmt_text_plain)
  then show ?thesis
    using store_command [OF assms(2), of "sh_mem st" 0] assms(3)
    by (intro exI [of _ k]) (simp add: key_action_def on_kernel_def u_def with_mem_def)
qed

lemma line_char:
  assumes "replies hw t k k'" and "unat n < 2048"
  shows "line_at (upd_bytes (mem (k_machine k')) (padd command n) 1 (\<lambda>_. c)) (n + 1) =
    line_at (mem (k_machine k)) n @ [c]"
  using assms(2) window_replies [OF assms(1)] window_command [OF assms(2), of _ "mem (k_machine k')" c]
  by (simp add: line_at_def unat_succ)

lemma line_rubout:
  assumes "replies hw t k k'" and "mem (k_machine k) = upd_bytes m (padd command n) 1 (\<lambda>_. 0)"
    and "unat n < 2048" and "n \<noteq> 0"
  shows "line_at (mem (k_machine k')) (n - 1) = butlast (line_at m n)"
proof -
  have n: "unat n = Suc (unat (n - 1))" using assms(4) unat_eq_zero [of n] by (simp add: unat_pred)
  have "window (mem (k_machine k')) command i = window m command i" if "i < unat (n - 1)" for i
    using that n assms(3) window_replies [OF assms(1)] window_command [OF assms(3), of i m 0] assms(2) by simp
  then show ?thesis unfolding line_at_def n by simp
qed

lemma dazzle_key_locks:
  assumes "\<not> bit (lock2 st) 0" and "key_action hw env c (st\<lparr>lock2 := set_bit 0 (lock2 st)\<rparr>) = ok st'"
    and "lock2 st' = set_bit 0 (lock2 st)"
  shows "dazzle_key hw env c st = ok (st'\<lparr>lock2 := lock2 st\<rparr>)"
  using assms by (simp add: dazzle_key_def sl_acquire_free sl_release_acquire)

lemma key_edits:
  assumes "shell_ready hw st" and "unat (cmd_len st) < 2048" and "c \<noteq> 10"
    and "c = 8 \<Longrightarrow> cmd_len st \<noteq> 0 \<Longrightarrow>
      0 < tcol (term_of (console_of st)) \<and> tcol (term_of (console_of st)) < WIDTH"
  shows "\<exists>st'. dazzle_key hw env c st = ok st' \<and> shell_ready hw st' \<and> line st' = edit c (line st) \<and>
    com1_sent (io_log (console_of st')) = com1_sent (io_log (console_of st)) @ echo c (line st) \<and>
    term_of (console_of st') = fold term_putc (echo c (line st)) (term_of (console_of st)) \<and>
    counter st' = counter st \<and> same_tables (sh_kernel st) (sh_kernel st')"
proof -
  let ?u = "st\<lparr>lock2 := set_bit 0 (lock2 st)\<rparr>"
  have free: "console_free hw (sh_kernel st)" "\<not> bit (lock2 st) 0" using assms(1) by (simp_all add: shell_ready_def)
  consider (char) "c \<noteq> 8" | (empty) "c = 8" "cmd_len st = 0" | (rubout) "c = 8" "cmd_len st \<noteq> 0" by blast
  then show ?thesis
  proof cases
    case char
    then obtain k where k: "key_action hw env c ?u = ok (with_mem
        (upd_bytes (mem (k_machine k)) (padd command (cmd_len ?u)) 1 (\<lambda>_. c)) (?u\<lparr>sh_kernel := k, cmd_len := cmd_len ?u + 1\<rparr>))"
      "replies hw [c] (sh_kernel ?u) k"
      using char_action [of hw ?u c env] free assms(2,3) by auto
    note run = dazzle_key_locks [OF free(2) k(1)]
    have "same_tables (sh_kernel st) k" using replies_tables [OF k(2)] by simp
    then show ?thesis
      using run k(2) free char replies_free [of hw "sh_kernel st" "[c]" k] line_char [OF k(2) assms(2), of c]
      by (simp add: with_mem_def shell_ready_def edit_def echo_def replies_def says_def)
  next
    case empty
    then have "key_action hw env c ?u = ok ?u" by (simp add: key_action_def)
    from dazzle_key_locks [OF free(2) this] show ?thesis
      using empty assms(1) by (simp add: edit_def echo_def line_at_def same_tables_def)
  next
    case rubout
    then obtain k where k: "key_action hw env 8 ?u = ok (?u\<lparr>sh_kernel := k, cmd_len := cmd_len ?u - 1\<rparr>)"
      "replies hw [8, 32, 8]
        (sh_kernel (with_mem (upd_bytes (sh_mem ?u) (padd command (cmd_len ?u)) 1 (\<lambda>_. 0)) ?u)) k"
      using rubout_action [of hw ?u env] free assms(2,4) by auto
    note run = dazzle_key_locks [OF free(2) k(1)]
    have "line_at (mem (k_machine k)) (cmd_len st - 1) = butlast (line st)"
      by (rule line_rubout [OF k(2)]) (use assms(2) rubout in \<open>simp_all add: with_mem_def\<close>)
    moreover have "line st \<noteq> []" using rubout by (simp add: line_at_def unat_eq_zero)
    moreover have "same_tables (sh_kernel st) k" using replies_tables [OF k(2)] by (simp add: with_mem_def)
    moreover have "console_free hw k" using replies_free [OF _ k(2)] free(1) by (simp add: with_mem_def)
    ultimately show ?thesis
      using run k(2) free(2) rubout
      by (simp add: with_mem_def shell_ready_def edit_def echo_def replies_def says_def)
  qed
qed

section \<open>Enter\<close>

lemma cstring_const:
  "0 \<notin> set xs \<Longrightarrow> length xs < 4294967295 \<Longrightarrow> cstring m (Const (xs @ [0]), 0) xs"
  by (auto simp: cstring_def valid_def)

lemma cstring_line:
  assumes "unat n < 2048" and "0 \<notin> set (line_at m n)"
  shows "cstring (upd_bytes m (padd command n) 1 (\<lambda>_. 0)) command (line_at m n)"
  unfolding cstring_def
proof (intro conjI allI impI)
  show "valid command (Suc (length (line_at m n)))" using assms(1) by (simp add: command_def valid_def)
  fix k assume "k \<le> length (line_at m n)"
  then have k: "k \<le> unat n" by simp
  have "peek (upd_bytes m (padd command n) 1 (\<lambda>_. 0)) (padd command (of_nat k)) =
      window (upd_bytes m (padd command n) 1 (\<lambda>_. 0)) command k" by (simp add: window_def)
  also have "\<dots> = (if k = unat n then 0 else window m command k)"
    using k assms(1) by (intro window_command) simp_all
  also have "\<dots> = (line_at m n @ [0]) ! k" using k by (auto simp: line_at_def nth_append)
  finally show "peek (upd_bytes m (padd command n) 1 (\<lambda>_. 0)) (padd command (of_nat k)) = (line_at m n @ [0]) ! k" .
qed (rule assms(2))

text \<open>The texts the commands print.\<close>

definition reply :: "shell_env \<Rightarrow> (u32 \<Rightarrow> u8 list) \<Rightarrow> kernel \<Rightarrow> u32 \<Rightarrow> u8 list \<Rightarrow> u8 list" where
  "reply env nm k n w =
     (if w = bytes_of ''lspci'' then lspci_text (k_pci k)
      else if w = bytes_of ''cpuid'' then butlast (cpuid_model (env_cpuid env)) @ [10]
      else if w = bytes_of ''help'' then concat (map bytes_of help_lines)
      else if w = bytes_of ''counter'' then int_text (sint n) @ [10]
      else if w = bytes_of ''lsproc'' then lsproc_text nm (k_sched k)
      else if w = bytes_of ''shutdown'' then
        bytes_of ''Attempting shutdown using hypervisor-specific methods.ACPI is not yet supported.'' @
        bytes_of ''If the computer is still on, you must manually power it off. ACPI is not yet implemented.\<newline>''
      else bytes_of ''Unknown command\<newline>'')"

text \<open>What a command needs: the two listings, strings that can be printed; \<open>cpuid\<close>, an answer that can.\<close>

definition can_reply :: "shell_env \<Rightarrow> (u32 \<Rightarrow> u8 list) \<Rightarrow> kernel \<Rightarrow> u8 list \<Rightarrow> bool" where
  "can_reply env nm k w \<longleftrightarrow>
     (if w = bytes_of ''lspci'' then listed_ok (k_pci k)
      else if w = bytes_of ''cpuid'' then set (butlast (cpuid_model (env_cpuid env))) \<inter> {0, 8} = {}
      else if w = bytes_of ''lsproc'' then table_ok (k_sched k) \<and> names_stand nm (k_sched k) (mem (k_machine k)) \<and>
        (\<forall>t \<in> set (listed_tasks (k_sched k)). 8 \<notin> set (nm (ts_process_name t)))
      else True)"

lemma reply_same: "same_tables k k' \<Longrightarrow> reply env nm k' n w = reply env nm k n w"
  by (simp add: same_tables_def reply_def)

lemma can_reply_same: "same_tables k k' \<Longrightarrow> can_reply env nm k w \<Longrightarrow> can_reply env nm k' w"
  using names_stand_fact [of nm "k_sched k"] unfolding off_screen_fact_def
  by (auto simp: same_tables_def can_reply_def split: if_splits)

lemma is_command_at:
  assumes "cstring (sh_mem st) command w" and "0 \<notin> set (bytes_of name)" and "length name < 4294967295"
  shows "is_command st name = ok (if w = bytes_of name then 1 else 0)"
  using streq_correct [OF assms(1) cstring_lit [OF assms(2,3)]] by (simp add: is_command_def)

lemma sh_cpuid_replies:
  assumes "console_free hw k" and "set (butlast (cpuid_model (env_cpuid env))) \<inter> {0, 8} = {}"
  shows "\<exists>k'. sh_cpuid hw env k = ok k' \<and>
    replies hw (butlast (cpuid_model (env_cpuid env)) @ [10]) k k'"
proof -
  let ?t = "butlast (cpuid_model (env_cpuid env))"
  obtain b d c where x: "env_cpuid env = (b, d, c)" by (cases "env_cpuid env")
  have t: "cpuid_model (env_cpuid env) = ?t @ [0]" "length ?t = 12"
    by (simp_all add: cpuid_model_def x)
  have rd: "strings_at (\<lambda>_. ?t) [Va_ptr (Const (cpuid_model (env_cpuid env)), 0)] m" for m
    using cstring_const [of ?t m] assms(2) t by (simp add: strings_at_def)
  have f: "fmt_text (\<lambda>_. ?t) (bytes_of ''%s\<newline>'') [Va_ptr (Const (cpuid_model (env_cpuid env)), 0)] =
      Some (?t @ [10], True)"
    by (simp add: bytes_of_def conv_text_def)
  have p: "printable (?t @ [10]) (k_machine k)" using assms(2) by simp
  show ?thesis
    unfolding sh_cpuid_def by (rule print_replies [OF assms(1) _ _ rd f p]) (simp_all add: bytes_of_def)
qed

lemma counter_replies:
  assumes "console_free hw k"
  shows "\<exists>k'. print hw ''%d\<newline>'' [Va_int n] k = ok k' \<and> replies hw (int_text (sint n) @ [10]) k k'"
proof -
  have f: "fmt_text (\<lambda>_. []) (bytes_of ''%d\<newline>'') [Va_int n] = Some (int_text (sint n) @ [10], True)"
    by (simp add: bytes_of_def conv_text_def)
  have p: "printable (int_text (sint n) @ [10]) (k_machine k)" by (simp add: int_text_printable)
  show ?thesis
    by (rule print_replies [OF assms(1) _ _ _ f p]) (simp_all add: bytes_of_def strings_at_def)
qed

lemma help_replies:
  assumes "console_free hw k"
  shows "\<exists>k'. sh_help hw k = ok k' \<and> replies hw (concat (map bytes_of help_lines)) k k'"
  unfolding sh_help_def
  by (rule print_lines_replies [OF assms]) (simp add: help_lines_def bytes_of_def)

lemma says_log:
  "says hw t a b \<Longrightarrow> com1_sent l = com1_sent (io_log b) \<Longrightarrow> says hw t a (b\<lparr>io_log := l\<rparr>)"
  by (simp add: says_def console_inv_def screen_only_def)

lemma syscall_powerctl_says:
  assumes "console_inv hw m"
  shows "\<exists>m'. syscall_powerctl hw m = ok m' \<and>
    says hw (bytes_of ''Attempting shutdown using hypervisor-specific methods.ACPI is not yet supported.'') m m'"
proof -
  let ?a = "''Attempting shutdown using hypervisor-specific methods.''" and ?b = "''ACPI is not yet supported.''"
  have one: "\<exists>v. printf_nolock hw (lit l) [] u = ok v \<and> says hw (bytes_of l) u v"
    if "console_inv hw u" "set (bytes_of l) \<inter> {0, 8, 37} = {}" "length l < 4294967295" for u l
    using that by (intro printf_nolock_says [where rd = "\<lambda>_. []"] fmt_text_plain)
      (auto simp: strings_at_def)
  obtain u where u: "printf_nolock hw (lit ?a) [] m = ok u" "says hw (bytes_of ?a) m u"
    using one [OF assms, of ?a] by (auto simp: bytes_of_def)
  obtain v where v: "printf_nolock hw (lit ?b) [] u = ok v" "says hw (bytes_of ?b) u v"
    using one [OF says_console [OF u(2)], of ?b] by (auto simp: bytes_of_def)
  have t: "bytes_of ?a @ bytes_of ?b = bytes_of (?a @ ?b)" by (simp add: bytes_of_def)
  from says_trans [OF u(2) v(2)] u(1) v(1) show ?thesis
    unfolding t by (auto simp: syscall_powerctl_def outw_def intro!: says_log)
qed

lemma powerctl_replies:
  assumes "console_free hw k"
  shows "\<exists>k'. powerctl hw r k = ok k' \<and>
    replies hw (bytes_of ''Attempting shutdown using hypervisor-specific methods.ACPI is not yet supported.'') k k'"
proof -
  obtain m where m: "syscall_powerctl hw (k_machine k) = ok m"
    "says hw (bytes_of ''Attempting shutdown using hypervisor-specific methods.ACPI is not yet supported.'') (k_machine k) m"
    using syscall_powerctl_says assms by (auto simp: console_free_def)
  have n: "map_of syscall_numbers 5 = Some SYSCALL_powerctl" by (simp add: syscall_numbers_def)
  show ?thesis
    using m by (auto simp: powerctl_def invoke_syscall_def irq_handler_def syscall_def n
        replies_def send_eoi_def outb_def intro!: says_log)
qed

lemma shutdown_replies:
  assumes "console_free hw k"
  shows "\<exists>k'. sh_shutdown hw env k = ok k' \<and> replies hw (reply env nm k0 n (bytes_of ''shutdown'')) k k'"
proof -
  let ?l = "''If the computer is still on, you must manually power it off. ACPI is not yet implemented.\<newline>''"
  obtain a where a: "powerctl hw (env_regs env) k = ok a"
    "replies hw (bytes_of ''Attempting shutdown using hypervisor-specific methods.ACPI is not yet supported.'') k a"
    using powerctl_replies [OF assms] by blast
  obtain b where b: "print hw ?l [] a = ok b" "replies hw (bytes_of ?l) a b"
    using print_line_replies [OF replies_free [OF assms a(2)], of ?l] by (auto simp: bytes_of_def)
  have t: "reply env nm k0 n (bytes_of ''shutdown'') =
      bytes_of ''Attempting shutdown using hypervisor-specific methods.ACPI is not yet supported.'' @ bytes_of ?l"
    by (simp add: reply_def) (simp add: bytes_of_def)
  from a(1) b(1) replies_trans [OF a(2) b(2)] show ?thesis unfolding t by (simp add: sh_shutdown_def)
qed

text \<open>The chain of comparisons picks the command whose name was typed.\<close>

lemma run_command_replies:
  assumes "console_free hw (sh_kernel st)" and "can_reply env nm (sh_kernel st) w" and "cstring (sh_mem st) command w"
  shows "\<exists>k. run_command hw env st = ok k \<and> replies hw (reply env nm (sh_kernel st) (counter st) w) (sh_kernel st) k"
proof -
  let ?words = "[''lspci'', ''cpuid'', ''help'', ''counter'', ''lsproc'', ''shutdown'']"
  have is_c: "is_command st name = ok (if w = bytes_of name then 1 else 0)" if "name \<in> set ?words" for name
    using that assms(3) by (intro is_command_at) (auto simp: bytes_of_def)
  have ne: "bytes_of x \<noteq> bytes_of y" if "x \<in> set ?words" "y \<in> set ?words" "x \<noteq> y" for x y
    using that by (auto simp: bytes_of_def)
  show ?thesis
  proof (cases "w \<in> bytes_of ` set ?words")
    case False
    then show ?thesis
      using print_line_replies [OF assms(1), of "''Unknown command\<newline>''"]
      by (simp add: run_command_def Let_def is_c reply_def bytes_of_def [of "''Unknown command\<newline>''"])
  next
    case True
    then obtain name where name: "name \<in> set ?words" and w: "w = bytes_of name" by blast
    have "\<exists>k. run_command hw env st = ok k \<and> replies hw (reply env nm (sh_kernel st) (counter st) (bytes_of name)) (sh_kernel st) k"
      using name sh_lspci_replies [OF assms(1), of env] sh_cpuid_replies [OF assms(1), of env] help_replies [OF assms(1)]
        counter_replies [OF assms(1), of "counter st"] sh_lsproc_replies [OF assms(1), of nm env]
        shutdown_replies [OF assms(1), of env nm "sh_kernel st" "counter st"] assms(2)
      unfolding w by (auto simp: run_command_def Let_def is_c [unfolded w] reply_def can_reply_def ne)
    then show ?thesis by (simp only: w)
  qed
qed

lemma prompt_replies:
  assumes "console_free hw k"
  shows "\<exists>k'. print hw ''%s'' [Va_ptr prompt] k = ok k' \<and> replies hw (bytes_of ''you@razzle ~$ '') k k'"
proof -
  let ?t = "bytes_of ''you@razzle ~$ ''"
  have f: "fmt_text (\<lambda>_. ?t) (bytes_of ''%s'') [Va_ptr prompt] = Some (?t, True)"
    by (simp add: bytes_of_def [of "''%s''"] conv_text_def)
  have z: "0 \<notin> set ?t" "8 \<notin> set ?t" by (simp_all add: bytes_of_def)
  have rd: "strings_at (\<lambda>_. ?t) [Va_ptr prompt] m" for m
    using cstring_lit [OF z(1), of m] by (simp add: strings_at_def prompt_def lit_def)
  show ?thesis
    by (rule print_replies [OF assms _ _ rd f]) (simp_all add: z, simp add: bytes_of_def)
qed

lemma enter_action:
  assumes "console_free hw (sh_kernel st)" and "unat (cmd_len st) < 2048" and "0 \<notin> set (line st)"
    and "can_reply env nm (sh_kernel st) (line st)"
  shows "\<exists>k. key_action hw env 10 st = ok (st\<lparr>sh_kernel := k, cmd_len := 0\<rparr>) \<and>
    replies hw ([10] @ reply env nm (sh_kernel st) (counter st) (line st) @ bytes_of ''you@razzle ~$ '')
      (sh_kernel (with_mem (upd_bytes (sh_mem st) (padd command (cmd_len st)) 1 (\<lambda>_. 0)) st)) k"
proof -
  define u where "u = sh_kernel (with_mem (upd_bytes (sh_mem st) (padd command (cmd_len st)) 1 (\<lambda>_. 0)) st)"
  have free: "console_free hw u" using assms(1) by (simp add: u_def with_mem_def)
  have nl: "bytes_of ''\<newline>'' = [10]" by (simp add: bytes_of_def)
  obtain a where a: "print hw ''\<newline>'' [] u = ok a" "replies hw [10] u a"
    using print_line_replies [OF free, of "''\<newline>''"] by (auto simp: nl)
  let ?st = "st\<lparr>cmd_len := 0, sh_kernel := a\<rparr>"
  have "mem (k_machine u) = upd_bytes (sh_mem st) (padd command (cmd_len st)) 1 (\<lambda>_. 0)"
    by (simp add: u_def with_mem_def)
  then have "cstring (mem (k_machine u)) command (line st)"
    using cstring_line [OF assms(2,3)] by simp
  then have "cstring (sh_mem ?st) command (line st)"
    using cstring_cong [of "sh_mem ?st" command "mem (k_machine u)"] replies_mem [OF a(2)]
    by (simp add: command_valid)
  moreover have same: "same_tables (sh_kernel st) a"
    using replies_tables [OF a(2)] by (simp add: u_def with_mem_def)
  ultimately obtain b where b: "run_command hw env ?st = ok b" "replies hw (reply env nm (sh_kernel st) (counter st) (line st)) a b"
    using run_command_replies [of hw ?st env nm "line st"] replies_free [OF free a(2)] can_reply_same [OF same assms(4)]
      reply_same [OF same] by auto
  obtain c where c: "print hw ''%s'' [Va_ptr prompt] b = ok c"
    "replies hw (bytes_of ''you@razzle ~$ '') b c"
    using prompt_replies [OF replies_free [OF replies_free [OF free a(2)] b(2)]] by blast
  have "key_action hw env 10 st = ok (st\<lparr>sh_kernel := c, cmd_len := 0\<rparr>)"
    using store_command [OF assms(2), of "sh_mem st" 0] a(1) b(1) c(1)
    by (simp add: key_action_def on_kernel_def u_def with_mem_def)
  then show ?thesis
    using replies_trans [OF a(2) replies_trans [OF b(2) c(2)]] u_def by auto
qed

lemma key_enter:
  assumes "shell_ready hw st" and "unat (cmd_len st) < 2048" and "0 \<notin> set (line st)"
    and "can_reply env nm (sh_kernel st) (line st)"
  shows "\<exists>st'. dazzle_key hw env 10 st = ok st' \<and> shell_ready hw st' \<and> line st' = [] \<and>
    com1_sent (io_log (console_of st')) = com1_sent (io_log (console_of st)) @
      [10] @ reply env nm (sh_kernel st) (counter st) (line st) @ bytes_of ''you@razzle ~$ '' \<and>
    term_of (console_of st') =
      fold term_putc ([10] @ reply env nm (sh_kernel st) (counter st) (line st) @ bytes_of ''you@razzle ~$ '') (term_of (console_of st)) \<and>
    counter st' = counter st \<and> same_tables (sh_kernel st) (sh_kernel st')"
proof -
  let ?u = "st\<lparr>lock2 := set_bit 0 (lock2 st)\<rparr>"
  have free: "console_free hw (sh_kernel st)" "\<not> bit (lock2 st) 0" using assms(1) by (simp_all add: shell_ready_def)
  obtain k where k: "key_action hw env 10 ?u = ok (?u\<lparr>sh_kernel := k, cmd_len := 0\<rparr>)"
    "replies hw ([10] @ reply env nm (sh_kernel ?u) (counter ?u) (line ?u) @ bytes_of ''you@razzle ~$ '')
      (sh_kernel (with_mem (upd_bytes (sh_mem ?u) (padd command (cmd_len ?u)) 1 (\<lambda>_. 0)) ?u)) k"
    using enter_action [of hw ?u env nm] free(1) assms(2-4) by auto
  note run = dazzle_key_locks [OF free(2) k(1)]
  have "same_tables (sh_kernel st) k" using replies_tables [OF k(2)] by (simp add: with_mem_def)
  moreover have "console_free hw k" using replies_free [OF _ k(2)] free(1) by (simp add: with_mem_def)
  ultimately show ?thesis
    using run k(2) free(2)
    by (simp add: with_mem_def shell_ready_def replies_def says_def line_at_def)
qed

text \<open>Characters one after the other.\<close>

lemma keys_type:
  assumes "shell_ready hw st" and "unat (cmd_len st) + length w \<le> 2048" and "set w \<inter> {8, 10} = {}"
  shows "\<exists>st'. fold_res (dazzle_key hw env) w st = ok st' \<and> shell_ready hw st' \<and> line st' = line st @ w \<and>
    com1_sent (io_log (console_of st')) = com1_sent (io_log (console_of st)) @ w \<and>
    term_of (console_of st') = fold term_putc w (term_of (console_of st)) \<and>
    counter st' = counter st \<and> same_tables (sh_kernel st) (sh_kernel st')"
  using assms
proof (induction w arbitrary: st)
  case (Cons c w)
  then obtain a where a: "dazzle_key hw env c st = ok a" "shell_ready hw a" "line a = line st @ [c]"
    "com1_sent (io_log (console_of a)) = com1_sent (io_log (console_of st)) @ [c]"
    "term_of (console_of a) = term_putc c (term_of (console_of st))"
    "counter a = counter st" "same_tables (sh_kernel st) (sh_kernel a)"
    using key_edits [of hw st c env] by (auto simp: edit_def echo_def)
  have "unat (cmd_len a) = Suc (unat (cmd_len st))" using arg_cong [OF a(3), of length] by simp
  with Cons.prems Cons.IH [OF a(2)] show ?case using a same_tables_trans by auto
qed (simp add: same_tables_def)

section \<open>Properties\<close>

definition demo_shell :: shell where
  "demo_shell = \<lparr>sh_kernel = demo_kernel two_processes, lock2 = 0, counter = 7, cmd_len = 0\<rparr>"

definition demo_env :: shell_env where
  "demo_env = \<lparr>env_regs = demo_regs, env_devlist = 0x300000, env_proclist = 0x301000,
     env_cpuid = (0x756E6547, 0x49656E69, 0x6C65746E)\<rparr>"

lemma demo_shell_ready: "shell_ready ready_hw demo_shell" "line demo_shell = []"
  using fresh_console
  by (simp_all add: shell_ready_def console_free_def demo_shell_def demo_kernel_def line_at_def fresh_machine_def)

lemma demo_listing:
  "listed_tasks (k_sched (sh_kernel demo_shell)) = [started 0 0x200000 demo_task, started 1 0x200100 demo_task]"
proof -
  have "replicate 128 demo_task = demo_task # demo_task # replicate 126 demo_task"
    by (simp add: replicate_app_Cons_same flip: replicate_Suc)
  then show ?thesis
    by (simp add: listed_tasks_def demo_shell_def demo_kernel_def two_processes_def live_tasks_def started_def demo_task_def)
qed

text \<open>
  C5: typing a command and Enter at the shell's prompt. From an empty line, with the console and the
  shell's lock free, for every word of at most 2047 characters without control characters, the shell
  returns from every key; COM1 and the terminal get the word, a new line, what the command prints
  (\<open>reply\<close>), and the prompt; the line is empty again and both locks are free. \<open>lspci\<close> prints the first
  seven devices of the kernel's list, \<open>lsproc\<close> the first seven processes, each through its system call;
  \<open>shutdown\<close> makes its system call; any other word is answered too. \<open>can_reply\<close>: the strings a listing
  prints end and hold no backspace.
\<close>

lemma shell_command:
  assumes "shell_ready hw st" and "line st = []" and "length w < 2048" and "set w \<inter> {0, 8, 10} = {}"
    and "can_reply env nm (sh_kernel st) w"
    and "out = w @ [10] @ reply env nm (sh_kernel st) (counter st) w @ bytes_of ''you@razzle ~$ ''"
  shows "\<exists>st'. fold_res (dazzle_key hw env) (w @ [10]) st = ok st' \<and> shell_ready hw st' \<and> line st' = [] \<and>
    com1_sent (io_log (console_of st')) = com1_sent (io_log (console_of st)) @ out \<and>
    term_of (console_of st') = fold term_putc out (term_of (console_of st)) \<and>
    same_tables (sh_kernel st) (sh_kernel st')"
proof -
  have empty: "unat (cmd_len st) = 0" using arg_cong [OF assms(2), of length] by simp
  obtain a where a: "fold_res (dazzle_key hw env) w st = ok a" "shell_ready hw a" "line a = w"
    "com1_sent (io_log (console_of a)) = com1_sent (io_log (console_of st)) @ w"
    "term_of (console_of a) = fold term_putc w (term_of (console_of st))"
    "counter a = counter st" "same_tables (sh_kernel st) (sh_kernel a)"
    using keys_type [OF assms(1), of w env] assms(2-4) empty by auto
  have "unat (cmd_len a) = length w" "0 \<notin> set (line a)"
    using arg_cong [OF a(3), of length] a(3) assms(4) by auto
  then obtain b where "dazzle_key hw env 10 a = ok b" "shell_ready hw b" "line b = []"
    "com1_sent (io_log (console_of b)) = com1_sent (io_log (console_of a)) @ [10] @
       reply env nm (sh_kernel a) (counter a) (line a) @ bytes_of ''you@razzle ~$ ''"
    "term_of (console_of b) = fold term_putc ([10] @ reply env nm (sh_kernel a) (counter a) (line a) @
       bytes_of ''you@razzle ~$ '') (term_of (console_of a))"
    "same_tables (sh_kernel a) (sh_kernel b)"
    using key_enter [OF a(2), of env nm] can_reply_same [OF a(7) assms(5)] a(3) assms(3) by auto
  then show ?thesis
    using a same_tables_trans [OF a(7)] reply_same [OF a(7)] by (auto simp: fold_res_append assms(6))
qed

lemma shell_command_witness:
  "\<exists>st'. fold_res (dazzle_key ready_hw demo_env) (bytes_of ''lsproc'' @ [10]) demo_shell = ok st' \<and>
    com1_sent (io_log (console_of st')) = bytes_of ''lsproc\<newline>R 0: \<newline>R 1: \<newline>you@razzle ~$ ''"
proof -
  have w: "length (bytes_of ''lsproc'') < 2048" "set (bytes_of ''lsproc'') \<inter> {0, 8, 10} = {}"
    by (simp_all add: bytes_of_def)
  have "name_stands (\<lambda>_. []) (\<lambda>_ _. 0) (space_base p)" if "p < 2" for p
    using that by (simp add: name_stands_def cstring_def valid_space off_screen_def unat_space_base)
  then have p: "can_reply demo_env (\<lambda>_. []) (sh_kernel demo_shell) (bytes_of ''lsproc'')"
    using demo_listing by (simp add: can_reply_def bytes_of_def names_stand_def started_def)
      (simp add: demo_shell_def demo_kernel_def table_ok_def two_processes_def fresh_machine_def)
  have t: "bytes_of ''lsproc'' @ [10] @ reply demo_env (\<lambda>_. []) (sh_kernel demo_shell) (counter demo_shell) (bytes_of ''lsproc'') @
      bytes_of ''you@razzle ~$ '' = bytes_of ''lsproc\<newline>R 0: \<newline>R 1: \<newline>you@razzle ~$ ''"
    by (simp add: reply_def bytes_of_def lsproc_text_def demo_listing task_reply_def started_def state_letter_def
        int_text_def uint_text_def dec_digits.simps digit_char_def upt_rec)
  have "com1_sent (io_log (console_of demo_shell)) = []"
    by (simp add: demo_shell_def demo_kernel_def fresh_machine_def)
  then show ?thesis
    using shell_command [OF demo_shell_ready w p refl] unfolding t by auto
qed

text \<open>
  One key at the shell other than Enter, with room in the line. The shell returns; a character is
  appended to the line and echoed, a backspace removes the last character and wipes it from the
  screen (on an empty line it does nothing). Where the cursor stands matters for the backspace only:
  between the first and the last column.
\<close>

lemma shell_key:
  assumes "shell_ready hw st" and "unat (cmd_len st) < 2048" and "c \<noteq> 10"
    and "c = 8 \<Longrightarrow> cmd_len st \<noteq> 0 \<Longrightarrow>
      0 < tcol (term_of (console_of st)) \<and> tcol (term_of (console_of st)) < WIDTH"
  shows "\<exists>st'. dazzle_key hw env c st = ok st' \<and> shell_ready hw st' \<and> line st' = edit c (line st) \<and>
    com1_sent (io_log (console_of st')) = com1_sent (io_log (console_of st)) @ echo c (line st) \<and>
    term_of (console_of st') = fold term_putc (echo c (line st)) (term_of (console_of st)) \<and>
    counter st' = counter st \<and> same_tables (sh_kernel st) (sh_kernel st')"
  using assms by (rule key_edits)

lemma shell_key_witness:
  "\<exists>st'. dazzle_key ready_hw demo_env 104 demo_shell = ok st' \<and> line st' = [104]"
proof -
  have "unat (cmd_len demo_shell) < 2048" by (simp add: demo_shell_def)
  then show ?thesis
    using shell_key [OF demo_shell_ready(1), of 104 demo_env] demo_shell_ready(2) by (auto simp: edit_def)
qed

text \<open>
  C36: the line has room for 2048 characters and nothing checks it: once it is full, every key, Enter
  and backspace included, writes outside the buffer.
\<close>

lemma shell_buffer_overflow:
  assumes "shell_ready hw st" and "cmd_len st = 2048"
  shows "dazzle_key hw env c st = fail Write_oob"
proof -
  let ?u = "st\<lparr>lock2 := set_bit 0 (lock2 st)\<rparr>"
  have free: "console_free hw (sh_kernel ?u)" "\<not> bit (lock2 st) 0" using assms(1) by (simp_all add: shell_ready_def)
  have full: "store m (padd command (cmd_len ?u)) v = fail Write_oob" for m v
    using assms(2) by (intro store_command_full) simp
  have "key_action hw env c ?u = fail Write_oob"
  proof (cases "c = 8 \<or> c = 10")
    case True
    then show ?thesis using assms(2) full by (auto simp: key_action_def)
  next
    case False
    then obtain k where "print hw ''%c'' [Va_int (scast c)] (sh_kernel ?u) = ok k"
      using char_replies [OF free(1)] by blast
    with False show ?thesis using full by (simp add: key_action_def on_kernel_def)
  qed
  with free(2) show ?thesis by (simp add: dazzle_key_def sl_acquire_free)
qed

lemma shell_buffer_overflow_witness:
  "dazzle_key ready_hw demo_env 104 (demo_shell\<lparr>cmd_len := 2048\<rparr>) = fail Write_oob"
  by (rule shell_buffer_overflow) (use demo_shell_ready(1) in \<open>simp_all add: shell_ready_def\<close>)

end
