(* ===== verification/Boot.thy ===== *)
theory Boot
  imports Kernel Shell_Session Pci_Bus
begin

text \<open>
  What the boot establishes: \<open>kernel_main\<close> leaves the kernel in a state from which the invariant of
  \<open>Interrupts\<close> holds under every interrupt, with the two processes ready and none chosen yet; and it does
  get there, with the PCI devices that answer listed and every message sent to COM1.
\<close>

section \<open>The two processes\<close>

lemma start_two:
  assumes "table_ok s" and "\<forall>p < MAX_PROCESSES. state_of s p = TASKSTATE_unused"
  shows "\<exists>m1 m2. start_process (lit ''razzle'') a s m = ok
      (s\<lparr>process_table := (process_table s)[0 := started 0 a (process_table s ! 0)]\<rparr>, m1) \<and>
    start_process (lit ''dazzle'') b
      (s\<lparr>process_table := (process_table s)[0 := started 0 a (process_table s ! 0)]\<rparr>) m1 = ok
      (s\<lparr>process_table := (process_table s)[0 := started 0 a (process_table s ! 0),
         1 := started 1 b (process_table s ! 1)]\<rparr>, m2)"
proof -
  let ?s = "s\<lparr>process_table := (process_table s)[0 := started 0 a (process_table s ! 0)]\<rparr>"
  have t: "table_ok ?s" using assms(1) by (simp add: table_ok_def)
  have f0: "first_on_ring (\<lambda>p. state_of s p = TASKSTATE_unused) 0 0"
    unfolding first_on_ring_def by (intro exI [of _ 0]) (simp add: assms(2))
  have st: "state_of ?s 0 = TASKSTATE_ready" "state_of ?s 1 = TASKSTATE_unused"
    using assms by (simp_all add: state_of_def started_def table_ok_def)
  have f1: "first_on_ring (\<lambda>p. state_of ?s p = TASKSTATE_unused) 0 1"
    unfolding first_on_ring_def using st by (intro exI [of _ 1]) (simp del: One_nat_def)
  have c: "cstring m (lit ''razzle'') (bytes_of ''razzle'')" "cstring m (lit ''dazzle'') (bytes_of ''dazzle'')" for m
    by (intro cstring_lit; simp add: bytes_of_def)+
  have d: "disjoint (Phys, space_base p) 16 (lit n) l" for p n l by (simp add: disjoint_def lit_def)
  obtain m1 where "start_process (lit ''razzle'') a s m = ok (?s, m1)"
    using start_process_eq [OF assms(1) f0 c(1) d] by blast
  moreover obtain m2 where "start_process (lit ''dazzle'') b ?s m1 = ok
      (?s\<lparr>process_table := (process_table ?s)[1 := started 1 b (process_table ?s ! 1)]\<rparr>, m2)"
    using start_process_eq [OF t f1 c(2) d] by blast
  ultimately show ?thesis by auto
qed

section \<open>Where the boot ends\<close>

lemma kernel_main_tail:
  assumes "kernel_main e blk y = ok y'"
  obtains m p t0 t s d m1 s1 m2 s2 m3 where
    "init_tables e (m, sys_tables y) = ok (t0, t)"
    "init_process_table (k_sched (sys_kernel y)) = ok s" "init_ps2 (k_ps2 (sys_kernel y)) = ok d"
    "start_process (lit ''razzle'') (razzle_entry e) s (mem m1) = ok (s1, m2)"
    "start_process (lit ''dazzle'') (dazzle_entry e) s1 m2 = ok (s2, m3)"
    "sys_kernel y' = (sys_kernel y)\<lparr>k_machine := m1\<lparr>mem := m3, io_log := interrupt_enable (io_log m1)\<rparr>,
       k_sched := s2, k_ps2 := d, k_pci := p\<rparr>"
    "sys_tables y' = t"
  using assms unfolding kernel_main_def Let_def
  by (auto simp: bind_res_eq_ok case_prod_beta)

lemma init_tables_gates:
  assumes "init_tables e (m, t0) = ok (m', t)" and "length (gdt t0) = GDT_SIZE"
  shows "\<forall>v < IDT_SIZE. idt t ! v = gate_of (boot_link e) v"
proof -
  have "length (gdt (t0\<lparr>t_log := io_log m\<rparr>)) = GDT_SIZE" using assms(2) by simp
  from arch_init_eq [OF this, of "boot_link e"] show ?thesis
    using assms(1) by (auto simp: init_tables_def bind_res_eq_ok)
qed

lemma boot_reaches:
  assumes "kernel_main e blk y = ok y'"
    and "length (process_table (k_sched (sys_kernel y))) = MAX_PROCESSES"
    and "length (ps2_waiters (k_ps2 (sys_kernel y))) = MAX_PROCESSES" and "length (gdt (sys_tables y)) = GDT_SIZE"
  shows "reachable hw (sys_kernel y') \<and> current_pid (k_sched (sys_kernel y')) = 129 \<and>
    (\<forall>p < MAX_PROCESSES. state_of (k_sched (sys_kernel y')) p =
       (if p < 2 then TASKSTATE_ready else TASKSTATE_unused)) \<and>
    r_eip (ts_registers (process_table (k_sched (sys_kernel y')) ! 0)) = razzle_entry e \<and>
    r_eip (ts_registers (process_table (k_sched (sys_kernel y')) ! 1)) = dazzle_entry e \<and>
    (\<forall>v < IDT_SIZE. idt (sys_tables y') ! v = gate_of (boot_link e) v) \<and>
    hd (io_log (k_machine (sys_kernel y'))) = Sti"
proof -
  obtain m p t0 t s d m1 s1 m2 s2 m3 where parts:
    "init_tables e (m, sys_tables y) = ok (t0, t)"
    "init_process_table (k_sched (sys_kernel y)) = ok s" "init_ps2 (k_ps2 (sys_kernel y)) = ok d"
    "start_process (lit ''razzle'') (razzle_entry e) s (mem m1) = ok (s1, m2)"
    "start_process (lit ''dazzle'') (dazzle_entry e) s1 m2 = ok (s2, m3)"
    "sys_kernel y' = (sys_kernel y)\<lparr>k_machine := m1\<lparr>mem := m3, io_log := interrupt_enable (io_log m1)\<rparr>,
       k_sched := s2, k_ps2 := d, k_pci := p\<rparr>"
    "sys_tables y' = t"
    using assms(1) by (rule kernel_main_tail)
  let ?m = "m1\<lparr>io_log := interrupt_enable (io_log m1)\<rparr>"
  let ?k = "(sys_kernel y)\<lparr>k_machine := ?m, k_pci := p\<rparr>"
  have ok: "table_ok (k_sched (sys_kernel y))" using assms(2) by (simp add: table_ok_def)
  have s: "s = (k_sched (sys_kernel y))\<lparr>process_table := map (\<lambda>t. t\<lparr>ts_state := TASKSTATE_unused\<rparr>)
      (process_table (k_sched (sys_kernel y))), current_pid := 129\<rparr>"
    using parts(2) init_process_table_eq [OF ok] by simp
  have t: "table_ok s" "\<forall>p < MAX_PROCESSES. state_of s p = TASKSTATE_unused"
    using assms(2) by (simp_all add: s table_ok_def state_of_def)
  have s2: "s2 = s\<lparr>process_table := (process_table s)[0 := started 0 (razzle_entry e) (process_table s ! 0),
      1 := started 1 (dazzle_entry e) (process_table s ! 1)]\<rparr>"
    using start_two [OF t, of "razzle_entry e" "mem m1" "dazzle_entry e"] parts(4,5) by auto
  have names: "0 \<notin> set (bytes_of ''razzle'')" "0 \<notin> set (bytes_of ''dazzle'')" by (simp_all add: bytes_of_def)
  have "reachable hw (?k\<lparr>k_sched := s, k_ps2 := d\<rparr>)"
    using assms(2,3) parts(2,3) by (intro reachable.boot) simp_all
  from reachable.start [OF this, of "''razzle''" "razzle_entry e" s1 m2] parts(4) names
  have "reachable hw (?k\<lparr>k_ps2 := d, k_sched := s1, k_machine := ?m\<lparr>mem := m2\<rparr>\<rparr>)" by simp
  from reachable.start [OF this, of "''dazzle''" "dazzle_entry e" s2 m3] parts(5) names
  have "reachable hw (?k\<lparr>k_ps2 := d, k_sched := s2, k_machine := ?m\<lparr>mem := m3\<rparr>\<rparr>)" by simp
  moreover have "?k\<lparr>k_ps2 := d, k_sched := s2, k_machine := ?m\<lparr>mem := m3\<rparr>\<rparr> = sys_kernel y'"
    unfolding parts(6) by (rule kernel.equality) simp_all
  ultimately have "reachable hw (sys_kernel y')" by simp
  moreover have "state_of s2 p = (if p < 2 then TASKSTATE_ready else TASKSTATE_unused)" if "p < 128" for p
    using that t less_2_cases_iff [of p] by (auto simp: s2 state_of_def nth_list_update table_ok_def started_def)
  moreover have "r_eip (ts_registers (process_table s2 ! 0)) = razzle_entry e"
    "r_eip (ts_registers (process_table s2 ! 1)) = dazzle_entry e"
    using t(1) by (simp_all add: s2 table_ok_def started_def initialize_registers_def Let_def)
  moreover have "current_pid s2 = 129" by (simp add: s2 s)
  moreover have "\<forall>v < IDT_SIZE. idt t ! v = gate_of (boot_link e) v"
    using init_tables_gates [OF parts(1) assms(4)] .
  ultimately show ?thesis by (simp add: parts(6,7) interrupt_enable_def del: One_nat_def)
qed

section \<open>What the boot prints\<close>

definition blk_name :: "block_dev \<Rightarrow> u8 list" where
  "blk_name d = c_string (dev_name d)"

definition blk_text :: "block_dev \<Rightarrow> u8 list" where
  "blk_text d = bytes_of ''blk: '' @ int_text (sint (device_no d)) @ bytes_of '': '' @ blk_name d @
     bytes_of '' with capacity '' @ int_text (sint (num_sectors d * sector_size d)) @ bytes_of '' Bytes\<newline>''"

text \<open>The name in the array ends with a zero byte, and holds no backspace.\<close>

definition blk_named :: "block_dev \<Rightarrow> bool" where
  "blk_named d \<longleftrightarrow> 0 \<in> set (dev_name d) \<and> 8 \<notin> set (blk_name d) \<and> length (dev_name d) = 16"

lemma print_blk_writes:
  assumes "live_console hw m" and "\<not> bit (lock m) 0" and "i < min 128 (length ds)" and "blk_named (ds ! i)"
  shows "\<exists>m'. print_blk hw ds i m = ok m' \<and> writes hw (blk_text (ds ! i)) m m'"
proof -
  let ?d = "ds ! i"
  let ?args = "[Va_int (device_no ?d), Va_ptr (Const (dev_name ?d), 0), Va_int (num_sectors ?d * sector_size ?d)]"
  have c: "cstring (mem m) (Const (dev_name ?d), 0) (blk_name ?d)"
    unfolding blk_name_def using assms(4) by (intro c_string_cstring) (simp_all add: blk_named_def)
  have rd: "strings_at (\<lambda>_. blk_name ?d) ?args (mem m)" using c by (simp add: strings_at_def)
  have f: "fmt_text (\<lambda>_. blk_name ?d) (bytes_of ''blk: %d: %s with capacity %d Bytes\<newline>'') ?args =
      Some (blk_text ?d, True)"
    by (simp add: bytes_of_def conv_text_def blk_text_def)
  have p: "8 \<notin> set (blk_text ?d)"
    using assms(4) int_text_printable by (simp add: blk_text_def blk_named_def) (simp add: bytes_of_def)
  show ?thesis
    using printf_live [OF assms(1,2) _ _ rd f p] assms(3) by (simp add: print_blk_def Let_def bytes_of_def)
qed

lemma print_blks_writes:
  assumes "live_console hw m" and "\<not> bit (lock m) 0" and "n \<le> min 128 (length ds)" and "\<forall>i < n. blk_named (ds ! i)"
  shows "\<exists>m'. for_range 0 n (print_blk hw ds) m = ok m' \<and> writes hw (concat (map blk_text (take n ds))) m m'"
proof (rule for_range_inv [where P = "\<lambda>i s. writes hw (concat (map blk_text (take i ds))) m s"])
  show "writes hw (concat (map blk_text (take 0 ds))) m m" using assms(1) by (simp add: writes_def)
next
  fix i s assume i: "i < n" and w: "writes hw (concat (map blk_text (take i ds))) m s"
  then obtain s' where s': "print_blk hw ds i s = ok s'" "writes hw (blk_text (ds ! i)) s s'"
    using print_blk_writes [of hw s i ds] assms writes_lock [OF w] by (auto simp: writes_def)
  then show "\<exists>s'. print_blk hw ds i s = ok s' \<and> writes hw (concat (map blk_text (take (Suc i) ds))) m s'"
    using writes_trans [OF w s'(2)] i assms(3) by (simp add: take_Suc_conv_app_nth)
qed simp

text \<open>The line about ACPI, with the two strings that stand at the structure.\<close>

definition rsdp_text :: "(ptr \<Rightarrow> u8 list) \<Rightarrow> nat \<Rightarrow> u8 list" where
  "rsdp_text rd a = bytes_of ''acpi: RSDP Found [OEM: '' @ rd (padd (at (of_nat a)) 9) @ bytes_of '', SIG:  '' @
     rd (at (of_nat a)) @ bytes_of '']\<newline>''"

definition rsdp_plain :: "(ptr \<Rightarrow> u8 list) \<Rightarrow> mem \<Rightarrow> bool" where
  "rsdp_plain rd m \<longleftrightarrow>
     (\<forall>a < 0x100000. rsdp_valid m a \<longrightarrow> (\<forall>b < a. \<not> rsdp_valid m b) \<longrightarrow> rsdp_revision m a \<noteq> 2) \<and>
     strings_at rd [Va_ptr (padd (at (of_nat (rsdp_found_at m))) 9), Va_ptr (at (of_nat (rsdp_found_at m)))] m \<and>
     8 \<notin> set (rd (padd (at (of_nat (rsdp_found_at m))) 9)) \<and> 8 \<notin> set (rd (at (of_nat (rsdp_found_at m))))"

lemma find_rsdp_writes:
  assumes "live_console hw k" and "rsdp_plain rd (mem k)"
  shows "\<exists>k'. find_rsdp hw k = ok k' \<and> writes hw (rsdp_text rd (rsdp_found_at (mem k))) k k'"
proof -
  let ?a = "rsdp_found_at (mem k)"
  let ?args = "[Va_ptr (padd (at (of_nat ?a)) 9), Va_ptr (at (of_nat ?a))]"
  have f: "fmt_text rd (bytes_of ''acpi: RSDP Found [OEM: %s, SIG:  %s]\<newline>'') ?args = Some (rsdp_text rd ?a, True)"
    by (simp add: bytes_of_def conv_text_def rsdp_text_def)
  have p: "8 \<notin> set (rsdp_text rd ?a)"
    using assms(2) by (simp add: rsdp_plain_def rsdp_text_def) (simp add: bytes_of_def)
  have rd: "strings_at rd ?args (mem k)" using assms(2) by (simp only: rsdp_plain_def)
  have eq: "find_rsdp hw k = printf_nolock hw (lit ''acpi: RSDP Found [OEM: %s, SIG:  %s]\<newline>'') ?args k"
    using assms(2) by (intro find_rsdp_eq) (simp add: rsdp_plain_def)
  show ?thesis
    unfolding eq by (rule printf_nolock_live [OF assms(1) _ _ rd f p]) (simp_all add: bytes_of_def)
qed

section \<open>The boot returns\<close>

lemma init_tables_returns:
  assumes "length (gdt t0) = GDT_SIZE"
  shows "\<exists>l t. init_tables e (m, t0) = ok (m\<lparr>io_log := l\<rparr>, t) \<and> com1_sent l = com1_sent (io_log m)"
proof -
  let ?t = "t0\<lparr>t_log := io_log m\<rparr>"
  have len: "length (gdt ?t) = GDT_SIZE" using assms by simp
  obtain t1 t' where "init_gdt (boot_link e) ?t = ok t1" "arch_init (boot_link e) ?t = ok t'"
    "t_log t' = remap_irq (Lidt 2047 (idt_addr (boot_link e)) # t_log t1)"
    using arch_init_eq [OF len, of "boot_link e"] by blast
  then show ?thesis
    using init_gdt_eq [OF len, of "boot_link e"] by (auto simp: init_tables_def remap_irq_def outb_def)
qed

lemma RAMBLK_init_returns:
  "\<exists>m'. RAMBLK__init reg (m, b) = ok (m', reg RAMBLK__device b) \<and>
    (\<forall>b. b \<noteq> Ramfs_blocks \<longrightarrow> m' b = m b)"
proof -
  have "memset ramfs_blocks 0 RAMFS_BYTES m = ok (upd_bytes m ramfs_blocks (unat RAMFS_BYTES) (\<lambda>_. 0))"
    by (rule memset_upd) (simp_all add: valid_def ramfs_blocks_def)
  then show ?thesis
    by (auto simp: RAMBLK__init_def upd_bytes_other ramfs_blocks_def simp del: mult_numeral_1)
qed

lemma kernel_main_runs:
  fixes y :: "'b system"
  defines "m \<equiv> k_machine (sys_kernel y)"
  assumes bus: "answers (boot_hw e) cfg" "good_table ls" "\<And>bus slot. stale_ok (boot_stale e bus slot)" "boot_ids e = file_of ls"
    and list: "length (pci_devices_list (k_pci (sys_kernel y))) = PCI_MAX_DEVICES"
      "pci_devices_count (k_pci (sys_kernel y)) = 0" "length (devices_on cfg ls (boot_stale e) slots) \<le> PCI_MAX_DEVICES"
    and con: "live_console (boot_hw e) m" "\<not> bit (lock m) 0" "rsdp_plain rd (mem m)"
    and len: "length (process_table (k_sched (sys_kernel y))) = MAX_PROCESSES"
      "length (ps2_waiters (k_ps2 (sys_kernel y))) = MAX_PROCESSES" "length (gdt (sys_tables y)) = GDT_SIZE"
    and blks: "BLK__get_block_devices blk 128 (BLK__register_device blk RAMBLK__device (BLK__init blk (sys_blk y))) = (ds, cnt)"
      "unat cnt \<le> min 128 (length ds)" "\<forall>i < unat cnt. blk_named (ds ! i)"
  shows "\<exists>y'. kernel_main e blk y = ok y' \<and>
    k_pci (sys_kernel y') = with_devices (devices_on cfg ls (boot_stale e) slots) (k_pci (sys_kernel y)) \<and>
    com1_sent (io_log (k_machine (sys_kernel y'))) =
      com1_sent (serial_init (outb 0x3D5 0x20 (outb 0x3D4 0x0A (io_log m)))) @
      rsdp_text rd (rsdp_found_at (mem m)) @ devices_text cfg ls (boot_stale e) slots @
      concat (map blk_text (take (unat cnt) ds)) \<and>
    live_console (boot_hw e) (k_machine (sys_kernel y')) \<and> lock (k_machine (sys_kernel y')) = lock m"
proof -
  let ?hw = "boot_hw e" and ?k = "sys_kernel y"
  define l0 where "l0 = serial_init (outb 0x3D5 0x20 (outb 0x3D4 0x0A (io_log m)))"
  have c0: "live_console ?hw (m\<lparr>io_log := l0\<rparr>)" "rsdp_plain rd (mem (m\<lparr>io_log := l0\<rparr>))" using con by simp_all
  obtain m1 where m1: "find_rsdp ?hw (m\<lparr>io_log := l0\<rparr>) = ok m1"
    "writes ?hw (rsdp_text rd (rsdp_found_at (mem m))) (m\<lparr>io_log := l0\<rparr>) m1"
    using find_rsdp_writes [OF c0] by auto
  let ?p = "with_devices (devices_on cfg ls (boot_stale e) slots) (k_pci ?k)"
  have "live_console ?hw m1" using m1(2) by (simp add: writes_def)
  then obtain m2 where m2: "pci_enumerate_devices ?hw (boot_ids e) (boot_stale e) (k_pci ?k, m1) = ok (?p, m2)"
    "writes ?hw (devices_text cfg ls (boot_stale e) slots) m1 m2"
    using enumerate_devices [where stale = "boot_stale e", OF bus(1-3), of m1 "k_pci ?k"] list by (auto simp: bus(4))
  then have "live_console ?hw m2" by (simp add: writes_def)
  then obtain m3 where m3: "VGA_clear_screen m2 = ok m3" "live_console ?hw m3" "screen_only m2 m3" "io_log m3 = io_log m2"
    using VGA_clear_screen_live by blast
  obtain l4 t where t: "init_tables e (m3\<lparr>io_log := interrupt_disable (io_log m3)\<rparr>, sys_tables y) =
      ok (m3\<lparr>io_log := l4\<rparr>, t)" "com1_sent l4 = com1_sent (io_log m3)"
    using init_tables_returns [OF len(3), of e "m3\<lparr>io_log := interrupt_disable (io_log m3)\<rparr>"]
    by (auto simp: interrupt_disable_def)
  have ok: "table_ok (k_sched ?k)" using len(1) by (simp add: table_ok_def)
  obtain s where s: "init_process_table (k_sched ?k) = ok s" "table_ok s"
    "\<forall>p < MAX_PROCESSES. state_of s p = TASKSTATE_unused"
    using init_process_table_eq [OF ok] len(1) by (auto simp: table_ok_def state_of_def)
  obtain d where d: "init_ps2 (k_ps2 ?k) = ok d" using init_ps2_eq [OF len(2)] by blast
  obtain mm where mm: "RAMBLK__init (BLK__register_device blk) (mem m3, BLK__init blk (sys_blk y)) =
      ok (mm, BLK__register_device blk RAMBLK__device (BLK__init blk (sys_blk y)))"
    using RAMBLK_init_returns [of "BLK__register_device blk" "mem m3" "BLK__init blk (sys_blk y)"] by auto
  let ?m5 = "m3\<lparr>io_log := l4, mem := mm\<rparr>"
  have "lock m3 = lock m" using m1(2) m2(2) m3(3) by (simp add: writes_def screen_only_def)
  with con(2) have "\<not> bit (lock m3) 0" by simp
  then obtain m6 where m6: "for_range 0 (unat cnt) (print_blk ?hw ds) ?m5 = ok m6"
    "writes ?hw (concat (map blk_text (take (unat cnt) ds))) ?m5 m6"
    using print_blks_writes [of ?hw ?m5 "unat cnt" ds] m3(2) blks(2,3) by auto
  obtain n1 n2 s1 s2 where st: "start_process (lit ''razzle'') (razzle_entry e) s (mem m6) = ok (s1, n1)"
    "start_process (lit ''dazzle'') (dazzle_entry e) s1 n1 = ok (s2, n2)"
    using start_two [OF s(2,3)] by blast
  have "kernel_main e blk y = ok \<lparr>sys_kernel = ?k\<lparr>k_machine := m6\<lparr>mem := n2, io_log := interrupt_enable (io_log m6)\<rparr>,
      k_sched := s2, k_ps2 := d, k_pci := ?p\<rparr>, sys_tables = t,
      sys_blk = BLK__register_device blk RAMBLK__device (BLK__init blk (sys_blk y))\<rparr>"
    using m1(1) m2(1) m3(1) t(1) s(1) d mm m6(1) st
    by (simp add: kernel_main_def Let_def m_def [symmetric] l0_def [symmetric] blks(1))
  moreover have "com1_sent (io_log m6) = com1_sent l0 @ rsdp_text rd (rsdp_found_at (mem m)) @
      devices_text cfg ls (boot_stale e) slots @ concat (map blk_text (take (unat cnt) ds))"
    using m6(2) t(2) m3(4) m2(2) m1(2) by (simp add: writes_def)
  moreover have "live_console ?hw m6" "lock m6 = lock m"
    using m6(2) writes_lock [OF m6(2)] \<open>lock m3 = lock m\<close> by (simp_all add: writes_def)
  ultimately show ?thesis by (auto simp: l0_def interrupt_enable_def)
qed

section \<open>Panic\<close>

definition fault_line :: "u32 \<Rightarrow> u8 list" where
  "fault_line n =
     (if n = 0 then bytes_of ''Error: Divide by Zero\<newline>''
      else if n = 6 then bytes_of ''Error: Illegal instruction\<newline>''
      else if n = 8 then bytes_of ''Error: Double Fault (Ignoring)\<newline>''
      else if n = 13 then bytes_of ''Error: General Protection Fault at\<newline>''
      else bytes_of ''Error: Unknown (no: '' @ int_text (sint n) @ bytes_of '')\<newline>'')"

definition panic_text :: "regs \<Rightarrow> u32 \<Rightarrow> u32 \<Rightarrow> u8 list" where
  "panic_text r v pid =
     bytes_of ''!!! Kernel Panic !!!\<newline>'' @ fault_line (r_int_no r) @
     (bytes_of ''EIP: '' @ hex_text (r_eip r) @ [10]) @ (bytes_of ''ESPv: '' @ hex_text v @ [10]) @
     (bytes_of ''ESP : '' @ hex_text (r_esp r) @ [10]) @ [10] @
     (bytes_of ''RAZZLE Debugger: Process Table | current pid: '' @ uint_text (unat pid) @ [10])"

lemma load32_same:
  assumes "\<forall>i \<in> {0, 1, 2, 3}. m' Phys (a + i) = m Phys (a + i)"
  shows "load32 m' (Phys, a) = load32 m (Phys, a)"
  using assms by (simp add: load32_def load_def unat_u32_less)

lemma outputs_hex:
  assumes "pre \<in> {''EIP: '', ''ESPv: '', ''ESP : ''}"
  shows "outputs hw (printf hw (lit (pre @ ''%x\<newline>'')) [Va_int x]) (bytes_of pre @ hex_text x @ [10])"
proof -
  have f: "fmt_text (\<lambda>_. []) (bytes_of (pre @ ''%x\<newline>'')) (map Va_int [x]) =
      Some (bytes_of pre @ hex_text x @ [10], True)"
    using assms by (auto simp: bytes_of_def conv_text_def)
  have p: "8 \<notin> set (bytes_of pre @ hex_text x @ [10])" "0 \<notin> set (bytes_of (pre @ ''%x\<newline>''))"
      "length (pre @ ''%x\<newline>'') < 4294967295"
    using assms by (auto simp: numbers_printable) (auto simp: bytes_of_def)
  show ?thesis using outputs_numbers [OF p(2,3) f p(1)] by simp
qed

lemma outputs_fault_name: "outputs hw (fault_name hw n) (fault_line n)"
proof -
  have f: "fmt_text (\<lambda>_. []) (bytes_of ''Error: Unknown (no: %d)\<newline>'') (map Va_int [n]) =
      Some (bytes_of ''Error: Unknown (no: '' @ int_text (sint n) @ bytes_of '')\<newline>'', True)"
    by (simp add: bytes_of_def conv_text_def)
  have "outputs hw (printf hw (lit ''Error: Unknown (no: %d)\<newline>'') (map Va_int [n]))
      (bytes_of ''Error: Unknown (no: '' @ int_text (sint n) @ bytes_of '')\<newline>'')"
    by (rule outputs_numbers [OF _ _ f]) (simp add: bytes_of_def, simp, simp add: numbers_printable, simp add: bytes_of_def)
  moreover have "outputs hw (printf hw (lit l) []) (bytes_of l)"
    if "l \<in> {''Error: Divide by Zero\<newline>'', ''Error: Illegal instruction\<newline>'',
      ''Error: Double Fault (Ignoring)\<newline>'', ''Error: General Protection Fault at\<newline>''}" for l
    using that by (intro outputs_line) (auto simp: bytes_of_def)
  ultimately show ?thesis by (simp add: outputs_def fault_name_def fault_line_def)
qed

lemma process_debug_empty:
  assumes "live_console hw m" and "table_ok s" and "\<forall>p < MAX_PROCESSES. state_of s p = TASKSTATE_unused"
  shows "\<exists>m'. process_debug hw s m = ok m' \<and> writes hw
    (bytes_of ''RAZZLE Debugger: Process Table | current pid: '' @ uint_text (unat (current_pid s)) @ [10]) m m'"
proof -
  let ?fmt = "''RAZZLE Debugger: Process Table | current pid: %u\<newline>''"
  let ?t = "bytes_of ''RAZZLE Debugger: Process Table | current pid: '' @ uint_text (unat (current_pid s)) @ [10]"
  have f: "fmt_text (\<lambda>_. []) (bytes_of ?fmt) [Va_int (current_pid s)] = Some (?t, True)"
    by (simp add: bytes_of_def conv_text_def)
  have p: "8 \<notin> set ?t" by (simp add: numbers_printable) (simp add: bytes_of_def)
  obtain m' where m': "printf_nolock hw (lit ?fmt) [Va_int (current_pid s)] m = ok m'" "writes hw ?t m m'"
    using printf_nolock_live [OF assms(1) _ _ _ f p] by (auto simp: bytes_of_def strings_at_def)
  have "pt_get (process_table s) (of_nat i) = ok (process_table s ! i) \<and>
      ts_state (process_table s ! i) = TASKSTATE_unused" if "i < 128" for i
    using that assms(2,3) by (simp add: pt_get_def table_ok_def state_of_def)
  then have "for_range 0 128 (\<lambda>i k. bind_res (pt_get (process_table s) (of_nat i)) (\<lambda>t.
      if ts_state t \<noteq> TASKSTATE_unused then single_process_debug hw (of_nat i) s k else ok k)) m' = ok m'"
    by (intro for_range_exact [where F = "\<lambda>_. m'"]) simp_all
  with m' show ?thesis by (simp add: process_debug_def)
qed

lemma fault_report_writes:
  assumes "live_console hw m" and "\<not> bit (lock m) 0" and "table_ok s"
    and "\<forall>p < MAX_PROCESSES. state_of s p = TASKSTATE_unused"
    and "load32 (mem m) (Phys, r_esp r + 8) = ok v" and "\<forall>i \<in> {0, 1, 2, 3}. off_screen (r_esp r + 8 + i)"
  shows "\<exists>m'. fault_report hw r s m = ok m' \<and> live_console hw m' \<and> lock m' = lock m \<and>
    com1_sent (io_log m') = com1_sent (io_log m) @ panic_text r v (current_pid s)"
proof -
  obtain a where a: "VGA_clear_screen m = ok a" "live_console hw a" "screen_only m a" "io_log a = io_log m"
    "\<forall>x. off_screen x \<longrightarrow> mem a Phys x = mem m Phys x"
    using VGA_clear_screen_live [OF assms(1)] by blast
  then have la: "\<not> bit (lock a) 0" using assms(2) by (simp add: screen_only_def)
  have l: "outputs hw (printf hw (lit ''!!! Kernel Panic !!!\<newline>'') []) (bytes_of ''!!! Kernel Panic !!!\<newline>'')"
    "outputs hw (printf hw (lit ''\<newline>'') []) (bytes_of ''\<newline>'')"
    by (intro outputs_line; simp add: bytes_of_def)+
  have "outputs hw (process_debug hw s)
      (bytes_of ''RAZZLE Debugger: Process Table | current pid: '' @ uint_text (unat (current_pid s)) @ [10])"
    unfolding outputs_def using process_debug_empty assms(3,4) by blast
  note head = outputs_bind [OF l(1) outputs_bind [OF outputs_fault_name
      outputs_hex [of "''EIP: ''"]], of "r_int_no r" "r_eip r"]
    and tail = outputs_bind [OF outputs_hex [of "''ESPv: ''"] outputs_bind [OF outputs_hex [of "''ESP : ''"]
      outputs_bind [OF l(2) this]]]
  obtain d where d: "bind_res (printf hw (lit ''!!! Kernel Panic !!!\<newline>'') [] a) (\<lambda>s. bind_res (fault_name hw (r_int_no r) s)
      (printf hw (lit (''EIP: '' @ ''%x\<newline>'')) [Va_int (r_eip r)])) = ok d" "live_console hw d" "\<not> bit (lock d) 0"
    "writes hw (bytes_of ''!!! Kernel Panic !!!\<newline>'' @ fault_line (r_int_no r) @ bytes_of ''EIP: '' @ hex_text (r_eip r) @ [10]) a d"
    using head a(2) la by (rule outputsD) simp_all
  have "load32 (mem d) (Phys, r_esp r + 8) = load32 (mem m) (Phys, r_esp r + 8)"
    using assms(6) a(5) d(4) by (intro load32_same) (simp add: writes_def)
  then have v: "load32 (mem d) (Phys, r_esp r + 8) = ok v" using assms(5) by simp
  obtain h where h: "bind_res (printf hw (lit (''ESPv: '' @ ''%x\<newline>'')) [Va_int v] d) (\<lambda>x.
      bind_res (printf hw (lit (''ESP : '' @ ''%x\<newline>'')) [Va_int (r_esp r)] x) (\<lambda>t.
      bind_res (printf hw (lit ''\<newline>'') [] t) (process_debug hw s))) = ok h"
    "writes hw ((bytes_of ''ESPv: '' @ hex_text v @ [10]) @ (bytes_of ''ESP : '' @ hex_text (r_esp r) @ [10]) @
      bytes_of ''\<newline>'' @ bytes_of ''RAZZLE Debugger: Process Table | current pid: '' @
      uint_text (unat (current_pid s)) @ [10]) d h"
    using tail d(2,3) by (rule outputsD) simp_all
  have "fault_report hw r s m = ok h"
    using a(1) d(1) v h(1) by (auto simp: fault_report_def bind_res_eq_ok)
  moreover have "writes hw (panic_text r v (current_pid s)) a h"
    using writes_trans [OF d(4) h(2)] by (simp add: panic_text_def bytes_of_def [of "''\<newline>''"])
  ultimately show ?thesis
    using a(3,4) by (intro exI [of _ h]) (simp add: writes_def screen_only_def)
qed

section \<open>Properties\<close>

text \<open>A machine with one PCI device, and a registry of block devices that keeps a list.\<close>

definition demo_boot :: boot_env where
  "demo_boot = \<lparr>boot_hw = pci_hw one_device, boot_link = demo_link,
     boot_ids = file_of (map bytes_of (pci_ids_head @ pci_ids_long)), boot_stale = \<lambda>_ _. demo_device,
     razzle_entry = 0x200000, dazzle_entry = 0x200100\<rparr>"

definition list_registry :: "block_dev list blk_registry" where
  "list_registry = \<lparr>BLK__init = \<lambda>_. [], BLK__register_device = \<lambda>d ds. ds @ [d],
     BLK__get_block_devices = \<lambda>n ds. (take (unat n) ds, of_nat (length (take (unat n) ds)))\<rparr>"

definition demo_system :: "block_dev list system" where
  "demo_system = \<lparr>sys_kernel = (demo_kernel two_processes)\<lparr>k_machine := acpi_machine\<rparr>,
     sys_tables = empty_tables, sys_blk = []\<rparr>"

definition acpi_strings :: "ptr \<Rightarrow> u8 list" where
  "acpi_strings p = (if snd p = 0xF5A0 then bytes_of ''RSD PTR '' @ [0xE1] else [])"

lemma acpi_machine_string:
  "cstring (mem acpi_machine) (at 0xF5A0) (bytes_of ''RSD PTR '' @ [0xE1])"
  unfolding cstring_def
proof (intro conjI allI impI)
  fix k assume "k \<le> length (bytes_of ''RSD PTR '' @ [0xE1])"
  then have "k \<in> set [0..<10]" by (simp add: bytes_of_def)
  then show "peek (mem acpi_machine) (padd (at 0xF5A0) (of_nat k)) = ((bytes_of ''RSD PTR '' @ [0xE1]) @ [0]) ! k"
    by (auto simp: upt_rec at_def acpi_machine_def bytes_of_def)
qed (simp_all add: valid_def at_def bytes_of_def)

lemma demo_system_plain: "rsdp_plain acpi_strings (mem acpi_machine)"
proof -
  have "cstring (mem acpi_machine) (Phys, 0xF5A9) []"
    by (simp add: cstring_def valid_def acpi_machine_def)
  then show ?thesis
    using acpi_machine_string acpi_machine_revision
    by (simp add: rsdp_plain_def acpi_machine_found strings_at_def acpi_strings_def at_def bytes_of_def)
qed

lemma demo_system_runs:
  "answers (boot_hw demo_boot) one_device" "good_table (map bytes_of (pci_ids_head @ pci_ids_long))" "stale_ok (boot_stale demo_boot bus slot)"
  "boot_ids demo_boot = file_of (map bytes_of (pci_ids_head @ pci_ids_long))"
  "length (pci_devices_list (k_pci (sys_kernel demo_system))) = PCI_MAX_DEVICES"
  "pci_devices_count (k_pci (sys_kernel demo_system)) = 0"
  "length (devices_on one_device (map bytes_of (pci_ids_head @ pci_ids_long)) (boot_stale demo_boot) slots) \<le> PCI_MAX_DEVICES"
  "live_console (boot_hw demo_boot) (k_machine (sys_kernel demo_system))"
  "\<not> bit (lock (k_machine (sys_kernel demo_system))) 0"
  "rsdp_plain acpi_strings (mem (k_machine (sys_kernel demo_system)))"
  "length (process_table (k_sched (sys_kernel demo_system))) = MAX_PROCESSES"
  "length (ps2_waiters (k_ps2 (sys_kernel demo_system))) = MAX_PROCESSES"
  "length (gdt (sys_tables demo_system)) = GDT_SIZE"
  using pci_hw_ok demo_system_plain fresh_machine_ok(1)
  by (simp_all add: long_table [unfolded map_append] one_device_list(1) demo_boot_def stale_ok_def demo_device_def demo_system_def live_console_def vga_inv_def
      acpi_machine_def demo_kernel_def fresh_machine_def two_processes_def no_waiters_def empty_tables_def)

lemma demo_registry_device:
  "BLK__get_block_devices list_registry 128
     (BLK__register_device list_registry RAMBLK__device (BLK__init list_registry (sys_blk demo_system))) =
   ([RAMBLK__device], 1)" "blk_named RAMBLK__device"
  by (simp_all add: list_registry_def blk_named_def blk_name_def c_string_def RAMBLK__device_def bytes_of_def)

text \<open>
  C2: what a boot that reaches the idle loop has established, whatever the hardware answered: the state
  is one of those the invariant of all interrupts (and with it the properties of processes and keys)
  holds in; processes 0 and 1 are ready to start at their entry points and no other exists, none is
  chosen yet; the interrupt table has its gates; enabling the interrupts is the last thing done.
\<close>

lemma boot_state:
  assumes "kernel_main e blk y = ok y'"
    and "length (process_table (k_sched (sys_kernel y))) = MAX_PROCESSES"
    and "length (ps2_waiters (k_ps2 (sys_kernel y))) = MAX_PROCESSES" and "length (gdt (sys_tables y)) = GDT_SIZE"
  shows "reachable (boot_hw e) (sys_kernel y') \<and> current_pid (k_sched (sys_kernel y')) = 129 \<and>
    (\<forall>p < MAX_PROCESSES. state_of (k_sched (sys_kernel y')) p =
       (if p < 2 then TASKSTATE_ready else TASKSTATE_unused)) \<and>
    r_eip (ts_registers (process_table (k_sched (sys_kernel y')) ! 0)) = razzle_entry e \<and>
    r_eip (ts_registers (process_table (k_sched (sys_kernel y')) ! 1)) = dazzle_entry e \<and>
    (\<forall>v < IDT_SIZE. idt (sys_tables y') ! v = gate_of (boot_link e) v) \<and>
    hd (io_log (k_machine (sys_kernel y'))) = Sti"
  using assms by (rule boot_reaches)

lemma boot_state_witness:
  "\<exists>y'. kernel_main demo_boot list_registry demo_system = ok y' \<and> reachable (boot_hw demo_boot) (sys_kernel y') \<and>
    state_of (k_sched (sys_kernel y')) 1 = TASKSTATE_ready"
proof -
  obtain y' where y': "kernel_main demo_boot list_registry demo_system = ok y'"
    using kernel_main_runs [OF demo_system_runs demo_registry_device(1)] demo_registry_device(2) by auto
  with boot_state [OF y' demo_system_runs(11-13)] show ?thesis by (auto simp del: One_nat_def)
qed

text \<open>
  C18: the boot does reach the idle loop, whatever is on the PCI buses (up to 256 devices found): the devices
  are in the list, and COM1 gets the set-up bytes of the UART, the line about ACPI, two lines for each PCI
  device and one for each registered block device, with its number, its name and its capacity; the
  console still works and its lock is as it was. The conditions: the UART keeps accepting bytes, the
  cursor is inside the buffer and the lock free; the lines of the table of PCI names are readable
  (\<open>good_table\<close>: no line break or backspace in a line, no tab and fewer than 128 characters in a name);
  the name buffers have 128 characters; the ACPI structure found is not of revision 2, and the two strings
  printed from it end and have no backspace (\<open>rsdp_plain\<close>); the registry of block devices, which is not
  in the repository, returns at most 128 devices, each with a name that ends within its 16 characters and
  has no backspace (\<open>blk_named\<close>); the lists are empty and have their lengths.
\<close>

lemma boot_returns:
  assumes "answers (boot_hw e) cfg" and "good_table ls" and "\<And>bus slot. stale_ok (boot_stale e bus slot)"
    and "boot_ids e = file_of ls"
    and "length (pci_devices_list (k_pci (sys_kernel y))) = PCI_MAX_DEVICES" and "pci_devices_count (k_pci (sys_kernel y)) = 0"
    and "length (devices_on cfg ls (boot_stale e) slots) \<le> PCI_MAX_DEVICES"
    and "live_console (boot_hw e) (k_machine (sys_kernel y))" and "\<not> bit (lock (k_machine (sys_kernel y))) 0"
    and "rsdp_plain rd (mem (k_machine (sys_kernel y)))"
    and "length (process_table (k_sched (sys_kernel y))) = MAX_PROCESSES"
    and "length (ps2_waiters (k_ps2 (sys_kernel y))) = MAX_PROCESSES" and "length (gdt (sys_tables y)) = GDT_SIZE"
    and "BLK__get_block_devices blk 128 (BLK__register_device blk RAMBLK__device (BLK__init blk (sys_blk y))) = (ds, cnt)"
    and "unat cnt \<le> min 128 (length ds)" and "\<forall>i < unat cnt. blk_named (ds ! i)"
  shows "\<exists>y'. kernel_main e blk y = ok y' \<and>
    k_pci (sys_kernel y') = with_devices (devices_on cfg ls (boot_stale e) slots) (k_pci (sys_kernel y)) \<and>
    com1_sent (io_log (k_machine (sys_kernel y'))) =
      com1_sent (serial_init (outb 0x3D5 0x20 (outb 0x3D4 0x0A (io_log (k_machine (sys_kernel y)))))) @
      rsdp_text rd (rsdp_found_at (mem (k_machine (sys_kernel y)))) @ devices_text cfg ls (boot_stale e) slots @
      concat (map blk_text (take (unat cnt) ds)) \<and>
    live_console (boot_hw e) (k_machine (sys_kernel y')) \<and>
    lock (k_machine (sys_kernel y')) = lock (k_machine (sys_kernel y))"
  using assms by (rule kernel_main_runs)

lemma boot_returns_witness:
  "\<exists>y'. kernel_main demo_boot list_registry demo_system = ok y' \<and>
    pci_devices_count (k_pci (sys_kernel y')) = 1"
proof -
  obtain y' where "kernel_main demo_boot list_registry demo_system = ok y'"
    "k_pci (sys_kernel y') = with_devices (devices_on one_device (map bytes_of (pci_ids_head @ pci_ids_long)) (boot_stale demo_boot) slots)
       (k_pci (sys_kernel demo_system))"
    using boot_returns [OF demo_system_runs demo_registry_device(1)] demo_registry_device(2) by auto
  then show ?thesis using demo_system_runs(6) by (auto simp: with_devices_def one_device_list(1))
qed



end
