(* ===== verification/Boot_Listings.thy ===== *)
theory Boot_Listings
  imports Boot
begin

text \<open>
  From the boot to the shell: what the shell's two listings find in the tables that \<open>kernel_main\<close> leaves.
  The names of the two processes stand in their address spaces, the devices found on the buses are
  in the list, and all strings end and can be printed.
\<close>

section \<open>The names of the processes\<close>

definition boot_names :: "u32 \<Rightarrow> u8 list" where
  "boot_names a = (if a = space_base 0 then bytes_of ''razzle'' else bytes_of ''dazzle'')"

lemma space_bases: "space_base 0 \<noteq> space_base 1"
  using unat_space_base [of 0] unat_space_base [of 1] by auto

lemma name_written:
  assumes "p < MAX_PROCESSES" and "0 \<notin> set xs" and "length xs < 16"
  shows "cstring (upd_bytes m (Phys, space_base p) (Suc (length xs)) (\<lambda>k. (xs @ [0]) ! k)) (Phys, space_base p) xs"
  unfolding cstring_def
proof (intro conjI allI impI)
  show v: "valid (Phys, space_base p) (Suc (length xs))" using assms by (intro valid_space) simp_all
  fix k assume "k \<le> length xs"
  then show "peek (upd_bytes m (Phys, space_base p) (Suc (length xs)) (\<lambda>k. (xs @ [0]) ! k)) (padd (Phys, space_base p) (of_nat k)) =
      (xs @ [0]) ! k"
    using peek_upd_bytes_in [OF v, of k] by simp
qed (rule assms(2))

lemma name_kept:
  assumes "cstring m (Phys, space_base p) xs" and "p < MAX_PROCESSES" and "q < MAX_PROCESSES" and "p \<noteq> q"
    and "length xs < 16" and "n \<le> 16"
  shows "cstring (upd_bytes m (Phys, space_base q) n f) (Phys, space_base p) xs"
proof -
  have "peek (upd_bytes m (Phys, space_base q) n f) (padd (Phys, space_base p) (of_nat k)) = peek m (padd (Phys, space_base p) (of_nat k))"
    if "k \<le> length xs" for k
  proof (rule peek_upd_bytes_out)
    show "disjoint (Phys, space_base q) n (Phys, space_base p) 16"
      using assms(2-4,6) by (auto simp: disjoint_def unat_space_base)
    show "valid (Phys, space_base q) n" "valid (Phys, space_base p) 16"
      using assms(2,3,6) by (intro valid_space; simp)+
    show "k < 16" using that assms(5) by simp
  qed simp
  then show ?thesis using assms(1) by (simp add: cstring_def)
qed

lemma name_off_screen:
  assumes "p < MAX_PROCESSES" and "k < 16"
  shows "off_screen (space_base p + of_nat k)"
proof -
  have "unat (space_base p + of_nat k) = 1000000 * (p + 6) + k"
    using assms by (simp add: unat_offset unat_space_base)
  then show ?thesis by (simp add: off_screen_def)
qed

text \<open>The memory after both processes were started.\<close>

lemma start_two_names:
  assumes "table_ok s" and "\<forall>p < MAX_PROCESSES. state_of s p = TASKSTATE_unused"
    and "start_process (lit ''razzle'') a s m = ok (s1, m1)" and "start_process (lit ''dazzle'') b s1 m1 = ok (s2, m2)"
  shows "cstring m2 (Phys, space_base 0) (bytes_of ''razzle'')" and "cstring m2 (Phys, space_base 1) (bytes_of ''dazzle'')"
    and "s2 = s\<lparr>process_table := (process_table s)[0 := started 0 a (process_table s ! 0), 1 := started 1 b (process_table s ! 1)]\<rparr>"
proof -
  let ?s = "s\<lparr>process_table := (process_table s)[0 := started 0 a (process_table s ! 0)]\<rparr>"
  obtain n1 n2 where two: "start_process (lit ''razzle'') a s m = ok (?s, n1)" "start_process (lit ''dazzle'') b ?s n1 =
      ok (s\<lparr>process_table := (process_table s)[0 := started 0 a (process_table s ! 0), 1 := started 1 b (process_table s ! 1)]\<rparr>, n2)"
    using start_two [OF assms(1,2), of a m b] by blast
  then show "s2 = s\<lparr>process_table := (process_table s)[0 := started 0 a (process_table s ! 0), 1 := started 1 b (process_table s ! 1)]\<rparr>"
    using assms(3,4) by simp
  have s1: "s1 = ?s" using two(1) assms(3) by simp
  have c: "cstring m (lit ''razzle'') (bytes_of ''razzle'')" "cstring m (lit ''dazzle'') (bytes_of ''dazzle'')" for m
    by (intro cstring_lit; simp add: bytes_of_def)+
  have d: "disjoint (Phys, space_base p) 16 (lit n) l" for p n l by (simp add: disjoint_def lit_def)
  have t: "table_ok ?s" using assms(1) by (simp add: table_ok_def)
  have st: "state_of ?s 0 = TASKSTATE_ready" "state_of ?s 1 = TASKSTATE_unused"
    using assms by (simp_all add: state_of_def started_def table_ok_def)
  have f0: "first_on_ring (\<lambda>p. state_of s p = TASKSTATE_unused) 0 0"
    unfolding first_on_ring_def by (intro exI [of _ 0]) (simp add: assms(2))
  have f1: "first_on_ring (\<lambda>p. state_of ?s p = TASKSTATE_unused) 0 1"
    unfolding first_on_ring_def using st by (intro exI [of _ 1]) (simp del: One_nat_def)
  let ?w = "\<lambda>m p xs. upd_bytes m (Phys, space_base p) (Suc (length xs)) (\<lambda>k. (xs @ [0]) ! k)"
  have len: "length (bytes_of ''razzle'') = 6" "length (bytes_of ''dazzle'') = 6" by (simp_all add: bytes_of_def)
  have m1: "m1 = ?w m 0 (bytes_of ''razzle'')"
    using start_process_eq [OF assms(1) f0 c(1) d, of a] assms(3) by (simp add: len)
  have m2: "m2 = ?w m1 1 (bytes_of ''dazzle'')"
    using start_process_eq [OF t f1 c(2) d, of b] assms(4) by (simp add: s1 len del: One_nat_def)
  have z: "0 \<notin> set (bytes_of ''razzle'')" "0 \<notin> set (bytes_of ''dazzle'')" by (simp_all add: bytes_of_def)
  show "cstring m2 (Phys, space_base 1) (bytes_of ''dazzle'')"
    unfolding m2 by (rule name_written) (simp_all add: z len)
  have "cstring m1 (Phys, space_base 0) (bytes_of ''razzle'')"
    unfolding m1 by (rule name_written) (simp_all add: z len)
  then show "cstring m2 (Phys, space_base 0) (bytes_of ''razzle'')"
    unfolding m2 by (rule name_kept) (simp_all add: len)
qed

section \<open>lsproc after the boot\<close>

lemma two_live:
  assumes "length ts = 128" and "\<forall>i < 128. unused (ts ! i)"
  shows "take 7 (live_tasks (ts[0 := started 0 a (ts ! 0), 1 := started 1 b (ts ! 1)])) =
    [started 0 a (ts ! 0), started 1 b (ts ! 1)]"
proof -
  obtain x y r where ts: "ts = x # y # r"
    using assms(1) that by (cases ts; cases "tl ts") auto
  have "unused z" if z: "z \<in> set r" for z
  proof -
    obtain i where "i < length r" "z = r ! i" using z by (auto simp: in_set_conv_nth)
    then show ?thesis using assms(2) [rule_format, of "Suc (Suc i)"] assms(1) by (simp add: ts)
  qed
  then have "live_tasks r = []" by (simp add: live_tasks_def filter_empty_conv)
  then show ?thesis by (simp add: ts live_tasks_def started_def)
qed

lemma boot_names_stand:
  assumes "kernel_main e blk y = ok y'" and "length (process_table (k_sched (sys_kernel y))) = MAX_PROCESSES"
  shows "table_ok (k_sched (sys_kernel y')) \<and> names_stand boot_names (k_sched (sys_kernel y')) (mem (k_machine (sys_kernel y'))) \<and>
    lsproc_text boot_names (k_sched (sys_kernel y')) = bytes_of ''R 0: razzle\<newline>R 1: dazzle\<newline>'' \<and>
    (\<forall>t \<in> set (listed_tasks (k_sched (sys_kernel y'))). ts_process_name t \<in> {space_base 0, space_base 1})"
proof -
  obtain m p t0 t s d m1 s1 m2 s2 m3 where parts:
    "init_process_table (k_sched (sys_kernel y)) = ok s"
    "start_process (lit ''razzle'') (razzle_entry e) s (mem m1) = ok (s1, m2)"
    "start_process (lit ''dazzle'') (dazzle_entry e) s1 m2 = ok (s2, m3)"
    "sys_kernel y' = (sys_kernel y)\<lparr>k_machine := m1\<lparr>mem := m3, io_log := interrupt_enable (io_log m1)\<rparr>,
       k_sched := s2, k_ps2 := d, k_pci := p\<rparr>"
    using assms(1) by (rule kernel_main_tail)
  have ok: "table_ok (k_sched (sys_kernel y))" using assms(2) by (simp add: table_ok_def)
  have s: "table_ok s" "\<forall>p < MAX_PROCESSES. state_of s p = TASKSTATE_unused"
    using parts(1) init_process_table_eq [OF ok] assms(2) by (auto simp: table_ok_def state_of_def)
  note two = start_two_names [OF s parts(2,3)]
  have len: "length (process_table s) = 128" using s(1) by (simp add: table_ok_def)
  have "\<forall>i < 128. unused (process_table s ! i)" using s(2) by (simp add: state_of_def)
  then have l: "listed_tasks s2 = [started 0 (razzle_entry e) (process_table s ! 0), started 1 (dazzle_entry e) (process_table s ! 1)]"
    unfolding listed_tasks_def two(3) using two_live [OF len] by simp
  have "name_stands boot_names m3 (space_base p)" if "p = 0 \<or> p = 1" for p
    using that two(1,2) space_bases name_off_screen [of p] by (auto simp: name_stands_def boot_names_def bytes_of_def)
  then have "names_stand boot_names s2 m3" by (simp add: names_stand_def l started_def)
  moreover have "lsproc_text boot_names s2 = bytes_of ''R 0: razzle\<newline>R 1: dazzle\<newline>''"
    using space_bases by (simp add: lsproc_text_def l task_reply_def started_def state_letter_def boot_names_def bytes_of_def
        int_text_def uint_text_def dec_digits.simps digit_char_def upt_rec)
  moreover have "table_ok s2" using len by (simp add: two(3) table_ok_def)
  ultimately show ?thesis by (simp add: parts(4) l started_def)
qed

section \<open>lspci after the boot\<close>

lemma devices_on_parts:
  assumes "good_table ls" and "\<And>bus slot. stale_ok (stale bus slot)" and "d \<in> set (devices_on cfg ls stale xs)"
  shows "plain_name (vendor_name d)" and "plain_name (device_name d)" and "length (bar d) = 6"
proof -
  obtain b s where d: "d = device_at cfg ls (stale b s) b s"
    using assms(3) by (auto simp: devices_on_def)
  show "plain_name (vendor_name d)" and "plain_name (device_name d)"
    unfolding d using device_at_parts [OF assms(1) assms(2)] by blast+
  show "length (bar d) = 6" by (simp add: d device_at_def Let_def)
qed

lemma with_devices_listed:
  assumes "good_table ls" and "\<And>bus slot. stale_ok (stale bus slot)"
    and "length (pci_devices_list p) = PCI_MAX_DEVICES" and "pci_devices_count p = 0"
    and "length (devices_on cfg ls stale slots) \<le> PCI_MAX_DEVICES"
  defines "ds \<equiv> devices_on cfg ls stale slots"
  shows "listed_ok (with_devices ds p)" and "lspci_text (with_devices ds p) = concat (map device_reply (take 7 ds))"
proof -
  have n: "unat (pci_devices_count (with_devices ds p)) = length ds"
    using assms(4,5) by (simp add: with_devices_def ds_def unat_of_nat take_bit_nat_eq_self)
  have at: "pci_devices_list (with_devices ds p) ! i = ds ! i" if "i < length ds" for i
    using that assms(4) by (simp add: with_devices_def nth_append)
  have "length (pci_devices_list (with_devices ds p)) = PCI_MAX_DEVICES"
    using assms(3-5) by (simp add: with_devices_def ds_def)
  moreover have "plain_name (vendor_name (ds ! i)) \<and> plain_name (device_name (ds ! i)) \<and> length (bar (ds ! i)) = 6"
    if "i < length ds" for i
    using devices_on_parts [where stale = stale, OF assms(1,2)] nth_mem [OF that] unfolding ds_def by blast
  moreover have "length ds \<le> PCI_MAX_DEVICES" using assms(5) by (simp add: ds_def)
  ultimately show "listed_ok (with_devices ds p)" unfolding listed_ok_def n using at by simp
  have "map (\<lambda>j. device_reply (pci_devices_list (with_devices ds p) ! j)) [0..<min 7 (length ds)] = map device_reply (take 7 ds)"
    by (rule nth_equalityI) (simp_all add: at min.commute)
  then show "lspci_text (with_devices ds p) = concat (map device_reply (take 7 ds))" by (simp add: lspci_text_def n)
qed

section \<open>Properties\<close>

text \<open>
  C20: after any boot that reaches the idle loop, with the console alive and its lock free, and after any
  number of timer interrupts, the shell's \<open>lsproc\<close> returns and sends to COM1 the two processes the boot
  started, ready, under their numbers and the names that stand in their spaces, and nothing else.
\<close>

lemma boot_processes_listed:
  assumes "kernel_main e blk y = ok y'" and "length (process_table (k_sched (sys_kernel y))) = MAX_PROCESSES"
    and "live_console (boot_hw e) (k_machine (sys_kernel y'))" and "\<not> bit (lock (k_machine (sys_kernel y'))) 0"
    and "ticks rs (r, k_sched (sys_kernel y')) = ok (r', s)"
  shows "\<exists>k'. sh_lsproc (boot_hw e) env ((sys_kernel y')\<lparr>k_sched := s\<rparr>) = ok k' \<and> k_sched k' = s \<and>
    com1_sent (io_log (k_machine k')) =
      com1_sent (io_log (k_machine (sys_kernel y'))) @ bytes_of ''R 0: razzle\<newline>R 1: dazzle\<newline>''"
proof -
  let ?s = "k_sched (sys_kernel y')" and ?k = "(sys_kernel y')\<lparr>k_sched := s\<rparr>"
  note names = boot_names_stand [OF assms(1,2)]
  then have t: "table_ok ?s" by simp
  note same = ticks_listing [OF t assms(5)]
  have free: "live_free (boot_hw e) ?k" using assms(3,4) by (simp add: live_free_def)
  have "8 \<notin> set (boot_names a)" for a by (simp add: boot_names_def bytes_of_def)
  then obtain k' where k': "sh_lsproc (boot_hw e) env ?k = ok k'" "sends (boot_hw e) (lsproc_text boot_names (k_sched ?k)) ?k k'"
    using sent.lsproc_prints [OF free, of boot_names env] names same_listing_ok [OF same] listing_stands [OF same] by auto
  then show ?thesis
    using names listing_text [OF same, of boot_names] by (simp add: sends_def writes_def)
qed

lemma boot_processes_listed_witness:
  "\<exists>y' k'. kernel_main demo_boot list_registry demo_system = ok y' \<and> sh_lsproc (boot_hw demo_boot) demo_env (sys_kernel y') = ok k' \<and>
    com1_sent (io_log (k_machine k')) =
      com1_sent (io_log (k_machine (sys_kernel y'))) @ bytes_of ''R 0: razzle\<newline>R 1: dazzle\<newline>''"
proof -
  obtain y' where y': "kernel_main demo_boot list_registry demo_system = ok y'"
    "live_console (boot_hw demo_boot) (k_machine (sys_kernel y'))" "\<not> bit (lock (k_machine (sys_kernel y'))) 0"
    using kernel_main_runs [OF demo_system_runs demo_registry_device(1)] demo_registry_device(2) demo_system_runs(9) by auto
  have "(sys_kernel y')\<lparr>k_sched := k_sched (sys_kernel y')\<rparr> = sys_kernel y'" by simp
  then show ?thesis
    using boot_processes_listed [OF y'(1) demo_system_runs(11) y'(2,3), of "[]" demo_regs demo_regs "k_sched (sys_kernel y')" demo_env] y'(1)
    by auto
qed

text \<open>
  C19: the list of devices the boot leaves is well-formed: the count is within the list, and every counted
  entry has six base addresses and two names that end inside their buffers and hold no backspace. And
  the shell's \<open>lspci\<close>, whatever processes run then, returns and sends to COM1 the first seven of the
  devices found on the buses, with their names, class, numbers and base address 5, and nothing else.
  The conditions on the boot: the UART keeps accepting bytes, the cursor is inside the buffer and the lock
  free; the lines of the table of PCI names are readable (\<open>good_table\<close>) and the name buffers have 128
  characters; at most 256 devices are found; the ACPI structure is not of revision 2 and its two strings
  can be printed; the registry of block devices returns at most 128, with names that end and can be
  printed; the lists are empty and have their lengths.
\<close>

lemma boot_devices_listed:
  assumes "kernel_main e blk y = ok y'"
    and "answers (boot_hw e) cfg" and "good_table ls" and "\<And>bus slot. stale_ok (boot_stale e bus slot)"
    and "boot_ids e = file_of ls"
    and "length (pci_devices_list (k_pci (sys_kernel y))) = PCI_MAX_DEVICES" and "pci_devices_count (k_pci (sys_kernel y)) = 0"
    and "length (devices_on cfg ls (boot_stale e) slots) \<le> PCI_MAX_DEVICES"
    and "live_console (boot_hw e) (k_machine (sys_kernel y))" and "\<not> bit (lock (k_machine (sys_kernel y))) 0"
    and "rsdp_plain rd (mem (k_machine (sys_kernel y)))"
    and "length (process_table (k_sched (sys_kernel y))) = MAX_PROCESSES"
    and "length (ps2_waiters (k_ps2 (sys_kernel y))) = MAX_PROCESSES" and "length (gdt (sys_tables y)) = GDT_SIZE"
    and "BLK__get_block_devices blk 128 (BLK__register_device blk RAMBLK__device (BLK__init blk (sys_blk y))) = (ds, cnt)"
    and "unat cnt \<le> min 128 (length ds)" and "\<forall>i < unat cnt. blk_named (ds ! i)"
  shows "listed_ok (k_pci (sys_kernel y')) \<and>
    (\<exists>k'. sh_lspci (boot_hw e) env ((sys_kernel y')\<lparr>k_sched := s\<rparr>) = ok k' \<and> k_sched k' = s \<and>
       com1_sent (io_log (k_machine k')) = com1_sent (io_log (k_machine (sys_kernel y'))) @
         concat (map device_reply (take 7 (devices_on cfg ls (boot_stale e) slots))))"
proof -
  let ?k = "(sys_kernel y')\<lparr>k_sched := s\<rparr>"
  have run: "k_pci (sys_kernel y') = with_devices (devices_on cfg ls (boot_stale e) slots) (k_pci (sys_kernel y))"
    "live_console (boot_hw e) (k_machine (sys_kernel y'))" "lock (k_machine (sys_kernel y')) = lock (k_machine (sys_kernel y))"
    using kernel_main_runs [OF assms(2-17)] assms(1) by auto
  note listed = with_devices_listed [where stale = "boot_stale e", OF assms(3,4,6-8), folded run(1)]
  have free: "live_free (boot_hw e) ?k" using run(2,3) assms(10) by (simp add: live_free_def)
  obtain k' where "sh_lspci (boot_hw e) env ?k = ok k'" "sends (boot_hw e) (lspci_text (k_pci ?k)) ?k k'"
    using sent.lspci_prints [OF free, of env] listed(1) by auto
  then show ?thesis using listed by (simp add: sends_def writes_def)
qed

lemma boot_devices_listed_witness:
  "\<exists>y' k'. kernel_main demo_boot list_registry demo_system = ok y' \<and> listed_ok (k_pci (sys_kernel y')) \<and>
    sh_lspci (boot_hw demo_boot) demo_env (sys_kernel y') = ok k'"
proof -
  have named: "unat (1 :: u32) \<le> min 128 (length [RAMBLK__device])" "\<forall>i < unat (1 :: u32). blk_named ([RAMBLK__device] ! i)"
    using demo_registry_device(2) by simp_all
  obtain y' where y': "kernel_main demo_boot list_registry demo_system = ok y'"
    using kernel_main_runs [OF demo_system_runs demo_registry_device(1) named] by auto
  have "(sys_kernel y')\<lparr>k_sched := k_sched (sys_kernel y')\<rparr> = sys_kernel y'" by simp
  then show ?thesis
    using boot_devices_listed [OF y' demo_system_runs demo_registry_device(1) named, of demo_env "k_sched (sys_kernel y')"] y' by auto
qed

end
