(* ===== verification/Fairness.thy ===== *)
theory Fairness
  imports Delivery
begin

text \<open>
  No process starves. \<open>distance\<close> is how far round the table the scheduler has to go from the running
  process to a given one. Every search for the next process that does not find that one shortens its
  distance, whatever interrupt asked for it (the timer, \<open>yield\<close>, \<open>getc\<close> or \<open>exit\<close> of the process that
  runs), and no other interrupt changes it.
\<close>

section \<open>The distance round the table\<close>

definition distance :: "nat \<Rightarrow> sched \<Rightarrow> nat" where
  "distance p s = (p + MAX_PROCESSES - after_current s) mod MAX_PROCESSES"

lemma after_current_less: "after_current s < MAX_PROCESSES"
  by (simp add: after_current_def)

lemma distance_less: "distance p s < MAX_PROCESSES"
  by (simp add: distance_def)

lemma distance_eqI:
  assumes "g < MAX_PROCESSES" and "p = (after_current s + g) mod MAX_PROCESSES"
  shows "distance p s = g"
proof -
  have a: "after_current s < 128" by (rule after_current_less)
  show ?thesis
  proof (cases "after_current s + g < 128")
    case True
    then show ?thesis using assms a by (simp add: distance_def)
  next
    case False
    then have "p = after_current s + g - 128" using assms a by (simp add: le_mod_geq)
    then show ?thesis using False assms(1) by (simp add: distance_def)
  qed
qed

text \<open>A switch to another process brings \<open>p\<close> nearer.\<close>

lemma schedule_nearer:
  assumes "table_ok s" and "p < MAX_PROCESSES" and "ready s p"
    and "schedule r s = ok (r', s')" and "unat (current_pid s') \<noteq> p"
  shows "distance p s' < distance p s"
proof -
  let ?a = "after_current s"
  obtain q where q: "first_on_ring (ready s) ?a q" "s' = (saved r s)\<lparr>current_pid := of_nat q\<rparr>"
    using assms(1,4) by (rule schedule_cases)
  then obtain k where k: "q = (?a + k) mod 128" "\<forall>j < k. \<not> ready s ((?a + j) mod 128)"
    by (auto simp: first_on_ring_def)
  have q128: "q < 128" using k(1) by simp
  obtain g where g: "g < 128" "p = (?a + g) mod 128" using assms(2) by (rule ring_offset)
  have "q \<noteq> p" using assms(5) q(2) q128 by auto
  then have "k < g" using k g(2) assms(3) by (metis linorder_neqE_nat)
  have "after_current s' = Suc q mod 128"
    using q128 unat_offset [of "of_nat q" 1] by (simp add: after_current_def q(2))
  then have "(after_current s' + (g - Suc k)) mod 128 = (?a + (k + 1 + (g - Suc k))) mod 128"
    unfolding k(1) by (simp add: mod_simps add.assoc)
  then have "p = (after_current s' + (g - Suc k)) mod 128" using \<open>k < g\<close> g(2) by simp
  then have "distance p s' = g - Suc k" using g(1) by (intro distance_eqI) auto
  moreover have "distance p s = g" using g by (rule distance_eqI)
  ultimately show ?thesis using \<open>k < g\<close> by simp
qed

text \<open>The distance depends on the running process only.\<close>

lemma distance_cong: "current_pid s' = current_pid s \<Longrightarrow> distance p s' = distance p s"
  by (simp add: distance_def after_current_def)

section \<open>Every interrupt\<close>

text \<open>A ready process that is not running stays ready, and comes no farther away.\<close>

lemma effect_turn:
  assumes "kinv k" and "has_effect e r k k'" and "p < MAX_PROCESSES" and "ready (k_sched k) p"
    and "unat (current_pid (k_sched k)) \<noteq> p" and "unat (current_pid (k_sched k')) \<noteq> p"
  shows "ready (k_sched k') p" and "distance p (k_sched k') \<le> distance p (k_sched k)"
    and "e = Switch \<Longrightarrow> distance p (k_sched k') < distance p (k_sched k)"
proof -
  let ?s = "k_sched k" and ?s' = "k_sched k'" and ?d = "k_ps2 k"
  have inv: "procs_inv ?d ?s" "current_ok ?s" "table_ok ?s" "waiters_ok ?d"
    using assms(1) by (simp_all add: kinv_def procs_inv_def)
  have switch: "ready ?s' p \<and> distance p ?s' < distance p ?s"
    if sch: "schedule r s = ok (r', ?s')" and s: "table_ok s" "ready s p" "current_pid s = current_pid ?s" for s r'
    using schedule_nearer [OF s(1) assms(3) s(2) sch assms(6)] schedule_keeps(2) [OF s(1) sch] s(2)
      distance_cong [OF s(3), of p] by simp
  have given_up: "table_ok (with_state st ?s)" "ready (with_state st ?s) p" "current_pid (with_state st ?s) = current_pid ?s"
    if "unat (current_pid ?s) < 128" for st
    using that inv(3) assms(3-5) by (simp_all add: state_of_with_state)
  note eff = assms(2) [unfolded has_effect_def]
  have "ready ?s' p \<and> distance p ?s' \<le> distance p ?s \<and> (e = Switch \<longrightarrow> distance p ?s' < distance p ?s)"
  proof (cases e)
    case Quiet
    with eff assms(4) show ?thesis by simp
  next
    case Switch
    with eff obtain r' where "schedule r ?s = ok (r', ?s')" by auto
    from switch [OF this inv(3) assms(4) refl] show ?thesis by simp
  next
    case Getc
    with eff obtain r' where c: "unat (current_pid ?s) < 128"
      and g: "syscall_getc r (?d, ?s) = ok (r', k_ps2 k', ?s')" by auto
    have "ready ?s (unat (current_pid ?s))" using inv(2) c by (auto simp: current_ok_def)
    then obtain d1 where "syscall_getc r (?d, ?s) =
        bind_res (schedule r (with_state TASKSTATE_blocked ?s)) (\<lambda>(r, s). ok (r, d1, s))"
      using getc_blocks [OF inv(1) c] by blast
    with g have "schedule r (with_state TASKSTATE_blocked ?s) = ok (r', ?s')"
      by (auto simp: bind_res_eq_ok)
    from switch [OF this given_up [OF c]] Getc show ?thesis by simp
  next
    case Exit
    with eff obtain r' where c: "unat (current_pid ?s) < 128" and "syscall_exit r ?s = ok (r', ?s')" by auto
    then have "schedule r (with_state TASKSTATE_unused ?s) = ok (r', ?s')"
      using inv(3) by (simp add: syscall_exit_def pt_update_state syscall_yield_def)
    from switch [OF this given_up [OF c]] Exit show ?thesis by simp
  next
    case (Typed c)
    with eff have key: "handle_keypress_char c (?d, ?s) = ok (k_ps2 k', ?s')" by simp
    show ?thesis
    proof (cases "c = 0")
      case True
      with key Typed assms(4) show ?thesis by (simp add: handle_keypress_char_0)
    next
      case False
      then have s': "?s' = ?s\<lparr>process_table := wake_all c (waits ?d) (process_table ?s)\<rparr>"
        using key inv by (simp add: handle_keypress_char_eq)
      then have "ready ?s' p" using assms(3,4) inv(3) wake_ready
        by (simp add: state_of_def table_ok_def wake_all_nth)
      moreover have "distance p ?s' = distance p ?s" by (rule distance_cong) (simp add: s')
      ultimately show ?thesis using Typed by simp
    qed
  qed
  then show "ready ?s' p" "distance p ?s' \<le> distance p ?s" "e = Switch \<Longrightarrow> distance p ?s' < distance p ?s"
    by simp_all
qed

lemma timer_switches:
  assumes "irq_handler hw r k = ok (r', k')" and "r_int_no r = IRQCODE_PIT"
  shows "has_effect Switch r k k'"
  using assms by (auto simp: irq_handler_def bind_res_eq_ok has_effect_def)

lemma timer_returns:
  assumes "kinv k" and "p < MAX_PROCESSES" and "ready (k_sched k) p" and "r_int_no r = IRQCODE_PIT"
  shows "\<exists>x. irq_handler hw r k = ok x"
proof -
  have t: "table_ok (k_sched k)" using assms(1) by (simp add: kinv_def procs_inv_def)
  obtain q where "first_on_ring (ready (k_sched k)) (after_current (k_sched k)) q"
    using first_on_ring_exists [of "ready (k_sched k)"] assms(2,3) by blast
  from schedule_eq [OF t this, of r] show ?thesis using assms(4) by (simp add: irq_handler_def)
qed

text \<open>
  \<open>passed_over hw p n k k'\<close>: from \<open>k\<close> to \<open>k'\<close> interrupts of every kind happened, \<open>n\<close> of them from the
  timer, and after none of them \<open>p\<close> was running. All the running processes' system calls are among them.
\<close>

inductive passed_over :: "hw \<Rightarrow> nat \<Rightarrow> nat \<Rightarrow> kernel \<Rightarrow> kernel \<Rightarrow> bool" for hw p where
  start: "passed_over hw p 0 k k"
| timer: "passed_over hw p n k k1 \<Longrightarrow> r_int_no r = IRQCODE_PIT \<Longrightarrow> irq_handler hw r k1 = ok (r', k2) \<Longrightarrow>
    unat (current_pid (k_sched k2)) \<noteq> p \<Longrightarrow> passed_over hw p (Suc n) k k2"
| other: "passed_over hw p n k k1 \<Longrightarrow> r_int_no r \<noteq> IRQCODE_PIT \<Longrightarrow> from_process r k1 \<Longrightarrow>
    irq_handler hw r k1 = ok (r', k2) \<Longrightarrow> unat (current_pid (k_sched k2)) \<noteq> p \<Longrightarrow> passed_over hw p n k k2"

lemma passed_over_nearer:
  assumes "passed_over hw p n k k'" and "kinv k" and "p < MAX_PROCESSES" and "ready (k_sched k) p"
    and "unat (current_pid (k_sched k)) \<noteq> p"
  shows "kinv k' \<and> ready (k_sched k') p \<and> unat (current_pid (k_sched k')) \<noteq> p \<and>
    n + distance p (k_sched k') \<le> distance p (k_sched k)"
  using assms
proof (induction rule: passed_over.induct)
  case (start k)
  then show ?case by simp
next
  case (timer n k k1 r r' k2)
  have e: "has_effect Switch r k1 k2" using timer.hyps(3,2) by (rule timer_switches)
  have "kinv k1" using timer.IH timer.prems by simp
  then show ?case
    using timer.IH [OF timer.prems] timer.hyps(4) effect_turn(1,3) [OF _ e timer.prems(2) _ _ timer.hyps(4)]
      effect_kinv [OF _ e] by simp
next
  case (other n k k1 r r' k2)
  obtain e where e: "has_effect e r k1 k2" using other.hyps(4,3) by (rule irq_effect)
  have "kinv k1" using other.IH other.prems by simp
  then show ?case
    using other.IH [OF other.prems] other.hyps(5) effect_turn(1,2) [OF _ e other.prems(2) _ _ other.hyps(5)]
      effect_kinv [OF _ e] by simp
qed

section \<open>Properties\<close>

text \<open>
  C11: no starvation. Take a reachable state in which \<open>p\<close> is ready and not running, and any interrupts after
  it, in any order and with any registers: timer interrupts, keys, and every system call of the processes
  that run in between, among them yield, getc and exit. As long as \<open>p\<close> has not got the processor fewer
  than 128 of them were from the timer, \<open>p\<close> is still ready, and the next timer interrupt returns: so the
  128th at the latest runs \<open>p\<close>.
\<close>

lemma schedule_fair:
  assumes "reachable hw k" and "p < MAX_PROCESSES" and "ready (k_sched k) p"
    and "unat (current_pid (k_sched k)) \<noteq> p" and "passed_over hw p n k k'"
  shows "n < MAX_PROCESSES \<and> ready (k_sched k') p \<and>
    (\<forall>r. \<exists>r' k2. irq_handler hw (r\<lparr>r_int_no := IRQCODE_PIT\<rparr>) k' = ok (r', k2) \<and>
       (n = MAX_PROCESSES - 1 \<longrightarrow> unat (current_pid (k_sched k2)) = p))"
proof -
  have inv: "kinv k" using assms(1) by (rule reachable_kinv)
  note near = passed_over_nearer [OF assms(5) inv assms(2-4)]
  have "n < 128" using near distance_less [of p "k_sched k"] by simp
  moreover have "\<exists>r' k2. irq_handler hw (r\<lparr>r_int_no := IRQCODE_PIT\<rparr>) k' = ok (r', k2) \<and>
      (n = 127 \<longrightarrow> unat (current_pid (k_sched k2)) = p)" for r
  proof -
    obtain r' k2 where step: "irq_handler hw (r\<lparr>r_int_no := IRQCODE_PIT\<rparr>) k' = ok (r', k2)"
      using timer_returns [of k' p "r\<lparr>r_int_no := IRQCODE_PIT\<rparr>" hw] near assms(2) by auto
    have "Suc n < 128" if "unat (current_pid (k_sched k2)) \<noteq> p"
      using passed_over_nearer [OF passed_over.timer [OF assms(5) _ step that] inv assms(2-4)]
        distance_less [of p "k_sched k"] by simp
    then show ?thesis using step by auto
  qed
  ultimately show ?thesis using near by auto
qed

lemma schedule_fair_witness:
  "\<exists>k k' p x. reachable ready_hw k \<and> passed_over ready_hw p 1 k k' \<and>
    irq_handler ready_hw (demo_regs\<lparr>r_int_no := IRQCODE_PIT\<rparr>) k' = ok x"
proof -
  obtain k where k: "reachable ready_hw k" "ready (k_sched k) 0" "ready (k_sched k) 1"
      "unat (current_pid (k_sched k)) = 129"
    using booted_two by blast
  let ?r = "demo_regs\<lparr>r_int_no := IRQCODE_PIT\<rparr>"
  obtain r' k' where k': "irq_handler ready_hw ?r k = ok (r', k')"
    using timer_returns [OF reachable_kinv [OF k(1)] _ k(2), of ?r ready_hw] by auto
  obtain p where p: "p \<in> {0, 1}" "unat (current_pid (k_sched k')) \<noteq> p"
    by (cases "unat (current_pid (k_sched k')) = 0") auto
  have "passed_over ready_hw p 1 k k'"
    using passed_over.timer [OF passed_over.start _ k' p(2)] by simp
  moreover have "p < 128" "ready (k_sched k) p" "unat (current_pid (k_sched k)) \<noteq> p"
    using p(1) k(2-4) by auto
  ultimately show ?thesis using schedule_fair [OF k(1)] k(1) by blast
qed

end
