(* ===== verification/Nqfs.thy ===== *)
theory Nqfs
  imports Layout Ramblk Io
begin

text \<open>
  The file system: drivers/fs/nqfs/nqfs.c and nqfs.h.

  A sector holds either four inodes (sectors 0 to 127) or a block of data (the others). The functions
  work on a sector in a local buffer of 512 bytes: \<open>sector\<close> of the callers is \<open>Local 1 512\<close>,
  \<open>storage_sector\<close> is \<open>Local 2 512\<close>, the buffer of \<open>NQFS_get_next_free_block\<close> is \<open>Local 3 512\<close>. The
  fields of the packed structures are at fixed offsets in it. The device is the structure of \<open>Ramblk\<close>,
  used through its two function pointers only.

  A function that prints works on the machine of \<open>Io\<close>, the others on its memory.
\<close>

abbreviation FILEPTR_SECTORS :: nat where "FILEPTR_SECTORS \<equiv> 128"
abbreviation FILEPTR_PER_SECTOR :: nat where "FILEPTR_PER_SECTOR \<equiv> 4"
abbreviation NQFS_MAX_FILENAME_SIZE :: u32 where "NQFS_MAX_FILENAME_SIZE \<equiv> 64"
abbreviation NQFS_STORAGE_BYTES_SECTOR :: u32 where "NQFS_STORAGE_BYTES_SECTOR \<equiv> 504"

text \<open>\<open>struct NQFS_inode\<close>, 128 bytes, and \<open>struct NQFS_storage_block\<close>, 512 bytes.\<close>

abbreviation fp_filename :: "ptr \<Rightarrow> ptr" where "fp_filename fp \<equiv> padd fp 1"
abbreviation fp_start_sector :: "ptr \<Rightarrow> ptr" where "fp_start_sector fp \<equiv> padd fp 65"
abbreviation fp_size :: "ptr \<Rightarrow> ptr" where "fp_size fp \<equiv> padd fp 69"
abbreviation sb_data :: "ptr \<Rightarrow> ptr" where "sb_data sb \<equiv> padd sb 4"
abbreviation sb_next_sector :: "ptr \<Rightarrow> ptr" where "sb_next_sector sb \<equiv> padd sb 508"

definition sector :: ptr where "sector = (Local 1 512, 0)"
definition storage_sector :: ptr where "storage_sector = (Local 2 512, 0)"
definition block_sector :: ptr where "block_sector = (Local 3 512, 0)"

section \<open>Blocks\<close>

definition NQFS_get_next_free_block :: "block_dev \<Rightarrow> mem \<Rightarrow> (u32 \<times> mem) res" where
  "NQFS_get_next_free_block device m =
     bind_res
       (for_exit FILEPTR_SECTORS (unat (num_sectors device)) (\<lambda>i m.
          bind_res (read_sector device (device_no device) (of_nat i) block_sector m) (\<lambda>(r, m).
          if r = 0 then ok (Stop (0, m))
          else bind_res (load32 m block_sector) (\<lambda>magic_number.
            if magic_number \<noteq> 0xC001
            then bind_res (store32 block_sector 0xC001 m) (\<lambda>m.
                 bind_res (store32 (sb_next_sector block_sector) 0 m) (\<lambda>m.
                 bind_res (write_sector device (device_no device) (of_nat i) block_sector m) (\<lambda>(w, m).
                 ok (Stop (if w = 0 then 0 else of_nat i, m)))))
            else ok (Next m)))) m)
       (\<lambda>c. case c of Stop x \<Rightarrow> ok x | Next m \<Rightarrow> ok (0, m))"

section \<open>Creating a file\<close>

definition on_mem :: "(mem \<Rightarrow> ('a \<times> mem) res) \<Rightarrow> machine \<Rightarrow> ('a \<times> machine) res" where
  "on_mem f k = bind_res (f (mem k)) (\<lambda>(r, m). ok (r, k\<lparr>mem := m\<rparr>))"

text \<open>What is done with a free inode \<open>fp\<close> of sector \<open>i\<close>.\<close>

definition take_inode :: "block_dev \<Rightarrow> ptr \<Rightarrow> nat \<Rightarrow> ptr \<Rightarrow> mem \<Rightarrow> (u32 \<times> mem) res" where
  "take_inode device filename i fp m =
     bind_res (NQFS_get_next_free_block device m) (\<lambda>(new_sector, m).
     if new_sector = 0 then ok (0, m)
     else bind_res (store m fp 1) (\<lambda>m.
       bind_res (store32 (fp_size fp) 0 m) (\<lambda>m.
       bind_res (store32 (fp_start_sector fp) new_sector m) (\<lambda>m.
       bind_res (strncpy filename (fp_filename fp) NQFS_MAX_FILENAME_SIZE m) (\<lambda>m.
       bind_res (store m (padd (fp_filename fp) (NQFS_MAX_FILENAME_SIZE - 1)) 0) (\<lambda>m.
       bind_res (write_sector device (device_no device) (of_nat i) sector m) (\<lambda>(w, m).
       ok (if w = 0 then 0 else new_sector, m))))))))"

definition NQFS_create_file :: "hw \<Rightarrow> block_dev \<Rightarrow> ptr \<Rightarrow> machine \<Rightarrow> (u32 \<times> machine) res" where
  "NQFS_create_file hw device filename k =
     bind_res
       (for_exit 0 FILEPTR_SECTORS (\<lambda>i k.
          bind_res (on_mem (read_sector device (device_no device) (of_nat i) sector) k) (\<lambda>(r, k).
          if r = 0 then ok (Stop (0, k))
          else for_exit 0 FILEPTR_PER_SECTOR (\<lambda>j k.
            let fp = padd sector (of_nat (128 * j)) in
            bind_res (load (mem k) fp) (\<lambda>allocd.
            if allocd = 0
            then bind_res (on_mem (take_inode device filename i fp) k) (\<lambda>(new_sector, k).
                 if new_sector = 0 then ok (Stop (0, k))
                 else bind_res (printf_nolock hw (lit ''Created file \"%s\" at sector  %d fp %d\<newline>'')
                        [Va_ptr (fp_filename fp), Va_int new_sector, Va_int (of_nat i)] k) (\<lambda>k.
                      ok (Stop (of_nat i, k))))
            else ok (Next k))) k)) k)
       (\<lambda>c. case c of Stop x \<Rightarrow> ok x | Next k \<Rightarrow> ok (0, k))"

section \<open>Reading\<close>

function read_loop :: "block_dev \<Rightarrow> u32 \<Rightarrow> ptr \<Rightarrow> u32 \<Rightarrow> mem \<Rightarrow> (u32 \<times> mem) res" where
  "read_loop device rsector out sz m =
     (if sz > 0
      then bind_res (read_sector device (device_no device) rsector storage_sector m) (\<lambda>(r, m).
        if r = 0 then ok (0, m)
        else let readable = (if sz < NQFS_STORAGE_BYTES_SECTOR then sz else NQFS_STORAGE_BYTES_SECTOR)
          in bind_res (memcpy (sb_data storage_sector) out readable m) (\<lambda>m.
             let out = padd out readable; sz = sz - readable
             in if sz > 0
                then bind_res (load32 m (sb_next_sector storage_sector)) (\<lambda>rsector.
                     if rsector = 0 then ok (sz, m) else read_loop device rsector out sz m)
                else read_loop device rsector out sz m))
      else ok (sz, m))"
  by pat_completeness auto

text \<open>The rest gets smaller in every round.\<close>

lemma rest_smaller:
  fixes n :: u32
  assumes "n > 0" and "0 < l"
  shows "unat (n - (if n < l then n else l)) < unat n"
  using assms by (auto simp: word_less_nat_alt unat_sub_if')

termination read_loop
  by (relation "measure (\<lambda>(device, rsector, out, sz, m). unat sz)") (auto simp: rest_smaller)

definition NQFS_read_bytes :: "hw \<Rightarrow> block_dev \<Rightarrow> u32 \<Rightarrow> ptr \<Rightarrow> u32 \<Rightarrow> machine \<Rightarrow> (u32 \<times> machine) res" where
  "NQFS_read_bytes hw device inode_sector out sz k =
     bind_res (on_mem (read_sector device (device_no device) inode_sector sector) k) (\<lambda>(r, k).
     if r = 0 then ok (0, k)
     else bind_res (load32 (mem k) (fp_start_sector sector)) (\<lambda>start_sector.
       if start_sector \<noteq> 0
       then bind_res (load32 (mem k) (fp_size sector)) (\<lambda>file_size.
            on_mem (read_loop device start_sector out (if sz > file_size then file_size else sz)) k)
       else bind_res (printf_nolock hw (lit ''didn't find start\<newline>'') [] k) (\<lambda>k. ok (0, k))))"

section \<open>Writing\<close>

text \<open>The first loop looks for the block the file ends in; \<open>Stop\<close> is \<open>return 0\<close>.\<close>

function skip_loop :: "block_dev \<Rightarrow> u32 \<Rightarrow> u32 \<Rightarrow> mem \<Rightarrow> (u32 \<times> u32 \<times> mem, mem) ctl res" where
  "skip_loop device cur_size rsector m =
     (if cur_size \<ge> NQFS_STORAGE_BYTES_SECTOR
      then bind_res (read_sector device (device_no device) rsector storage_sector m) (\<lambda>(r, m).
        if r = 0 then ok (Stop m)
        else let cur_size = cur_size - NQFS_STORAGE_BYTES_SECTOR
          in bind_res (load32 m (sb_next_sector storage_sector)) (\<lambda>rsector.
             if rsector = 0
             then bind_res (NQFS_get_next_free_block device m) (\<lambda>(b, m).
                  bind_res (store32 (sb_next_sector storage_sector) b m) (\<lambda>m.
                  bind_res (load32 m (sb_next_sector storage_sector)) (\<lambda>rsector.
                  if rsector = 0 then ok (Stop m) else skip_loop device cur_size rsector m)))
             else skip_loop device cur_size rsector m))
      else ok (Next (cur_size, rsector, m)))"
  by pat_completeness auto

termination skip_loop
  by (relation "measure (\<lambda>(device, cur_size, rsector, m). unat cur_size)")
    (auto simp: word_le_nat_alt unat_sub_if')

partial_function (option) write_loop ::
  "block_dev \<Rightarrow> u32 \<Rightarrow> ptr \<Rightarrow> u32 \<Rightarrow> u32 \<Rightarrow> u32 \<Rightarrow> u32 \<Rightarrow> mem \<Rightarrow> (u32 \<times> mem) res" where
  "write_loop device inode_sector src cur_size rsector sz total_written m =
     (if sz > 0
      then bind_res (read_sector device (device_no device) rsector storage_sector m) (\<lambda>(r, m).
        if r = 0 then ok (0, m)
        else let writeable = NQFS_STORAGE_BYTES_SECTOR - cur_size;
                 writeable = (if sz < writeable then sz else writeable)
          in bind_res (memcpy (padd src total_written) (padd (sb_data storage_sector) cur_size) writeable m) (\<lambda>m.
             bind_res (load32 m (fp_size sector)) (\<lambda>file_size.
             bind_res (store32 (fp_size sector) (file_size + writeable) m) (\<lambda>m.
             let total_written = total_written + writeable
             in bind_res (write_sector device (device_no device) inode_sector sector m) (\<lambda>(w, m).
                if w = 0 then ok (0, m)
                else bind_res (write_sector device (device_no device) rsector storage_sector m) (\<lambda>(w, m).
                  if w = 0 then ok (0, m)
                  else let sz = sz - writeable
                    in if sz > 0
                       then bind_res (NQFS_get_next_free_block device m) (\<lambda>(b, m).
                            bind_res (store32 (sb_next_sector storage_sector) b m) (\<lambda>m.
                            bind_res (write_sector device (device_no device) rsector storage_sector m) (\<lambda>(w, m).
                            if w = 0 then ok (0, m)
                            else bind_res (load32 m (sb_next_sector storage_sector)) (\<lambda>rsector.
                              if rsector = 0 then ok (0, m)
                              else write_loop device inode_sector src 0 rsector sz total_written m))))
                       else write_loop device inode_sector src 0 rsector sz total_written m))))))
      else ok (total_written, m))"

definition NQFS_write_bytes :: "hw \<Rightarrow> block_dev \<Rightarrow> u32 \<Rightarrow> ptr \<Rightarrow> u32 \<Rightarrow> machine \<Rightarrow> (u32 \<times> machine) res" where
  "NQFS_write_bytes hw device inode_sector src sz k =
     bind_res (on_mem (read_sector device (device_no device) inode_sector sector) k) (\<lambda>(r, k).
     if r = 0 then ok (0, k)
     else bind_res (load32 (mem k) (fp_start_sector sector)) (\<lambda>start_sector.
       if start_sector \<noteq> 0
       then bind_res (load32 (mem k) (fp_size sector)) (\<lambda>cur_size.
            on_mem (\<lambda>m.
              bind_res (skip_loop device cur_size start_sector m) (\<lambda>c.
              case c of Stop m \<Rightarrow> ok (0, m)
              | Next (cur_size, rsector, m) \<Rightarrow> write_loop device inode_sector src cur_size rsector sz 0 m)) k)
       else bind_res (printf_nolock hw (lit ''File didn't point to a storage block\<newline>'') [] k) (\<lambda>k.
            ok (0, k))))"

section \<open>Listing\<close>

definition NQFS_DEBUG_list_files :: "hw \<Rightarrow> block_dev \<Rightarrow> machine \<Rightarrow> machine res" where
  "NQFS_DEBUG_list_files hw device k =
     bind_res
       (for_exit 0 FILEPTR_SECTORS (\<lambda>i k.
          bind_res (on_mem (read_sector device (device_no device) (of_nat i) sector) k) (\<lambda>(r, k).
          if r = 0
          then bind_res (printf_nolock hw (lit ''Error reading sector %d\<newline>'') [Va_int (of_nat i)] k) (\<lambda>k.
               ok (Stop k))
          else bind_res (for_range 0 FILEPTR_PER_SECTOR (\<lambda>j k.
            let fp = padd sector (of_nat (128 * j)) in
            bind_res (load (mem k) fp) (\<lambda>allocd.
            if allocd \<noteq> 0
            then printf_nolock hw (lit ''Found file: %s\<newline>'') [Va_ptr (fp_filename fp)] k
            else ok k)) k) (\<lambda>k. ok (Next k)))) k)
       (\<lambda>c. case c of Stop k \<Rightarrow> ok k | Next k \<Rightarrow> ok k)"

end
