(* ===== verification/Nqfs_Files.thy ===== *)
theory Nqfs_Files
  imports Nqfs
begin

text \<open>
  What the loops of the file system do to the sectors. The locale \<open>nqfs_device\<close> is a block device as
  \<open>Ramblk\<close> specifies it, whose memory is none of the local buffers; all lemmas about the loops are proved
  in it. \<open>file_at\<close> is the abstraction: the bytes of a file, along the chain of its blocks. The RAM disk is
  an instance, and the files are the subject of \<open>Nqfs_Store\<close>.
\<close>

section \<open>Sectors\<close>

definition same_sector :: "(nat \<Rightarrow> u8) \<Rightarrow> (nat \<Rightarrow> u8) \<Rightarrow> bool" where
  "same_sector f g \<longleftrightarrow> (\<forall>k < 512. f k = g k)"

definition block_used :: "(nat \<Rightarrow> u8) \<Rightarrow> bool" where
  "block_used f \<longleftrightarrow> word_at f 0 = 0xC001"

definition next_block :: "(nat \<Rightarrow> u8) \<Rightarrow> u32" where
  "next_block f = word_at f 508"

definition marked :: "(nat \<Rightarrow> u8) \<Rightarrow> nat \<Rightarrow> u8" where
  "marked f k = (if k < 4 then byte_of 0xC001 k else if 508 \<le> k then 0 else f k)"

lemma same_sector_refl [simp]: "same_sector f f"
  by (simp add: same_sector_def)

lemma same_sector_trans: "same_sector f g \<Longrightarrow> same_sector g h \<Longrightarrow> same_sector f h"
  by (simp add: same_sector_def)

lemma word_at_same: "same_sector f g \<Longrightarrow> k + 4 \<le> 512 \<Longrightarrow> word_at f k = word_at g k"
  by (rule word_at_cong) (simp add: same_sector_def)

lemma block_used_same: "same_sector f g \<Longrightarrow> block_used f = block_used g"
  by (simp add: block_used_def word_at_same)

lemma next_block_same: "same_sector f g \<Longrightarrow> next_block f = next_block g"
  by (simp add: next_block_def word_at_same)

lemma marked_used [simp]: "block_used (marked f)"
  unfolding block_used_def by (rule word_at_byte_of) (simp add: marked_def)

definition free_blocks :: "nat \<Rightarrow> (nat \<Rightarrow> nat \<Rightarrow> u8) \<Rightarrow> nat set" where
  "free_blocks sectors dk = {t. 128 \<le> t \<and> t < sectors \<and> \<not> block_used (dk t)}"

section \<open>Local buffers\<close>

lemma buffer_valid [simp]: "valid sector 512" "valid storage_sector 512" "valid block_sector 512"
  by (simp_all add: valid_def sector_def storage_sector_def block_sector_def)

lemma buffer_fst [simp]: "fst sector = Local 1 512" "fst storage_sector = Local 2 512" "fst block_sector = Local 3 512"
  by (simp_all add: sector_def storage_sector_def block_sector_def)

lemma upd_bytes_twice: "upd_bytes (upd_bytes m p n f) p n g = upd_bytes m p n g"
  by (auto simp: upd_bytes_def fun_eq_iff)

lemma window_full: "valid p n \<Longrightarrow> \<not> is_const (fst p) \<Longrightarrow> k < n \<Longrightarrow> window (upd_bytes m p n f) p k = f k"
  using window_upd [of p n 0 n k m f] by simp

lemma upd_bytes_eq: "(\<And>k. k < n \<Longrightarrow> f k = g k) \<Longrightarrow> upd_bytes m p n f = upd_bytes m p n g"
  by (auto simp: upd_bytes_def fun_eq_iff)

lemma unat_minus_of_nat:
  fixes y :: u32
  assumes "a + b \<le> 4294967296" and "0 < b"
  shows "unat (y - of_nat a) < b \<longleftrightarrow> a \<le> unat y \<and> unat y < a + b"
    and "a \<le> unat y \<Longrightarrow> unat (y - of_nat a) = unat y - a"
proof -
  have a: "unat (of_nat a :: u32) = a" using assms by simp
  show "unat (y - of_nat a) < b \<longleftrightarrow> a \<le> unat y \<and> unat y < a + b"
    "a \<le> unat y \<Longrightarrow> unat (y - of_nat a) = unat y - a"
    using assms unat_u32_less [of y] by (auto simp: unat_sub_if' a)
qed

lemma upd_bytes_append:
  assumes "valid p (a + b)" and "0 < b"
  shows "upd_bytes (upd_bytes m p a f) (padd p (of_nat a)) b (\<lambda>k. f (a + k)) = upd_bytes m p (a + b) f"
proof -
  have "a + b \<le> 4294967296"
    using assms obj_size_le [of "fst p"] by (simp add: valid_def)
  note unat_minus_of_nat [OF this assms(2)]
  then have "unat (x - (snd p + of_nat a)) < b \<longleftrightarrow> a \<le> unat (x - snd p) \<and> unat (x - snd p) < a + b"
    "a \<le> unat (x - snd p) \<Longrightarrow> unat (x - (snd p + of_nat a)) = unat (x - snd p) - a" for x
    unfolding diff_diff_eq [symmetric] by blast+
  then show ?thesis by (auto simp: upd_bytes_def fun_eq_iff)
qed

section \<open>Reading\<close>

text \<open>\<open>n\<close> bytes \<open>f 0\<close>, \<open>f 1\<close>, ... along the chain of blocks from \<open>c\<close> on.\<close>

function file_at :: "nat \<Rightarrow> (nat \<Rightarrow> nat \<Rightarrow> u8) \<Rightarrow> nat \<Rightarrow> nat \<Rightarrow> (nat \<Rightarrow> u8) \<Rightarrow> bool" where
  "file_at sectors dk c n f \<longleftrightarrow>
     (if n \<le> 504 then \<forall>k < n. dk c (4 + k) = f k
      else (\<forall>k < 504. dk c (4 + k) = f k) \<and> next_block (dk c) \<noteq> 0 \<and> unat (next_block (dk c)) < sectors \<and>
        file_at sectors dk (unat (next_block (dk c))) (n - 504) (\<lambda>k. f (504 + k)))"
  by pat_completeness auto
termination by (relation "measure (\<lambda>(sectors, dk, c, n, f). n)") auto

declare file_at.simps [simp del] read_loop.simps [simp del] skip_loop.simps [simp del]

text \<open>
  The blocks of the chain. A file is stored soundly when they are data blocks in use and none comes
  twice.
\<close>

function blocks :: "(nat \<Rightarrow> nat \<Rightarrow> u8) \<Rightarrow> nat \<Rightarrow> nat \<Rightarrow> nat list" where
  "blocks dk c n = (if n \<le> 504 then [c] else c # blocks dk (unat (next_block (dk c))) (n - 504))"
  by pat_completeness auto
termination by (relation "measure (\<lambda>(dk, c, n). n)") auto

declare blocks.simps [simp del]

definition stored :: "nat \<Rightarrow> (nat \<Rightarrow> nat \<Rightarrow> u8) \<Rightarrow> nat \<Rightarrow> nat \<Rightarrow> (nat \<Rightarrow> u8) \<Rightarrow> bool" where
  "stored sectors dk c n f \<longleftrightarrow> file_at sectors dk c n f \<and> distinct (blocks dk c n) \<and>
     (\<forall>b \<in> set (blocks dk c n). 128 \<le> b \<and> b < sectors \<and> block_used (dk b))"

lemma blocks_small [simp]: "n \<le> 504 \<Longrightarrow> blocks dk c n = [c]"
  by (simp add: blocks.simps)

lemma length_blocks: "length (blocks dk c n) = Suc ((n - 1) div 504)"
proof (induction dk c n rule: blocks.induct)
  case (1 dk c n)
  show ?case
  proof (cases "n \<le> 504")
    case False
    then have "n - 1 = n - 504 - 1 + 504" by simp
    then have "(n - 1) div 504 = Suc ((n - 504 - 1) div 504)" by (metis div_add_self2 Suc_eq_plus1 zero_neq_numeral)
    with 1 False show ?thesis by (subst blocks.simps) simp
  qed simp
qed

lemma blocks_step: "504 < n \<Longrightarrow> blocks dk c n = c # blocks dk (unat (next_block (dk c))) (n - 504)"
  by (subst blocks.simps) simp

lemma file_at_cong:
  assumes "file_at sectors dk c n f" and "\<And>k. k < n \<Longrightarrow> f k = g k"
  shows "file_at sectors dk c n g"
  using assms
proof (induction sectors dk c n f arbitrary: g rule: file_at.induct)
  case (1 sectors dk c n f)
  show ?case
  proof (cases "n \<le> 504")
    case False
    then have "file_at sectors dk (unat (next_block (dk c))) (n - 504) (\<lambda>k. g (504 + k))"
      using 1 by (subst (asm) (2) file_at.simps) auto
    with False show ?thesis using "1.prems" by (subst file_at.simps, subst (asm) file_at.simps) simp
  qed (use "1.prems" in \<open>simp add: file_at.simps\<close>)
qed

locale nqfs_device = block_device "read_sector dev" "write_sector dev" disk owned sectors
  for dev :: block_dev and disk and owned and sectors +
  assumes announced: "sectors \<le> unat (num_sectors dev)"
    and not_local: "\<not> owned (Local i n)"
begin

lemma read_buffer:
  assumes "s < sectors" and "p = sector \<or> p = storage_sector \<or> p = block_sector"
  shows "read_sector dev d (of_nat s) p m = ok (1, upd_bytes m p 512 (disk m s))"
  using assms not_local by (intro rd_ok) auto

lemma disk_buffer: "p = sector \<or> p = storage_sector \<or> p = block_sector \<Longrightarrow>
    disk (upd_bytes m (padd p a) n f) = disk m"
  using not_local by (intro disk_upd_bytes) auto

text \<open>One round: \<open>l\<close> bytes of block \<open>c\<close> are copied, and the number of the next block is read.\<close>

lemma read_round:
  assumes "c < sectors" and "valid out l" and "0 < l" and "l \<le> 504" and "\<And>k. k < l \<Longrightarrow> disk m c (4 + k) = f k"
    and "\<not> is_const (fst out)" and "\<not> owned (fst out)" and "fst out \<noteq> Local 2 512"
  defines "m1 \<equiv> upd_bytes m storage_sector 512 (disk m c)"
  shows "read_sector dev (device_no dev) (of_nat c) storage_sector m = ok (1, m1)"
    and "memcpy (sb_data storage_sector) out (of_nat l) m1 = ok (upd_bytes m1 out l f)"
    and "load32 (upd_bytes m1 out l f) (sb_next_sector storage_sector) = ok (next_block (disk m c))"
    and "disk (upd_bytes m1 out l f) = disk m"
proof -
  let ?m2 = "upd_bytes m1 out l f"
  show "read_sector dev (device_no dev) (of_nat c) storage_sector m = ok (1, m1)"
    unfolding m1_def using assms(1) by (simp add: read_buffer)
  have l: "unat (of_nat l :: u32) = l" using assms(4) by simp
  have v: "valid (sb_data storage_sector) l"
    using valid_padd [of storage_sector 512 4 l] assms(3,4) by simp
  have "peek m1 (padd (sb_data storage_sector) (of_nat k)) = f k" if k: "k < l" for k
    using window_full [of storage_sector 512 "4 + k" m "disk m c"] k assms(4) assms(5) [OF k]
    by (simp add: window_def padd_padd m1_def)
  then have "upd_bytes m1 out l (\<lambda>k. peek m1 (padd (sb_data storage_sector) (of_nat k))) = ?m2"
    by (rule upd_bytes_eq)
  then show "memcpy (sb_data storage_sector) out (of_nat l) m1 = ok ?m2"
    using memcpy_upd [of "sb_data storage_sector" "of_nat l" out m1] v assms(2,6,8) l
    by (simp add: copy_period_def)
  show "disk ?m2 = disk m"
    using assms(7) disk_buffer [of storage_sector m 0] by (simp add: disk_upd_bytes m1_def)
  have "word_at (window ?m2 storage_sector) 508 = next_block (disk m c)"
    unfolding next_block_def
  proof (rule word_at_cong)
    fix i :: nat assume "i < 4"
    then show "window ?m2 storage_sector (508 + i) = disk m c (508 + i)"
      using window_full [of storage_sector 512 "508 + i" m "disk m c"] assms(8)
        window_other [of "fst out" storage_sector out m1 l f] by (simp add: m1_def)
  qed
  then show "load32 ?m2 (sb_next_sector storage_sector) = ok (next_block (disk m c))"
    using load32_window [of storage_sector 512 508 ?m2] by simp
qed

lemma read_size:
  assumes "0 < n" and "n < 4294967296"
  shows "(of_nat n :: u32) > 0" and "(if (of_nat n :: u32) < 504 then of_nat n else 504) = (of_nat (min n 504) :: u32)"
  using assms by (auto simp: word_less_nat_alt min_def)

lemma read_loop_file:
  assumes "file_at sectors (disk m) c n f" and "c < sectors" and "valid out n" and "n < 4294967296"
    and "\<not> is_const (fst out)" and "\<not> owned (fst out)" and "fst out \<noteq> Local 2 512"
  shows "\<exists>m'. read_loop dev (of_nat c) out (of_nat n) m = ok (0, m') \<and>
    (\<forall>b. b \<noteq> Local 2 512 \<longrightarrow> m' b = upd_bytes m out n f b)"
  using assms
proof (induction n arbitrary: c out m f rule: less_induct)
  case (less n)
  let ?m1 = "upd_bytes m storage_sector 512 (disk m c)"
  consider "n = 0" | "0 < n" "n \<le> 504" | "504 < n" by linarith
  then show ?case
  proof cases
    case 1
    then show ?thesis by (simp add: read_loop.simps)
  next
    case 2
    have f: "disk m c (4 + k) = f k" if "k < n" for k
      using less.prems(1) that 2 by (simp add: file_at.simps)
    note r = read_round [OF less.prems(2,3) 2 f less.prems(5-7)]
    have "read_loop dev (of_nat c) out (of_nat n) m = ok (0, upd_bytes ?m1 out n f)"
      using read_size [OF 2(1) less.prems(4)] r(2) 2
      by (subst read_loop.simps) (simp add: r(1) Let_def, simp add: read_loop.simps)
    then show ?thesis using less.prems(7) by (auto simp: upd_bytes_def)
  next
    case 3
    let ?m2 = "upd_bytes ?m1 out 504 f"
    let ?c = "unat (next_block (disk m c))"
    have chain: "\<And>k. k < 504 \<Longrightarrow> disk m c (4 + k) = f k" "next_block (disk m c) \<noteq> 0" "?c < sectors"
      "file_at sectors (disk m) ?c (n - 504) (\<lambda>k. f (504 + k))"
      using less.prems(1) 3 by (subst (asm) file_at.simps, simp)+
    have "valid out 504" using less.prems(3) 3 by (simp add: valid_def)
    note r = read_round [OF less.prems(2) this _ _ chain(1) less.prems(5-7), simplified of_nat_numeral]
    have size: "(of_nat n :: u32) > 0" "(if (of_nat n :: u32) < 504 then of_nat n else 504) = (504 :: u32)"
      "(of_nat n - 504 :: u32) = of_nat (n - 504)" "(of_nat (n - 504) :: u32) > 0"
      using read_size [of n] read_size(1) [of "n - 504"] 3 less.prems(4) by simp_all
    have vo: "valid (padd out (of_nat 504)) (n - 504)"
      using 3 less.prems(3) by (intro valid_padd [of _ n]) simp_all
    have "\<exists>m'. read_loop dev (of_nat ?c) (padd out (of_nat 504)) (of_nat (n - 504)) ?m2 = ok (0, m') \<and>
      (\<forall>b. b \<noteq> Local 2 512 \<longrightarrow> m' b = upd_bytes ?m2 (padd out (of_nat 504)) (n - 504) (\<lambda>k. f (504 + k)) b)"
      using 3 vo less.prems(4-7) chain(3,4) by (intro less.IH) (simp_all add: r(4))
    then obtain m' where m': "read_loop dev (next_block (disk m c)) (padd out 504) (of_nat (n - 504)) ?m2 = ok (0, m')"
      "\<And>b. b \<noteq> Local 2 512 \<Longrightarrow> m' b = upd_bytes ?m2 (padd out (of_nat 504)) (n - 504) (\<lambda>k. f (504 + k)) b"
      by auto
    have "upd_bytes ?m2 (padd out (of_nat 504)) (n - 504) (\<lambda>k. f (504 + k)) = upd_bytes ?m1 out n f"
      using upd_bytes_append [of out 504 "n - 504" ?m1 f] 3 less.prems(3) by simp
    then have "m' b = upd_bytes m out n f b" if "b \<noteq> Local 2 512" for b
      using m'(2) [OF that] that by (auto simp: upd_bytes_def)
    moreover have "read_loop dev (of_nat c) out (of_nat n) m = ok (0, m')"
      using m'(1) chain(2) by (subst read_loop.simps) (simp only: r size Let_def bind_res_simps
        prod.case if_True simp_thms if_False one_neq_zero)
    ultimately show ?thesis by blast
  qed
qed

section \<open>Finding a free block\<close>

text \<open>Two states of the disk that agree on every sector but one.\<close>

definition disk_put :: "mem \<Rightarrow> mem \<Rightarrow> nat \<Rightarrow> (nat \<Rightarrow> u8) \<Rightarrow> bool" where
  "disk_put m m' s f \<longleftrightarrow> (\<forall>t < sectors. same_sector (disk m' t) (if t = s then f else disk m t))"

lemma write_buffer:
  assumes "s < sectors" and "p = sector \<or> p = storage_sector \<or> p = block_sector"
  shows "\<exists>m'. write_sector dev d (of_nat s) p m = ok (1, m') \<and> (\<forall>b. \<not> owned b \<longrightarrow> m' b = m b) \<and>
    disk_put m m' s (window m p)"
proof -
  have "valid p 512" "\<not> owned (fst p)" using assms(2) not_local by auto
  from wr_ok [OF assms(1) this, of d m] show ?thesis
    unfolding disk_put_def same_sector_def window_def by auto
qed

lemma next_free_block:
  assumes "128 \<le> i" and "i < sectors" and "\<not> block_used (disk m i)"
    and "\<And>j. 128 \<le> j \<Longrightarrow> j < i \<Longrightarrow> block_used (disk m j)"
  shows "\<exists>m'. NQFS_get_next_free_block dev m = ok (of_nat i, m') \<and>
    (\<forall>b. \<not> owned b \<and> b \<noteq> Local 3 512 \<longrightarrow> m' b = m b) \<and> disk_put m m' i (marked (disk m i))"
proof -
  let ?F = "\<lambda>j. if j = 128 then m else upd_bytes m block_sector 512 (disk m (j - 1))"
  have F: "upd_bytes (?F j) block_sector 512 g = upd_bytes m block_sector 512 g" for j g
    by (simp add: upd_bytes_twice)
  have dF: "disk (?F j) = disk m" for j
    using disk_buffer [of block_sector m 0] by simp
  have rd: "read_sector dev (device_no dev) (of_nat j) block_sector (?F j) =
      ok (1, upd_bytes m block_sector 512 (disk m j))" if "j < sectors" for j
    using read_buffer [OF that, of block_sector _ "?F j"] by (simp only: F dF) simp
  have magic: "load32 (upd_bytes m block_sector 512 (disk m j)) block_sector = ok (word_at (disk m j) 0)" for j
  proof -
    have "word_at (window (upd_bytes m block_sector 512 (disk m j)) block_sector) 0 = word_at (disk m j) 0"
      by (rule word_at_cong) (simp add: window_full)
    then show ?thesis
      using load32_window [of block_sector 512 0 "upd_bytes m block_sector 512 (disk m j)"] by simp
  qed
  let ?m1 = "upd_bytes m block_sector 512 (disk m i)"
  let ?m2 = "upd_bytes ?m1 block_sector 4 (byte_of 0xC001)"
  let ?m3 = "upd_bytes ?m2 (padd block_sector 508) 4 (byte_of 0)"
  have st1: "store32 block_sector 0xC001 ?m1 = ok ?m2"
    using store32_window [of block_sector 512 0 "0xC001" ?m1] by simp
  have st2: "store32 (sb_next_sector block_sector) 0 ?m2 = ok ?m3"
    using store32_window [of block_sector 512 508 0 ?m2] by simp
  have d3: "disk ?m3 = disk m"
    using disk_buffer [of block_sector _ 0] disk_buffer [of block_sector _ 508] by simp
  have "window ?m3 block_sector k = marked (disk m i) k" if "k < 512" for k
    using that window_upd [of block_sector 512 508 4 k ?m2] window_upd [of block_sector 512 0 4 k ?m1]
    by (simp add: window_full marked_def)
  then have w3: "same_sector (window ?m3 block_sector) (marked (disk m i))"
    by (simp add: same_sector_def)
  obtain m' where m': "write_sector dev (device_no dev) (of_nat i) block_sector ?m3 = ok (1, m')"
      "\<forall>b. \<not> owned b \<longrightarrow> m' b = ?m3 b" "disk_put ?m3 m' i (window ?m3 block_sector)"
    using write_buffer [OF assms(2), of block_sector "device_no dev" ?m3] by auto
  have put: "disk_put m m' i (marked (disk m i))"
    using m'(3) w3 unfolding disk_put_def d3 by (auto intro: same_sector_trans)
  have i: "i < unat (num_sectors dev)" using assms(2) announced by simp
  have "unat (of_nat i :: u32) = i" using assms(2) few by simp
  then have zero: "(of_nat i :: u32) \<noteq> 0" using assms(1) by auto
  let ?body = "\<lambda>i m. bind_res (read_sector dev (device_no dev) (of_nat i) block_sector m) (\<lambda>(r, m).
          if r = 0 then ok (Stop (0, m))
          else bind_res (load32 m block_sector) (\<lambda>magic_number.
            if magic_number \<noteq> 0xC001
            then bind_res (store32 block_sector 0xC001 m) (\<lambda>m.
                 bind_res (store32 (sb_next_sector block_sector) 0 m) (\<lambda>m.
                 bind_res (write_sector dev (device_no dev) (of_nat i) block_sector m) (\<lambda>(w, m).
                 ok (Stop (if w = 0 then 0 else (of_nat i :: u32), m)))))
            else ok (Next m)))"
  have "?body j (?F j) = ok (Next (?F (Suc j)))" if "128 \<le> j" "j < i" for j
    using that rd [of j] magic assms(2) assms(4) [OF that] by (simp add: block_used_def)
  moreover have "?body i (?F i) = ok (Stop (of_nat i, m'))"
    using rd [OF assms(2)] assms(3) magic m'(1) st1 st2 by (simp add: block_used_def)
  ultimately have "for_exit 128 (unat (num_sectors dev)) ?body (?F 128) = ok (Stop (of_nat i, m'))"
    by (intro for_exit_stop [OF assms(1) i])
  then have "NQFS_get_next_free_block dev m = ok (of_nat i, m')"
    by (simp add: NQFS_get_next_free_block_def)
  moreover have "\<forall>b. \<not> owned b \<and> b \<noteq> Local 3 512 \<longrightarrow> m' b = m b"
    using m'(2) by (simp add: upd_bytes_def)
  ultimately show ?thesis using put by blast
qed

section \<open>Writing\<close>

text \<open>One round, up to the write of the block: \<open>w\<close> bytes go into block \<open>c\<close> from place \<open>d\<close> on, the
  size into the inode.\<close>

lemma write_round:
  assumes "c < sectors" and "128 \<le> c" and "ino < 128" and "0 < w" and "d + w \<le> 504"
    and "valid src (T + w)" and "T + w < 4294967296"
    and src: "\<not> owned (fst src)" "fst src \<notin> {Local 1 512, Local 2 512, Local 3 512}"
    and s: "s = word_at (window m sector) 69"
  shows "\<exists>m1 m2 m3 m4 m5. read_sector dev (device_no dev) (of_nat c) storage_sector m = ok (1, m1) \<and>
    memcpy (padd src (of_nat T)) (padd (sb_data storage_sector) (of_nat d)) (of_nat w) m1 = ok m2 \<and>
    load32 m2 (fp_size sector) = ok s \<and> store32 (fp_size sector) (s + of_nat w) m2 = ok m3 \<and>
    write_sector dev (device_no dev) (of_nat ino) sector m3 = ok (1, m4) \<and>
    write_sector dev (device_no dev) (of_nat c) storage_sector m4 = ok (1, m5) \<and>
    (\<forall>b. \<not> owned b \<and> b \<noteq> Local 1 512 \<and> b \<noteq> Local 2 512 \<longrightarrow> m5 b = m b) \<and>
    (\<forall>k < 512. window m5 sector k = (if 69 \<le> k \<and> k < 73 then byte_of (s + of_nat w) (k - 69) else window m sector k)) \<and>
    (\<forall>k < 512. window m5 storage_sector k = (if 4 + d \<le> k \<and> k < 4 + d + w then window m src (T + (k - (4 + d))) else disk m c k)) \<and>
    (\<forall>t < sectors. same_sector (disk m5 t)
       (if t = c then window m5 storage_sector else if t = ino then window m5 sector else disk m t))"
proof -
  let ?m1 = "upd_bytes m storage_sector 512 (disk m c)"
  let ?f = "\<lambda>k. window m src (T + k)"
  let ?m2 = "upd_bytes ?m1 (padd storage_sector (of_nat (4 + d))) w ?f"
  let ?m3 = "upd_bytes ?m2 (padd sector 69) 4 (byte_of (s + of_nat w))"
  have rd: "read_sector dev (device_no dev) (of_nat c) storage_sector m = ok (1, ?m1)"
    using assms(1) by (simp add: read_buffer)
  have w: "unat (of_nat w :: u32) = w" using assms(5) by simp
  have at: "padd (sb_data storage_sector) (of_nat d) = padd storage_sector (of_nat (4 + d))"
    by (simp add: padd_padd)
  have "peek ?m1 (padd (padd src (of_nat T)) (of_nat k)) = ?f k" for k
  proof -
    have "window ?m1 src = window m src" by (rule window_other [of "Local 2 512"]) (use src(2) in auto)
    from fun_cong [OF this, of "T + k"] show ?thesis by (simp only: window_def padd_of_nat)
  qed
  moreover have "valid (padd src (of_nat T)) w" "valid (padd storage_sector (of_nat (4 + d))) w"
    using valid_padd [OF assms(6), of T w] valid_padd [of storage_sector 512 "4 + d" w] assms(4,5) by simp_all
  ultimately have cp: "memcpy (padd src (of_nat T)) (padd (sb_data storage_sector) (of_nat d)) (of_nat w) ?m1 = ok ?m2"
    using memcpy_upd [of "padd src (of_nat T)" "of_nat w" "padd storage_sector (of_nat (4 + d))" ?m1] w src(2)
    unfolding at by (simp add: copy_period_def del: of_nat_add)
  have ws: "window ?m2 sector = window m sector"
    using window_other [of "Local 2 512" sector] by (simp del: of_nat_add)
  have ld: "load32 ?m2 (fp_size sector) = ok s"
    using load32_window [of sector 512 69 ?m2] by (simp add: ws s del: of_nat_add)
  have st: "store32 (fp_size sector) (s + of_nat w) ?m2 = ok ?m3"
    using store32_window [of sector 512 69 "s + of_nat w" ?m2] by simp
  have d3: "disk ?m3 = disk m"
    using disk_buffer [of sector _ 69] disk_buffer [of storage_sector _ "of_nat (4 + d)"] disk_buffer [of storage_sector _ 0] by simp
  have ino: "ino < sectors" using assms(1-3) by simp
  obtain m4 where m4: "write_sector dev (device_no dev) (of_nat ino) sector ?m3 = ok (1, m4)"
      "\<forall>b. \<not> owned b \<longrightarrow> m4 b = ?m3 b" "disk_put ?m3 m4 ino (window ?m3 sector)"
    using write_buffer [OF ino, of sector "device_no dev" ?m3] by auto
  obtain m5 where m5: "write_sector dev (device_no dev) (of_nat c) storage_sector m4 = ok (1, m5)"
      "\<forall>b. \<not> owned b \<longrightarrow> m5 b = m4 b" "disk_put m4 m5 c (window m4 storage_sector)"
    using write_buffer [OF assms(1), of storage_sector "device_no dev" m4] by auto
  have keep: "window m5 p = window ?m3 p" "window m4 p = window ?m3 p" if "\<not> owned (fst p)" for p
    using that m4(2) m5(2) by (auto intro!: window_cong)
  have keep_s: "window m5 sector = window ?m3 sector" "window m5 storage_sector = window ?m3 storage_sector"
    "window m4 storage_sector = window ?m3 storage_sector"
    using keep not_local by simp_all
  have wsec: "window m5 sector k = (if 69 \<le> k \<and> k < 73 then byte_of (s + of_nat w) (k - 69) else window m sector k)"
    if "k < 512" for k
    using window_upd [of sector 512 69 4 k ?m2] that by (simp add: keep_s ws del: of_nat_add)
  have wsto: "window m5 storage_sector k = (if 4 + d \<le> k \<and> k < 4 + d + w then ?f (k - (4 + d)) else disk m c k)"
    if "k < 512" for k
    using window_upd [of storage_sector 512 "4 + d" w k ?m1 ?f] that assms(5)
      window_other [of "Local 1 512" storage_sector "padd sector 69" ?m2]
    by (simp add: keep_s window_full del: of_nat_add)
  have "same_sector (disk m5 t)
      (if t = c then window m5 storage_sector else if t = ino then window m5 sector else disk m t)" if t: "t < sectors" for t
  proof -
    have "same_sector (disk m4 t) (if t = ino then window m5 sector else disk m t)"
      using m4(3) t unfolding disk_put_def d3 keep_s by blast
    moreover have "same_sector (disk m5 t) (if t = c then window m5 storage_sector else disk m4 t)"
      using m5(3) t unfolding disk_put_def keep_s by blast
    ultimately show ?thesis by (cases "t = c") (auto intro: same_sector_trans)
  qed
  moreover have "\<forall>b. \<not> owned b \<and> b \<noteq> Local 1 512 \<and> b \<noteq> Local 2 512 \<longrightarrow> m5 b = m b"
    using m4(2) m5(2) by (simp add: upd_bytes_def)
  ultimately show ?thesis using rd cp ld st m4(1) m5(1) wsec wsto by blast
qed

text \<open>The other half of a round, when more is to come: the next block is found and linked to block \<open>c\<close>.\<close>

lemma link_block:
  assumes c: "c < sectors" "128 \<le> c" "block_used (disk m c)" "same_sector (disk m c) (window m storage_sector)"
    and "free_blocks sectors (disk m) \<noteq> {}"
  shows "\<exists>c' m1 m2 m3. NQFS_get_next_free_block dev m = ok (of_nat c', m1) \<and>
    store32 (sb_next_sector storage_sector) (of_nat c') m1 = ok m2 \<and>
    write_sector dev (device_no dev) (of_nat c) storage_sector m2 = ok (1, m3) \<and>
    load32 m3 (sb_next_sector storage_sector) = ok (of_nat c') \<and> c' \<in> free_blocks sectors (disk m) \<and>
    same_sector (disk m3 c) (window m3 storage_sector) \<and>
    (\<forall>k < 512. window m3 storage_sector k =
       (if 508 \<le> k then byte_of (of_nat c') (k - 508) else window m storage_sector k)) \<and>
    (\<forall>t < sectors. t \<noteq> c \<longrightarrow> same_sector (disk m3 t) (if t = c' then marked (disk m c') else disk m t)) \<and>
    (\<forall>b. \<not> owned b \<and> b \<notin> {Local 2 512, Local 3 512} \<longrightarrow> m3 b = m b)"
proof -
  obtain x where "x \<in> free_blocks sectors (disk m)" using assms(5) by blast
  then obtain c' where c': "c' \<in> free_blocks sectors (disk m)" "\<forall>j < c'. j \<notin> free_blocks sectors (disk m)"
    using first_nat [of "\<lambda>x. x \<in> free_blocks sectors (disk m)"] by blast
  then have c'_bounds: "128 \<le> c'" "c' < sectors" "\<not> block_used (disk m c')" by (simp_all add: free_blocks_def)
  have "block_used (disk m j)" if "128 \<le> j" "j < c'" for j
    using c'(2) that c'_bounds(2) by (auto simp: free_blocks_def)
  then obtain m1 where m1: "NQFS_get_next_free_block dev m = ok (of_nat c', m1)"
      "\<forall>b. \<not> owned b \<and> b \<noteq> Local 3 512 \<longrightarrow> m1 b = m b" "disk_put m m1 c' (marked (disk m c'))"
    using next_free_block [OF c'_bounds] by blast
  let ?m2 = "upd_bytes m1 (padd storage_sector 508) 4 (byte_of (of_nat c'))"
  have st: "store32 (sb_next_sector storage_sector) (of_nat c') m1 = ok ?m2"
    using store32_window [of storage_sector 512 508 "of_nat c'" m1] by simp
  have d2: "disk ?m2 = disk m1" using disk_buffer [of storage_sector _ 508] by simp
  obtain m3 where m3: "write_sector dev (device_no dev) (of_nat c) storage_sector ?m2 = ok (1, m3)"
      "\<forall>b. \<not> owned b \<longrightarrow> m3 b = ?m2 b" "disk_put ?m2 m3 c (window ?m2 storage_sector)"
    using write_buffer [OF c(1), of storage_sector "device_no dev" ?m2] by auto
  have win: "window m3 storage_sector = window ?m2 storage_sector"
    by (rule window_cong) (use m3(2) not_local in simp)
  have "window m1 storage_sector = window m storage_sector"
    by (rule window_cong) (use m1(2) not_local in simp)
  with win have sto: "\<forall>k < 512. window m3 storage_sector k =
      (if 508 \<le> k then byte_of (of_nat c') (k - 508) else window m storage_sector k)"
    using window_upd [of storage_sector 512 508 4 _ m1] by simp
  have "word_at (window m3 storage_sector) 508 = of_nat c'"
    by (rule word_at_byte_of) (simp add: sto)
  then have ld: "load32 m3 (sb_next_sector storage_sector) = ok (of_nat c')"
    using load32_window [of storage_sector 512 508 m3] by simp
  have "same_sector (disk m3 c) (window m3 storage_sector)"
    using m3(3) c(1) unfolding disk_put_def win by auto
  moreover have "same_sector (disk m3 t) (if t = c' then marked (disk m c') else disk m t)"
    if "t < sectors" "t \<noteq> c" for t
  proof -
    have "same_sector (disk m3 t) (disk m1 t)" using m3(3) that unfolding disk_put_def d2 by auto
    moreover have "same_sector (disk m1 t) (if t = c' then marked (disk m c') else disk m t)"
      using m1(3) that(1) unfolding disk_put_def by blast
    ultimately show ?thesis by (rule same_sector_trans)
  qed
  moreover have "\<forall>b. \<not> owned b \<and> b \<notin> {Local 2 512, Local 3 512} \<longrightarrow> m3 b = m b"
    using m3(2) m1(2) by (simp add: upd_bytes_def)
  ultimately show ?thesis using m1(1) st m3(1) ld c'(1) sto by blast
qed

text \<open>The whole loop: as long as there are free blocks, all of the \<open>n\<close> bytes are stored in the chain from \<open>c\<close>,
  after the \<open>d\<close> bytes that block \<open>c\<close> holds already.\<close>

lemma write_loop_file:
  assumes "c < sectors" and "128 \<le> c" and "ino < 128" and "block_used (disk m c)"
    and "0 < n" and "valid src (T + n)" and "T + n < 4294967296"
    and src: "\<not> owned (fst src)" "fst src \<notin> {Local 1 512, Local 2 512, Local 3 512}"
    and "d < 504" and "(d + n - 1) div 504 \<le> card (free_blocks sectors (disk m))"
  shows "\<exists>m'. write_loop dev (of_nat ino) src (of_nat d) (of_nat c) (of_nat n) (of_nat T) m = ok (of_nat (T + n), m') \<and>
    stored sectors (disk m') c (d + n) (\<lambda>k. if k < d then disk m c (4 + k) else window m src (T + (k - d))) \<and>
    set (blocks (disk m') c (d + n)) \<subseteq> insert c (free_blocks sectors (disk m)) \<and>
    free_blocks sectors (disk m') = free_blocks sectors (disk m) - set (blocks (disk m') c (d + n)) \<and>
    same_sector (disk m' ino) (window m' sector) \<and>
    (\<forall>k < 512. window m' sector k =
       (if 69 \<le> k \<and> k < 73 then byte_of (word_at (window m sector) 69 + of_nat n) (k - 69) else window m sector k)) \<and>
    (\<forall>b. \<not> owned b \<and> b \<notin> {Local 1 512, Local 2 512, Local 3 512} \<longrightarrow> m' b = m b) \<and>
    (\<forall>t < sectors. t \<noteq> c \<and> t \<noteq> ino \<and> (t < 128 \<or> block_used (disk m t)) \<longrightarrow> same_sector (disk m' t) (disk m t))"
  using assms
proof (induction n arbitrary: c m T d rule: less_induct)
  case (less n)
  let ?s = "word_at (window m sector) 69"
  let ?w = "min n (504 - d)"
  let ?g = "\<lambda>k. if k < d then disk m c (4 + k) else window m src (T + (k - d))"
  have n32: "n < 4294967296" "T < 4294967296" using less.prems(7) by simp_all
  have bounds: "0 < ?w" "d + ?w \<le> 504" "valid src (T + ?w)" "T + ?w < 4294967296"
    using less.prems(5-7,10) by (auto simp: valid_def)
  obtain m1 m2 m3 m4 m5 where
    r: "read_sector dev (device_no dev) (of_nat c) storage_sector m = ok (1, m1)"
      "memcpy (padd src (of_nat T)) (padd (sb_data storage_sector) (of_nat d)) (of_nat ?w) m1 = ok m2"
      "load32 m2 (fp_size sector) = ok ?s" "store32 (fp_size sector) (?s + of_nat ?w) m2 = ok m3"
      "write_sector dev (device_no dev) (of_nat ino) sector m3 = ok (1, m4)"
      "write_sector dev (device_no dev) (of_nat c) storage_sector m4 = ok (1, m5)"
    and same5: "\<forall>b. \<not> owned b \<and> b \<noteq> Local 1 512 \<and> b \<noteq> Local 2 512 \<longrightarrow> m5 b = m b"
    and sec5: "\<forall>k < 512. window m5 sector k =
      (if 69 \<le> k \<and> k < 73 then byte_of (?s + of_nat ?w) (k - 69) else window m sector k)"
    and sto5: "\<forall>k < 512. window m5 storage_sector k =
      (if 4 + d \<le> k \<and> k < 4 + d + ?w then window m src (T + (k - (4 + d))) else disk m c k)"
    and disk5: "\<forall>t < sectors. same_sector (disk m5 t)
      (if t = c then window m5 storage_sector else if t = ino then window m5 sector else disk m t)"
    using write_round [OF less.prems(1-3) bounds src refl] by blast
  have ino: "ino < sectors" "ino \<noteq> c" using less.prems(1-3) by auto
  have pos: "(of_nat n :: u32) > 0" using less.prems(5) n32 by (simp add: word_less_nat_alt)
  have d32: "(504 - of_nat d :: u32) = of_nat (504 - d)" using less.prems(10) by simp
  have "(of_nat n < (of_nat (504 - d) :: u32)) = (n < 504 - d)"
    using n32(1) by (simp add: word_less_nat_alt del: of_nat_diff)
  then have w: "(if (of_nat n :: u32) < 504 - of_nat d then of_nat n else 504 - of_nat d) = (of_nat ?w :: u32)"
    unfolding d32 by (simp add: min_def del: of_nat_diff)
  have data5: "window m5 storage_sector (4 + k) = ?g k" if "k < d + ?w" for k
    using sto5 that bounds(2) by simp
  have used5: "block_used (window m5 storage_sector)"
  proof -
    have "word_at (window m5 storage_sector) 0 = word_at (disk m c) 0"
      by (rule word_at_cong) (simp add: sto5)
    then show ?thesis using less.prems(4) by (simp add: block_used_def)
  qed
  have c5: "same_sector (disk m5 c) (window m5 storage_sector)" using disk5 less.prems(1) by auto
  have used_m5: "block_used (disk m5 t) \<longleftrightarrow> t = c \<or> block_used (disk m t)" if "t < sectors" "128 \<le> t" for t
    using disk5 that less.prems(3) block_used_same used5 by (metis not_le)
  then have free5: "free_blocks sectors (disk m5) = free_blocks sectors (disk m)"
    using less.prems(4) by (auto simp: free_blocks_def)
  show ?case
  proof (cases "d + n \<le> 504")
    case True
    then have wn: "?w = n" by simp
    note rn = r [unfolded wn] and w' = w [unfolded wn]
    have "write_loop dev (of_nat ino) src (of_nat d) (of_nat c) (of_nat n) (of_nat T) m = ok (of_nat (T + n), m5)"
      by (subst write_loop.simps)
        (simp only: pos w' rn Let_def bind_res_simps prod.case if_True if_False one_neq_zero simp_thms diff_self
          write_loop.simps [of _ _ _ _ _ 0] less_irrefl of_nat_add)
    moreover have "file_at sectors (disk m5) c (d + n) ?g"
      using True c5 data5 [unfolded wn] by (simp add: file_at.simps same_sector_def)
    then have "stored sectors (disk m5) c (d + n) ?g"
      using True less.prems(1,2) used5 block_used_same [OF c5] by (simp add: stored_def)
    moreover have "set (blocks (disk m5) c (d + n)) \<subseteq> insert c (free_blocks sectors (disk m))" using True by simp
    moreover have "free_blocks sectors (disk m5) = free_blocks sectors (disk m) - set (blocks (disk m5) c (d + n))"
      using True free5 less.prems(4) by (auto simp: free_blocks_def)
    moreover have "same_sector (disk m5 ino) (window m5 sector)" using disk5 ino by auto
    moreover have "\<forall>t < sectors. t \<noteq> c \<and> t \<noteq> ino \<and> (t < 128 \<or> block_used (disk m t)) \<longrightarrow>
        same_sector (disk m5 t) (disk m t)"
      using disk5 by auto
    ultimately show ?thesis using sec5 same5 unfolding wn by auto
  next
    case False
    then have n: "504 - d < n" using less.prems(10) by arith
    then have wn: "?w = 504 - d" by simp
    let ?r = "n - (504 - d)"
    have rest: "(of_nat n - of_nat ?w :: u32) = of_nat ?r" unfolding wn using n by (subst of_nat_diff) simp_all
    have rest_pos: "(of_nat ?r :: u32) > 0"
      using n n32 by (simp add: word_less_nat_alt del: of_nat_diff)
    have count: "Suc ((0 + ?r - 1) div 504) = (d + n - 1) div 504"
    proof -
      have "d + n - 1 = (0 + ?r - 1) + 504" using n less.prems(10) by simp
      then show ?thesis by (metis div_add_self2 Suc_eq_plus1 zero_neq_numeral)
    qed
    have fin: "finite (free_blocks sectors (disk m5))" by (simp add: free_blocks_def)
    have "free_blocks sectors (disk m5) \<noteq> {}" using less.prems(11) count free5 by auto
    then obtain c' m6 m7 m8 where
      l: "NQFS_get_next_free_block dev m5 = ok (of_nat c', m6)"
        "store32 (sb_next_sector storage_sector) (of_nat c') m6 = ok m7"
        "write_sector dev (device_no dev) (of_nat c) storage_sector m7 = ok (1, m8)"
        "load32 m8 (sb_next_sector storage_sector) = ok (of_nat c')"
      and c': "c' \<in> free_blocks sectors (disk m5)"
      and c8: "same_sector (disk m8 c) (window m8 storage_sector)"
      and sto8: "\<forall>k < 512. window m8 storage_sector k =
        (if 508 \<le> k then byte_of (of_nat c') (k - 508) else window m5 storage_sector k)"
      and disk8: "\<forall>t < sectors. t \<noteq> c \<longrightarrow> same_sector (disk m8 t) (if t = c' then marked (disk m5 c') else disk m5 t)"
      and same8: "\<forall>b. \<not> owned b \<and> b \<notin> {Local 2 512, Local 3 512} \<longrightarrow> m8 b = m5 b"
      using link_block [OF less.prems(1,2) _ c5] used_m5 [OF less.prems(1,2)] by blast
    have c'_bounds: "128 \<le> c'" "c' < sectors" "\<not> block_used (disk m5 c')" using c' by (simp_all add: free_blocks_def)
    then have "c' \<noteq> c" using used_m5 less.prems(1,2) by blast
    have c'32: "unat (of_nat c' :: u32) = c'" using c'_bounds(2) few by simp
    then have nz: "(of_nat c' :: u32) \<noteq> 0" using c'_bounds(1) by auto
    have used_m8: "block_used (disk m8 t) \<longleftrightarrow> t = c' \<or> block_used (disk m5 t)" if "t < sectors" "128 \<le> t" for t
    proof (cases "t = c")
      case True
      have "word_at (window m8 storage_sector) 0 = word_at (window m5 storage_sector) 0"
        by (rule word_at_cong) (simp add: sto8)
      then have "block_used (disk m8 c)" "block_used (disk m5 c)"
        using used5 c8 c5 block_used_same unfolding block_used_def by metis+
      then show ?thesis by (simp add: True)
    next
      case False
      have "same_sector (disk m8 t) (if t = c' then marked (disk m5 c') else disk m5 t)"
        using disk8 that(1) False by blast
      from block_used_same [OF this] show ?thesis by simp
    qed
    then have free8: "free_blocks sectors (disk m8) = free_blocks sectors (disk m5) - {c'}"
      by (auto simp: free_blocks_def)
    then have card8: "card (free_blocks sectors (disk m8)) = card (free_blocks sectors (disk m)) - 1"
      using c' fin free5 by simp
    have src8: "window m8 src = window m src" "window m8 sector = window m5 sector"
      by (rule window_cong, use same8 same5 src not_local in simp)+
    have "\<exists>m'. write_loop dev (of_nat ino) src (of_nat 0) (of_nat c') (of_nat ?r) (of_nat (T + (504 - d))) m8
          = ok (of_nat (T + (504 - d) + ?r), m') \<and>
        stored sectors (disk m') c' (0 + ?r) (\<lambda>k. if k < 0 then disk m8 c' (4 + k) else window m8 src (T + (504 - d) + (k - 0))) \<and>
        set (blocks (disk m') c' (0 + ?r)) \<subseteq> insert c' (free_blocks sectors (disk m8)) \<and>
        free_blocks sectors (disk m') = free_blocks sectors (disk m8) - set (blocks (disk m') c' (0 + ?r)) \<and>
        same_sector (disk m' ino) (window m' sector) \<and>
        (\<forall>k < 512. window m' sector k =
          (if 69 \<le> k \<and> k < 73 then byte_of (word_at (window m8 sector) 69 + of_nat ?r) (k - 69)
           else window m8 sector k)) \<and>
        (\<forall>b. \<not> owned b \<and> b \<notin> {Local 1 512, Local 2 512, Local 3 512} \<longrightarrow> m' b = m8 b) \<and>
        (\<forall>t < sectors. t \<noteq> c' \<and> t \<noteq> ino \<and> (t < 128 \<or> block_used (disk m8 t)) \<longrightarrow> same_sector (disk m' t) (disk m8 t))"
    proof (rule less.IH)
      show "block_used (disk m8 c')" using used_m8 c'_bounds by simp
      show "(0 + ?r - 1) div 504 \<le> card (free_blocks sectors (disk m8))"
        using less.prems(11) count unfolding card8 by linarith
    qed (use n c'_bounds less.prems in simp_all)
    then obtain m' where m': "write_loop dev (of_nat ino) src (of_nat 0) (of_nat c') (of_nat ?r) (of_nat (T + (504 - d))) m8
          = ok (of_nat (T + (504 - d) + ?r), m')"
        "stored sectors (disk m') c' ?r (\<lambda>k. window m src (T + (504 - d) + k))"
        "set (blocks (disk m') c' ?r) \<subseteq> insert c' (free_blocks sectors (disk m8))"
        "free_blocks sectors (disk m') = free_blocks sectors (disk m8) - set (blocks (disk m') c' ?r)"
        "same_sector (disk m' ino) (window m' sector)"
        "\<forall>k < 512. window m' sector k =
          (if 69 \<le> k \<and> k < 73 then byte_of (word_at (window m5 sector) 69 + of_nat ?r) (k - 69)
           else window m5 sector k)"
        "\<forall>b. \<not> owned b \<and> b \<notin> {Local 1 512, Local 2 512, Local 3 512} \<longrightarrow> m' b = m8 b"
        "\<forall>t < sectors. t \<noteq> c' \<and> t \<noteq> ino \<and> (t < 128 \<or> block_used (disk m8 t)) \<longrightarrow> same_sector (disk m' t) (disk m8 t)"
      unfolding src8 add_0 diff_zero by (simp only: not_less_zero if_False) (elim exE conjE, rule that; assumption)
    have "same_sector (disk m' c) (disk m8 c)"
      using m'(8) less.prems(1,2) ino(2) \<open>c' \<noteq> c\<close> used_m8 [OF less.prems(1,2)] used_m5 [OF less.prems(1,2)] by auto
    then have cc: "same_sector (disk m' c) (window m8 storage_sector)" using c8 by (rule same_sector_trans)
    then have nb: "next_block (disk m' c) = of_nat c'"
      by (simp only: next_block_same) (simp only: next_block_def, rule word_at_byte_of, simp add: sto8)
    have data: "disk m' c (4 + k) = ?g k" if "k < 504" for k
      using cc that sto8 data5 [of k] wn less.prems(10) by (simp add: same_sector_def)
    have "file_at sectors (disk m') c' (d + n - 504) (\<lambda>k. ?g (504 + k))"
      using m'(2) less.prems(10) n by (simp add: stored_def ac_simps)
    then have fa: "file_at sectors (disk m') c (d + n) ?g"
      using False nz c'_bounds(2) data by (subst file_at.simps) (simp only: nb c'32 if_False, simp)
    have bl: "blocks (disk m') c (d + n) = c # blocks (disk m') c' ?r"
    proof -
      have "d + n - 504 = ?r" using less.prems(10) n by simp
      then show ?thesis using blocks_step [of "d + n" "disk m'" c] False by (simp only: nb c'32)
    qed
    have inside: "set (blocks (disk m') c' ?r) \<subseteq> free_blocks sectors (disk m)"
      using m'(3) c' unfolding free8 free5 by auto
    moreover have c_used: "c \<notin> free_blocks sectors (disk m)" using less.prems(4) by (simp add: free_blocks_def)
    moreover have "block_used (disk m' c)"
      using \<open>same_sector (disk m' c) (disk m8 c)\<close> block_used_same used_m8 [OF less.prems(1,2)] used_m5 [OF less.prems(1,2)]
      by auto
    ultimately have "stored sectors (disk m') c (d + n) ?g"
      using fa m'(2) less.prems(1,2) unfolding stored_def bl by auto
    moreover have "set (blocks (disk m') c (d + n)) \<subseteq> insert c (free_blocks sectors (disk m))"
      using inside unfolding bl by auto
    moreover have "c' \<in> set (blocks (disk m') c' ?r)" by (subst blocks.simps) simp
    then have "free_blocks sectors (disk m') = free_blocks sectors (disk m) - set (blocks (disk m') c (d + n))"
      using m'(4) c_used unfolding free8 free5 bl by auto
    moreover have "write_loop dev (of_nat ino) src (of_nat d) (of_nat c) (of_nat n) (of_nat T) m = ok (of_nat (T + n), m')"
    proof -
      have total: "of_nat T + of_nat ?w = (of_nat (T + (504 - d)) :: u32)" unfolding wn by (rule of_nat_add [symmetric])
      have sum: "T + (504 - d) + ?r = T + n" using n by simp
      show ?thesis
        using m'(1) unfolding sum semiring_1_class.of_nat_0
        by (subst write_loop.simps)
          (simp only: pos w r Let_def bind_res_simps prod.case if_True if_False one_neq_zero simp_thms
            rest rest_pos total l nz)
    qed
    moreover have "word_at (window m5 sector) 69 + of_nat ?r = ?s + of_nat n"
    proof -
      have "word_at (window m5 sector) 69 = ?s + of_nat ?w"
        by (rule word_at_byte_of) (simp add: sec5)
      moreover have "of_nat n = (of_nat ?w + of_nat ?r :: u32)" unfolding wn using n by (simp flip: of_nat_add)
      ultimately show ?thesis by simp
    qed
    moreover have "same_sector (disk m' t) (disk m t)"
      if t: "t < sectors" "t \<noteq> c" "t \<noteq> ino" "t < 128 \<or> block_used (disk m t)" for t
    proof -
      have u: "t \<noteq> c'" "t < 128 \<or> block_used (disk m8 t)"
        using used_m5 [OF t(1)] used_m8 [OF t(1)] t(4) c'_bounds(1,3) not_le by blast+
      have "same_sector (disk m' t) (disk m8 t)" using m'(8) t u by blast
      moreover have "same_sector (disk m8 t) (disk m5 t)" using disk8 t(1,2) u(1) by auto
      moreover have "same_sector (disk m5 t) (disk m t)" using disk5 t by auto
      ultimately show ?thesis by (blast intro: same_sector_trans)
    qed
    moreover have "\<forall>b. \<not> owned b \<and> b \<notin> {Local 1 512, Local 2 512, Local 3 512} \<longrightarrow> m' b = m b"
      using m'(7) same8 same5 by simp
    ultimately show ?thesis using m'(5,6) sec5 by auto
  qed
qed

end

section \<open>On the RAM disk\<close>

interpretation ram_nqfs: nqfs_device RAMBLK__device ram_sector "\<lambda>b. b = Ramfs_blocks" 10239
proof (intro nqfs_device.intro nqfs_device_axioms.intro)
  show "block_device (read_sector RAMBLK__device) (write_sector RAMBLK__device) ram_sector (\<lambda>b. b = Ramfs_blocks) 10239"
    using ram.block_device_axioms by (simp add: RAMBLK__device_def)
qed (simp_all add: RAMBLK__device_def)

end
