(* ===== verification/Nqfs_Store.thy ===== *)
theory Nqfs_Store
  imports Nqfs_Files
begin

text \<open>
  Files: what \<open>NQFS_write_bytes\<close> and \<open>NQFS_read_bytes\<close> do to the contents of a file, whatever its length.
  A write appends, a read delivers from the beginning. \<open>open_end\<close> are the lengths from which the code
  appends soundly: the last block has room, or the file is empty. A file whose length is another multiple
  of 504 loses what is appended to it.
\<close>

section \<open>Chains\<close>

definition open_end :: "nat \<Rightarrow> bool" where
  "open_end n \<longleftrightarrow> n = 0 \<or> n mod 504 \<noteq> 0"

lemma open_end_less [simp]: "n < 504 \<Longrightarrow> open_end n"
  by (auto simp: open_end_def)

lemma open_end_step: "open_end n \<Longrightarrow> 504 \<le> n \<Longrightarrow> 504 < n \<and> open_end (n - 504) \<and> n mod 504 = (n - 504) mod 504"
  by (auto simp: open_end_def le_mod_geq le_neq_implies_less)

lemma file_at_small: "n \<le> 504 \<Longrightarrow> file_at sectors dk c n f \<longleftrightarrow> (\<forall>k < n. dk c (4 + k) = f k)"
  by (simp add: file_at.simps)

lemma file_at_step:
  "504 < n \<Longrightarrow> file_at sectors dk c n f \<longleftrightarrow>
     (\<forall>k < 504. dk c (4 + k) = f k) \<and> next_block (dk c) \<noteq> 0 \<and> unat (next_block (dk c)) < sectors \<and>
     file_at sectors dk (unat (next_block (dk c))) (n - 504) (\<lambda>k. f (504 + k))"
  by (subst file_at.simps) simp

lemma file_at_prefix:
  assumes "file_at sectors dk c n f" and "l \<le> n"
  shows "file_at sectors dk c l f"
  using assms
proof (induction sectors dk c n f arbitrary: l rule: file_at.induct)
  case (1 sectors dk c n f)
  show ?case
  proof (cases "l \<le> 504")
    case True
    with "1.prems" show ?thesis by (cases "n \<le> 504") (simp_all add: file_at_small file_at_step)
  next
    case False
    then have n: "504 < n" using "1.prems"(2) by simp
    note n' = n [folded not_le]
    have "file_at sectors dk (unat (next_block (dk c))) (l - 504) (\<lambda>k. f (504 + k))"
      using "1.IH" [OF n'] "1.prems" file_at_step [OF n, of sectors dk c f] by simp
    with "1.prems" n False show ?thesis using file_at_step [of l] file_at_step [OF n] by simp
  qed
qed

lemma chain_frame:
  assumes "\<forall>b \<in> set (blocks dk c n). same_sector (dk' b) (dk b)" and "file_at sectors dk c n f"
  shows "blocks dk' c n = blocks dk c n \<and> file_at sectors dk' c n f"
  using assms
proof (induction sectors dk c n f rule: file_at.induct)
  case (1 sectors dk c n f)
  show ?case
  proof (cases "n \<le> 504")
    case True
    with 1 show ?thesis by (simp add: file_at_small same_sector_def)
  next
    case False
    have "same_sector (dk' c) (dk c)" using "1.prems"(1) False by (simp add: blocks_step)
    then have "next_block (dk' c) = next_block (dk c)" "\<forall>k < 504. dk' c (4 + k) = dk c (4 + k)"
      by (simp_all add: next_block_same same_sector_def)
    with 1 False show ?thesis by (simp add: file_at_step blocks_step)
  qed
qed

lemma stored_frame:
  assumes "stored sectors dk c n f" and "\<forall>b \<in> set (blocks dk c n). same_sector (dk' b) (dk b)"
  shows "stored sectors dk' c n f \<and> blocks dk' c n = blocks dk c n"
proof -
  have "block_used (dk' b) = block_used (dk b)" if "b \<in> set (blocks dk c n)" for b
    using assms(2) that by (intro block_used_same) blast
  then show ?thesis using chain_frame [OF assms(2), of sectors f] assms(1) by (simp add: stored_def)
qed

lemma stored_cong: "stored sectors dk c n f \<Longrightarrow> (\<And>k. k < n \<Longrightarrow> f k = g k) \<Longrightarrow> stored sectors dk c n g"
  using file_at_cong unfolding stored_def by blast

lemma stored_tail:
  assumes "stored sectors dk c n f" and "504 < n"
  shows "stored sectors dk (unat (next_block (dk c))) (n - 504) (\<lambda>k. f (504 + k))"
  using assms by (simp add: stored_def file_at_step blocks_step)

lemma blocks_nonempty [simp]: "blocks dk c n \<noteq> []"
  by (cases "n \<le> 504") (simp_all add: blocks_step)

lemma first_block [simp]: "c \<in> set (blocks dk c n)"
  by (cases "n \<le> 504") (simp_all add: blocks_step)

text \<open>
  Appending to the last block of a chain: when the chain that starts there has \<open>n\<close> bytes more and the
  other blocks are as they were, the file has \<open>n\<close> bytes more.
\<close>

lemma stored_join:
  assumes "stored sectors dk c s f" and "open_end s" and "l = last (blocks dk c s)" and "d = s mod 504"
    and "\<forall>b \<in> set (blocks dk c s). b \<noteq> l \<longrightarrow> same_sector (dk' b) (dk b)"
    and "stored sectors dk' l (d + n) (\<lambda>k. if k < d then dk l (4 + k) else h (k - d))"
    and "set (blocks dk' l (d + n)) \<subseteq> insert l F" and "F \<inter> set (blocks dk c s) = {}"
  shows "stored sectors dk' c (s + n) (\<lambda>k. if k < s then f k else h (k - s)) \<and>
    set (blocks dk' c (s + n)) \<subseteq> set (blocks dk c s) \<union> F"
  using assms
proof (induction s arbitrary: c f rule: less_induct)
  case (less s)
  show ?case
  proof (cases "s < 504")
    case True
    then have c: "l = c" using less.prems(3) by simp
    have f: "dk c (4 + k) = f k" if "k < s" for k
      using less.prems(1) that True by (simp add: stored_def file_at_small)
    have "stored sectors dk' c (s + n) (\<lambda>k. if k < s then f k else h (k - s))"
      using less.prems(4,6) True by (auto simp: c f intro: stored_cong)
    then show ?thesis using less.prems(4,7) True by (auto simp: c)
  next
    case False
    then have s: "504 < s" "open_end (s - 504)" "s mod 504 = (s - 504) mod 504"
      using open_end_step [OF less.prems(2)] by simp_all
    let ?c = "unat (next_block (dk c))"
    have bl: "blocks dk c s = c # blocks dk ?c (s - 504)" using s(1) by (rule blocks_step)
    have dist: "distinct (blocks dk c s)" using less.prems(1) by (simp add: stored_def)
    have l: "l = last (blocks dk ?c (s - 504))" using less.prems(3) by (simp add: bl)
    then have "l \<in> set (blocks dk ?c (s - 504))" using last_in_set [OF blocks_nonempty] by simp
    then have "l \<noteq> c" using dist by (auto simp: bl)
    then have same: "same_sector (dk' c) (dk c)" using less.prems(5) by (simp add: bl)
    have IH: "stored sectors dk' ?c (s - 504 + n) (\<lambda>k. if k < s - 504 then f (504 + k) else h (k - (s - 504)))"
      "set (blocks dk' ?c (s - 504 + n)) \<subseteq> set (blocks dk ?c (s - 504)) \<union> F"
    proof -
      have "d = (s - 504) mod 504" using less.prems(4) s(3) by simp
      moreover have "\<forall>b \<in> set (blocks dk ?c (s - 504)). b \<noteq> l \<longrightarrow> same_sector (dk' b) (dk b)"
        "F \<inter> set (blocks dk ?c (s - 504)) = {}"
        using less.prems(5,8) by (auto simp: bl)
      ultimately show "stored sectors dk' ?c (s - 504 + n) (\<lambda>k. if k < s - 504 then f (504 + k) else h (k - (s - 504)))"
        "set (blocks dk' ?c (s - 504 + n)) \<subseteq> set (blocks dk ?c (s - 504)) \<union> F"
        using less.IH [OF _ stored_tail [OF less.prems(1) s(1)] s(2) l] less.prems(6,7) s(1) by simp_all
    qed
    have next_c: "next_block (dk' c) = next_block (dk c)" using same by (rule next_block_same)
    have bl': "blocks dk' c (s + n) = c # blocks dk' ?c (s - 504 + n)"
      using s(1) blocks_step [of "s + n" dk' c] by (simp add: next_c)
    have "stored sectors dk' c (s + n) (\<lambda>k. if k < s then f k else h (k - s))"
    proof -
      have "(\<lambda>k. if 504 + k < s then f (504 + k) else h (504 + k - s)) =
          (\<lambda>k. if k < s - 504 then f (504 + k) else h (k - (s - 504)))"
        using s(1) by (auto simp: fun_eq_iff intro: arg_cong [where f = h])
      moreover have "file_at sectors dk c s f" using less.prems(1) by (simp add: stored_def)
      ultimately have "file_at sectors dk' c (s + n) (\<lambda>k. if k < s then f k else h (k - s))"
        using IH(1) s(1) same by (simp add: file_at_step next_c stored_def same_sector_def)
      moreover have "c \<notin> set (blocks dk' ?c (s - 504 + n))"
        using IH(2) dist less.prems(8) by (auto simp: bl)
      moreover have "128 \<le> c \<and> c < sectors \<and> block_used (dk' c)"
        using less.prems(1) block_used_same [OF same] by (simp add: stored_def bl)
      ultimately show ?thesis using IH(1) unfolding stored_def bl' by simp
    qed
    then show ?thesis using IH(2) unfolding bl bl' by auto
  qed
qed

section \<open>Files\<close>

text \<open>A file with its inode first in sector \<open>ino\<close>: where it starts and how long it is.\<close>

definition inode :: "(nat \<Rightarrow> nat \<Rightarrow> u8) \<Rightarrow> nat \<Rightarrow> nat \<Rightarrow> nat \<Rightarrow> bool" where
  "inode dk ino c n \<longleftrightarrow> word_at (dk ino) 65 = of_nat c \<and> word_at (dk ino) 69 = of_nat n"

lemma of_nat_nonzero:
  assumes "128 \<le> c" and "c < 4294967296"
  shows "(of_nat c :: u32) \<noteq> 0"
proof -
  have "unat (of_nat c :: u32) = c" using assms(2) by simp
  then show ?thesis using assms(1) by auto
qed

context nqfs_device begin

text \<open>The first loop ends at the last block, with the number of bytes in it.\<close>

lemma skip_loop_last:
  assumes "file_at sectors (disk m) c s f" and "open_end s" and "s < 4294967296" and "c < sectors"
  shows "\<exists>m'. skip_loop dev (of_nat s) (of_nat c) m =
      ok (Next (of_nat (s mod 504), of_nat (last (blocks (disk m) c s)), m')) \<and>
    (\<forall>b. b \<noteq> Local 2 512 \<longrightarrow> m' b = m b)"
  using assms
proof (induction s arbitrary: c m f rule: less_induct)
  case (less s)
  have ge: "(of_nat s \<ge> (504 :: u32)) = (504 \<le> s)" using less.prems(3) by (simp add: word_le_nat_alt)
  show ?case
  proof (cases "s < 504")
    case True
    then have "skip_loop dev (of_nat s) (of_nat c) m = ok (Next (of_nat s, of_nat c, m))"
      using ge by (subst skip_loop.simps) simp
    with True show ?thesis by auto
  next
    case False
    then have s: "504 < s" "open_end (s - 504)" "s mod 504 = (s - 504) mod 504"
      using open_end_step [OF less.prems(2)] by simp_all
    let ?c = "unat (next_block (disk m c))" and ?m = "upd_bytes m storage_sector 512 (disk m c)"
    have chain: "next_block (disk m c) \<noteq> 0" "?c < sectors" "file_at sectors (disk m) ?c (s - 504) (\<lambda>k. f (504 + k))"
      using less.prems(1) s(1) by (simp_all add: file_at_step)
    have rd: "read_sector dev (device_no dev) (of_nat c) storage_sector m = ok (1, ?m)"
      using less.prems(4) by (simp add: read_buffer)
    have "word_at (window ?m storage_sector) 508 = next_block (disk m c)"
      unfolding next_block_def by (rule word_at_cong) (simp add: window_full)
    then have ld: "load32 ?m (sb_next_sector storage_sector) = ok (next_block (disk m c))"
      using load32_window [of storage_sector 512 508 ?m] by simp
    have d: "disk ?m = disk m" using disk_buffer [of storage_sector _ 0] by simp
    have "\<exists>m'. skip_loop dev (of_nat (s - 504)) (of_nat ?c) ?m =
        ok (Next (of_nat ((s - 504) mod 504), of_nat (last (blocks (disk ?m) ?c (s - 504))), m')) \<and>
      (\<forall>b. b \<noteq> Local 2 512 \<longrightarrow> m' b = ?m b)"
      using s less.prems(3) chain by (intro less.IH) (simp_all add: d)
    then obtain m' where m': "skip_loop dev (of_nat (s - 504)) (next_block (disk m c)) ?m =
        ok (Next (of_nat ((s - 504) mod 504), of_nat (last (blocks (disk m) ?c (s - 504))), m'))"
      "\<forall>b. b \<noteq> Local 2 512 \<longrightarrow> m' b = ?m b" unfolding d by auto
    have rest: "of_nat s - 504 = (of_nat (s - 504) :: u32)" using s(1) by simp
    have "skip_loop dev (of_nat s) (of_nat c) m = skip_loop dev (of_nat (s - 504)) (next_block (disk m c)) ?m"
      using False by (subst skip_loop.simps) (simp only: ge rd rest ld Let_def bind_res_simps prod.case not_less if_True
        if_False one_neq_zero chain(1))
    then show ?thesis using m' s by (simp add: blocks_step upd_bytes_def)
  qed
qed

lemma read_inode:
  assumes "s < sectors" and "inode (disk (mem k)) s c n"
  shows "on_mem (read_sector dev (device_no dev) (of_nat s) sector) k =
      ok (1, k\<lparr>mem := upd_bytes (mem k) sector 512 (disk (mem k) s)\<rparr>)"
    and "load32 (upd_bytes (mem k) sector 512 (disk (mem k) s)) (fp_start_sector sector) = ok (of_nat c)"
    and "load32 (upd_bytes (mem k) sector 512 (disk (mem k) s)) (fp_size sector) = ok (of_nat n)"
proof -
  let ?m = "upd_bytes (mem k) sector 512 (disk (mem k) s)"
  show "on_mem (read_sector dev (device_no dev) (of_nat s) sector) k = ok (1, k\<lparr>mem := ?m\<rparr>)"
    using assms(1) by (simp add: on_mem_def read_buffer)
  have "word_at (window ?m sector) i = word_at (disk (mem k) s) i" if "i + 4 \<le> 512" for i
    using that by (intro word_at_cong) (simp add: window_full)
  then show "load32 ?m (fp_start_sector sector) = ok (of_nat c)" "load32 ?m (fp_size sector) = ok (of_nat n)"
    using load32_window [of sector 512 65 ?m] load32_window [of sector 512 69 ?m] assms(2)
    by (simp_all add: inode_def)
qed

text \<open>
  A write appends. The other inodes and the data blocks in use stay as they are, but for the last block of
  the file; the blocks that are added were free.
\<close>

lemma write_append:
  assumes "ino < 128" and "inode (disk (mem k)) ino c s" and "stored sectors (disk (mem k)) c s f" and "open_end s"
    and "0 < n" and "s + n < 4294967296" and "valid src n"
    and src: "\<not> owned (fst src)" "fst src \<notin> {Local 1 512, Local 2 512, Local 3 512}"
    and "(s mod 504 + n - 1) div 504 \<le> card (free_blocks sectors (disk (mem k)))"
  shows "\<exists>m'. NQFS_write_bytes hw dev (of_nat ino) src (of_nat n) k = ok (of_nat n, k\<lparr>mem := m'\<rparr>) \<and>
    inode (disk m') ino c (s + n) \<and>
    stored sectors (disk m') c (s + n) (\<lambda>k'. if k' < s then f k' else window (mem k) src (k' - s)) \<and>
    set (blocks (disk m') c (s + n)) \<subseteq> set (blocks (disk (mem k)) c s) \<union> free_blocks sectors (disk (mem k)) \<and>
    (\<forall>t < sectors. t \<noteq> last (blocks (disk (mem k)) c s) \<and> t \<noteq> ino \<and> (t < 128 \<or> block_used (disk (mem k) t)) \<longrightarrow>
       same_sector (disk m' t) (disk (mem k) t)) \<and>
    card (free_blocks sectors (disk m')) + (s mod 504 + n - 1) div 504 = card (free_blocks sectors (disk (mem k))) \<and>
    (\<forall>i < 512. i < 69 \<or> 73 \<le> i \<longrightarrow> disk m' ino i = disk (mem k) ino i) \<and>
    (\<forall>b. \<not> owned b \<and> b \<notin> {Local 1 512, Local 2 512, Local 3 512} \<longrightarrow> m' b = mem k b)"
proof -
  let ?m = "upd_bytes (mem k) sector 512 (disk (mem k) ino)"
  let ?l = "last (blocks (disk (mem k)) c s)" and ?F = "free_blocks sectors (disk (mem k))"
  have fa: "file_at sectors (disk (mem k)) c s f" using assms(3) by (simp add: stored_def)
  have l: "?l \<in> set (blocks (disk (mem k)) c s)" by (rule last_in_set) simp
  then have l_ok: "?l < sectors" "128 \<le> ?l" "block_used (disk (mem k) ?l)"
    and c: "c < sectors" "128 \<le> c" using assms(3) unfolding stored_def by auto
  then have ino: "ino < sectors" using assms(1) by simp
  note start = read_inode [OF ino assms(2)]
  have d: "disk ?m = disk (mem k)" using disk_buffer [of sector _ 0] by simp
  have win: "window ?m sector i = disk (mem k) ino i" if "i < 512" for i
    using that by (simp add: window_full)
  obtain m1 where m1: "skip_loop dev (of_nat s) (of_nat c) ?m = ok (Next (of_nat (s mod 504), of_nat ?l, m1))"
      "\<forall>b. b \<noteq> Local 2 512 \<longrightarrow> m1 b = ?m b"
    using skip_loop_last [of ?m c s f] fa assms(4,6) c(1) unfolding d by auto
  have d1: "disk m1 = disk (mem k)" using disk_cong [of m1 ?m] m1(2) not_local d by metis
  have w1: "window m1 sector = window ?m sector" "window m1 src = window (mem k) src"
    using m1(2) src(2) window_other [of "Local 1 512" src sector "mem k"]
    by (auto intro!: window_cong simp: upd_bytes_def)
  have size: "word_at (window ?m sector) 69 = of_nat s"
    using assms(2) word_at_cong [of "window ?m sector" 69 "disk (mem k) ino" 69] win by (simp add: inode_def)
  have room: "block_used (disk m1 ?l)" "valid src (0 + n)" "0 + n < 4294967296" "s mod 504 < 504"
    "(s mod 504 + n - 1) div 504 \<le> card (free_blocks sectors (disk m1))"
    using l_ok(3) assms(6,7,10) by (simp_all add: d1)
  note loop = write_loop_file [OF l_ok(1,2) assms(1) room(1) assms(5) room(2,3) src room(4,5), unfolded d1 w1 size]
  obtain m' where m': "write_loop dev (of_nat ino) src (of_nat (s mod 504)) (of_nat ?l) (of_nat n) (of_nat 0) m1 =
        ok (of_nat (0 + n), m')"
      "stored sectors (disk m') ?l (s mod 504 + n)
        (\<lambda>k'. if k' < s mod 504 then disk (mem k) ?l (4 + k') else window (mem k) src (0 + (k' - s mod 504)))"
      "set (blocks (disk m') ?l (s mod 504 + n)) \<subseteq> insert ?l ?F"
      "free_blocks sectors (disk m') = ?F - set (blocks (disk m') ?l (s mod 504 + n))" "same_sector (disk m' ino) (window m' sector)"
      "\<forall>i < 512. window m' sector i =
         (if 69 \<le> i \<and> i < 73 then byte_of (of_nat s + of_nat n) (i - 69) else window ?m sector i)"
      "\<forall>b. \<not> owned b \<and> b \<notin> {Local 1 512, Local 2 512, Local 3 512} \<longrightarrow> m' b = m1 b"
      "\<forall>t < sectors. t \<noteq> ?l \<and> t \<noteq> ino \<and> (t < 128 \<or> block_used (disk (mem k) t)) \<longrightarrow>
         same_sector (disk m' t) (disk (mem k) t)"
    using loop by blast
  have used: "t < sectors \<and> t \<noteq> ino \<and> block_used (disk (mem k) t)" if "t \<in> set (blocks (disk (mem k)) c s)" for t
    using that assms(1,3) by (auto simp: stored_def)
  have "\<forall>b \<in> set (blocks (disk (mem k)) c s). b \<noteq> ?l \<longrightarrow> same_sector (disk m' b) (disk (mem k) b)"
    using m'(8) used by blast
  moreover have "?F \<inter> set (blocks (disk (mem k)) c s) = {}" using used by (auto simp: free_blocks_def)
  ultimately have join: "stored sectors (disk m') c (s + n) (\<lambda>k'. if k' < s then f k' else window (mem k) src (k' - s)) \<and>
      set (blocks (disk m') c (s + n)) \<subseteq> set (blocks (disk (mem k)) c s) \<union> ?F"
    using stored_join [OF assms(3,4) refl refl _ _ m'(3)] m'(2) unfolding add_0 by blast
  have ino': "disk m' ino i = (if 69 \<le> i \<and> i < 73 then byte_of (of_nat (s + n)) (i - 69) else disk (mem k) ino i)"
    if "i < 512" for i
    using m'(5,6) that win by (simp add: same_sector_def)
  have "word_at (disk m' ino) 69 = of_nat (s + n)" by (rule word_at_byte_of) (simp add: ino' del: of_nat_add)
  moreover have "word_at (disk m' ino) 65 = word_at (disk (mem k) ino) 65"
    by (rule word_at_cong) (simp add: ino')
  ultimately have "inode (disk m') ino c (s + n)" using assms(2) by (simp add: inode_def)
  moreover have "(of_nat c :: u32) \<noteq> 0" using c few by (intro of_nat_nonzero) simp_all
  then have "NQFS_write_bytes hw dev (of_nat ino) src (of_nat n) k = ok (of_nat n, k\<lparr>mem := m'\<rparr>)"
    using start m1(1) m'(1) by (simp add: NQFS_write_bytes_def) (simp add: on_mem_def)
  moreover have "\<forall>b. \<not> owned b \<and> b \<notin> {Local 1 512, Local 2 512, Local 3 512} \<longrightarrow> m' b = mem k b"
    using m'(7) m1(2) by (simp add: upd_bytes_def)
  moreover have "card (free_blocks sectors (disk m')) + (s mod 504 + n - 1) div 504 = card ?F"
  proof -
    have fin: "finite ?F" by (simp add: free_blocks_def)
    let ?B = "set (blocks (disk m') ?l (s mod 504 + n))"
    have "distinct (blocks (disk m') ?l (s mod 504 + n))" using m'(2) by (simp add: stored_def)
    then have "card ?B = Suc ((s mod 504 + n - 1) div 504)" by (simp only: distinct_card length_blocks)
    moreover have "?l \<in> ?B" "?l \<notin> ?F" using l_ok(3) by (simp_all add: free_blocks_def)
    ultimately have "card (?B - {?l}) = (s mod 504 + n - 1) div 504" by simp
    moreover have "?B - {?l} \<subseteq> ?F" "?F - ?B = ?F - (?B - {?l})" using m'(3) \<open>?l \<notin> ?F\<close> by auto
    ultimately show ?thesis
      unfolding m'(4) using card_Diff_subset [of "?B - {?l}" ?F] card_mono [OF fin, of "?B - {?l}"] by simp
  qed
  ultimately show ?thesis using join m'(8) ino' by (intro exI [of _ m']) simp
qed

text \<open>A read delivers the first \<open>sz\<close> bytes, or all of a shorter file.\<close>

lemma read_prefix:
  assumes "ino < 128" and "inode (disk (mem k)) ino c s" and "stored sectors (disk (mem k)) c s f"
    and "s < 4294967296" and "n = min (unat sz) s"
    and out: "valid out n" "\<not> is_const (fst out)" "\<not> owned (fst out)" "fst out \<noteq> Local 2 512"
  shows "\<exists>m'. NQFS_read_bytes hw dev (of_nat ino) out sz k = ok (0, k\<lparr>mem := m'\<rparr>) \<and>
    (\<forall>i < n. window m' out i = f i) \<and> disk m' = disk (mem k) \<and>
    (\<forall>b. b \<notin> {Local 1 512, Local 2 512, fst out} \<longrightarrow> m' b = mem k b)"
proof -
  let ?m = "upd_bytes (mem k) sector 512 (disk (mem k) ino)"
  have c: "c < sectors" "128 \<le> c" using assms(3) first_block [of c "disk (mem k)" s] unfolding stored_def by auto
  then have ino: "ino < sectors" using assms(1) by simp
  note start = read_inode [OF ino assms(2)]
  have d: "disk ?m = disk (mem k)" using disk_buffer [of sector _ 0] by simp
  have n32: "n < 4294967296" using assms(4,5) by simp
  have fa: "file_at sectors (disk ?m) c n f"
    using file_at_prefix [of sectors "disk (mem k)" c s f n] assms(3,5) by (simp add: stored_def d)
  obtain m' where m': "read_loop dev (of_nat c) out (of_nat n) ?m = ok (0, m')"
      "\<forall>b. b \<noteq> Local 2 512 \<longrightarrow> m' b = upd_bytes ?m out n f b"
    using read_loop_file [OF fa c(1) out(1) n32 out(2-4)] by blast
  have "(of_nat c :: u32) \<noteq> 0" using c few by (intro of_nat_nonzero) simp_all
  moreover have "(if sz > of_nat s then of_nat s else sz) = (of_nat n :: u32)"
    using assms(4) unfolding assms(5) by (auto simp: word_less_nat_alt min_def)
  ultimately have "NQFS_read_bytes hw dev (of_nat ino) out sz k = ok (0, k\<lparr>mem := m'\<rparr>)"
    using start m'(1) by (simp add: NQFS_read_bytes_def) (simp add: on_mem_def)
  moreover have "window m' out i = f i" if "i < n" for i
  proof -
    have "window m' out = window (upd_bytes ?m out n f) out"
      by (rule window_cong) (use m'(2) out(4) in simp)
    then show ?thesis using window_full [OF out(1,2) that] by simp
  qed
  moreover have "disk m' = disk (mem k)"
  proof -
    have "disk m' = disk (upd_bytes ?m out n f)"
      using m'(2) not_local by (intro disk_cong) metis
    then show ?thesis using out(3) d by (simp add: disk_upd_bytes)
  qed
  moreover have "\<forall>b. b \<notin> {Local 1 512, Local 2 512, fst out} \<longrightarrow> m' b = mem k b"
    using m'(2) by (simp add: upd_bytes_def)
  ultimately show ?thesis by blast
qed

end

section \<open>On the RAM disk\<close>

text \<open>
  A file of the RAM disk gives back what was put into it, all of it and in the same order, and no block in
  use of another file is changed.
\<close>

lemma nqfs_write_read:
  assumes "ino < 128" and "128 \<le> c" and "c < 10239" and "block_used (ram_sector (mem k) c)"
    and "inode (ram_sector (mem k)) ino c 0"
    and "0 < n" and "n < 4294967296" and "valid src n"
    and "fst src \<notin> {Ramfs_blocks, Local 1 512, Local 2 512, Local 3 512}"
    and "(n - 1) div 504 \<le> card (free_blocks 10239 (ram_sector (mem k)))"
    and "valid out n" and "\<not> is_const (fst out)" and "fst out \<notin> {Ramfs_blocks, Local 2 512}"
  shows "\<exists>k1 k2. NQFS_write_bytes hw RAMBLK__device (of_nat ino) src (of_nat n) k = ok (of_nat n, k1) \<and>
    (\<forall>t < 10239. 128 \<le> t \<and> t \<noteq> c \<and> block_used (ram_sector (mem k) t) \<longrightarrow>
       same_sector (ram_sector (mem k1) t) (ram_sector (mem k) t)) \<and>
    NQFS_read_bytes hw RAMBLK__device (of_nat ino) out (of_nat n) k1 = ok (0, k2) \<and>
    (\<forall>i < n. window (mem k2) out i = window (mem k) src i)"
proof -
  have src: "fst src \<noteq> Ramfs_blocks" "fst src \<notin> {Local 1 512, Local 2 512, Local 3 512}"
    and out: "fst out \<noteq> Ramfs_blocks" "fst out \<noteq> Local 2 512"
    using assms(9,13) by auto
  have empty: "stored 10239 (ram_sector (mem k)) c 0 (\<lambda>_. 0)" "open_end 0" "0 + n < 4294967296"
    "(0 mod 504 + n - 1) div 504 \<le> card (free_blocks 10239 (ram_sector (mem k)))"
    using assms(2-4,7,10) by (simp_all add: stored_def file_at_small)
  obtain m1 where m1: "NQFS_write_bytes hw RAMBLK__device (of_nat ino) src (of_nat n) k = ok (of_nat n, k\<lparr>mem := m1\<rparr>)"
      "inode (ram_sector m1) ino c (0 + n)"
      "stored 10239 (ram_sector m1) c (0 + n) (\<lambda>l. if l < 0 then 0 else window (mem k) src (l - 0))"
      "\<forall>t < 10239. t \<noteq> last (blocks (ram_sector (mem k)) c 0) \<and> t \<noteq> ino \<and> (t < 128 \<or> block_used (ram_sector (mem k) t)) \<longrightarrow>
         same_sector (ram_sector m1 t) (ram_sector (mem k) t)"
    using ram_nqfs.write_append [OF assms(1,5) empty(1,2) assms(6) empty(3) assms(8) src empty(4)] by blast
  let ?k1 = "k\<lparr>mem := m1\<rparr>"
  have fa: "inode (ram_sector (mem ?k1)) ino c n" "stored 10239 (ram_sector (mem ?k1)) c n (window (mem k) src)"
    and n: "n = min (unat (of_nat n :: u32)) n"
    using m1(2,3) assms(7) by simp_all
  from ram_nqfs.read_prefix [OF assms(1) fa assms(7) n assms(11,12) out]
  obtain m2 where "NQFS_read_bytes hw RAMBLK__device (of_nat ino) out (of_nat n) ?k1 = ok (0, ?k1\<lparr>mem := m2\<rparr>)"
    "\<forall>i < n. window m2 out i = window (mem k) src i" by blast
  with m1(1,4) assms(1) show ?thesis by (intro exI [of _ ?k1] exI [of _ "?k1\<lparr>mem := m2\<rparr>"]) auto
qed

end
