(* ===== verification/Nqfs_Create.thy ===== *)
theory Nqfs_Create
  imports Nqfs_Store Live
begin

text \<open>
  \<open>NQFS_create_file\<close>: it takes the first free inode and the first free block, for any device and any
  console that keeps their contracts. \<open>fresh_inode\<close> is what an inode holds then.
\<close>

section \<open>Inodes\<close>

definition fresh_inode :: "(nat \<Rightarrow> u8) \<Rightarrow> nat \<Rightarrow> nat \<Rightarrow> u8 list \<Rightarrow> bool" where
  "fresh_inode f j c name \<longleftrightarrow> f (128 * j) = 1 \<and>
     (\<forall>i \<le> length name. f (128 * j + 1 + i) = (name @ [0]) ! i) \<and>
     word_at f (128 * j + 65) = of_nat c \<and> word_at f (128 * j + 69) = 0"

definition same_inodes_but :: "nat \<Rightarrow> (nat \<Rightarrow> u8) \<Rightarrow> (nat \<Rightarrow> u8) \<Rightarrow> bool" where
  "same_inodes_but j f g \<longleftrightarrow> (\<forall>i < 512. i < 128 * j \<or> 128 * j + 128 \<le> i \<longrightarrow> f i = g i)"

lemma fresh_inode_same: "same_sector f g \<Longrightarrow> j < 4 \<Longrightarrow> length name < 64 \<Longrightarrow> fresh_inode f j c name = fresh_inode g j c name"
  using word_at_same [of f g "128 * j + 65"] word_at_same [of f g "128 * j + 69"]
  by (simp add: fresh_inode_def same_sector_def)

lemma same_inodes_but_same: "same_sector f g \<Longrightarrow> same_inodes_but j f h = same_inodes_but j g h"
  by (simp add: same_inodes_but_def same_sector_def)

text \<open>The five writes to the buffer, one after the other.\<close>

lemma set_inode:
  assumes "j < 4" and "cstring m filename xs" and name: "fst filename \<notin> {Local 1 512, Vga_buf}"
  shows "\<exists>m1 m2 m3 m4 m5. store m (padd sector (of_nat (128 * j))) 1 = ok m1 \<and>
    store32 (fp_size (padd sector (of_nat (128 * j)))) 0 m1 = ok m2 \<and>
    store32 (fp_start_sector (padd sector (of_nat (128 * j)))) (of_nat c) m2 = ok m3 \<and>
    strncpy filename (fp_filename (padd sector (of_nat (128 * j)))) NQFS_MAX_FILENAME_SIZE m3 = ok m4 \<and>
    store m4 (padd (fp_filename (padd sector (of_nat (128 * j)))) (NQFS_MAX_FILENAME_SIZE - 1)) 0 = ok m5 \<and>
    (\<forall>b. b \<noteq> Local 1 512 \<longrightarrow> m5 b = m b) \<and> fresh_inode (window m5 sector) j c (take 63 xs) \<and>
    same_inodes_but j (window m5 sector) (window m sector)"
proof -
  let ?o = "128 * j"
  let ?l = "min (Suc (length xs)) 64"
  define p where "p i = padd sector (of_nat (?o + i))" for i
  have at: "padd sector (of_nat ?o) = p 0" "fp_size (padd sector (of_nat ?o)) = p 69"
    "fp_start_sector (padd sector (of_nat ?o)) = p 65" "fp_filename (padd sector (of_nat ?o)) = p 1"
    "padd (fp_filename (padd sector (of_nat ?o))) (NQFS_MAX_FILENAME_SIZE - 1) = p 64"
    by (simp_all add: p_def padd_padd add.commute)
  let ?m1 = "upd_bytes m (p 0) 1 (\<lambda>_. 1)"
  let ?m2 = "upd_bytes ?m1 (p 69) 4 (byte_of 0)"
  let ?m3 = "upd_bytes ?m2 (p 65) 4 (byte_of (of_nat c))"
  let ?m4 = "upd_bytes ?m3 (p 1) ?l (\<lambda>k. (xs @ [0]) ! k)"
  let ?m5 = "upd_bytes ?m4 (p 64) 1 (\<lambda>_. 0)"
  have inside: "valid (p i) l" if "i + l \<le> 128" "0 < l" for i l
    unfolding p_def using that assms(1) by (intro valid_padd [of _ 512]) simp_all
  have fst_p [simp]: "fst (p i) = Local 1 512" for i by (simp add: p_def)
  have st: "store m' (p i) v = ok (upd_bytes m' (p i) 1 (\<lambda>_. v))" if "i < 128" for m' i v
    unfolding p_def using that assms(1) by (intro store_byte [of _ 512]) simp_all
  have st32: "store32 (p i) v m' = ok (upd_bytes m' (p i) 4 (byte_of v))" if "i + 4 \<le> 128" for m' i v
    unfolding p_def using that assms(1) by (intro store32_window [of _ 512]) simp_all
  have "?m3 (fst filename) = m (fst filename)" using name by (simp add: upd_bytes_def)
  then have "cstring ?m3 filename xs" using cstring_cong assms(2) by metis
  moreover have "disjoint (p 1) (unat NQFS_MAX_FILENAME_SIZE) filename (Suc (length xs))"
    using name by (auto simp: disjoint_def)
  ultimately have cp: "strncpy filename (p 1) NQFS_MAX_FILENAME_SIZE ?m3 = ok ?m4"
    using strncpy_upd [of ?m3 filename xs "p 1" NQFS_MAX_FILENAME_SIZE] inside [of 1 64] by simp
  have win: "window (upd_bytes m' (p i) l f) sector x =
      (if ?o + i \<le> x \<and> x < ?o + i + l then f (x - (?o + i)) else window m' sector x)"
    if "i + l \<le> 128" "x < 512" for m' i l f x
    unfolding p_def using that assms(1) by (intro window_upd [of _ 512]) simp_all
  have w5: "window ?m5 sector x = (if x = ?o + 64 then 0
      else if ?o + 1 \<le> x \<and> x < ?o + 1 + ?l then (xs @ [0]) ! (x - (?o + 1))
      else if ?o + 65 \<le> x \<and> x < ?o + 69 then byte_of (of_nat c) (x - (?o + 65))
      else if ?o + 69 \<le> x \<and> x < ?o + 73 then 0
      else if x = ?o then 1 else window m sector x)" if "x < 512" for x
    using that by (simp add: win)
  have "window ?m5 sector (?o + 1 + i) = (take 63 xs @ [0]) ! i" if "i \<le> length (take 63 xs)" for i
    using that assms(1) w5 [of "?o + 1 + i"] by (auto simp: nth_append min_def)
  moreover have "word_at (window ?m5 sector) (?o + 65) = of_nat c" "word_at (window ?m5 sector) (?o + 69) = 0"
    by (rule word_at_byte_of, use assms(1) w5 in simp)+
  moreover have "window ?m5 sector ?o = 1" using w5 [of ?o] assms(1) by simp
  ultimately have "fresh_inode (window ?m5 sector) j c (take 63 xs)" by (simp add: fresh_inode_def)
  moreover have "same_inodes_but j (window ?m5 sector) (window m sector)"
    unfolding same_inodes_but_def
  proof (intro allI impI)
    fix x assume x: "x < 512" "x < ?o \<or> ?o + 128 \<le> x"
    show "window ?m5 sector x = window m sector x" unfolding w5 [OF x(1)] using x(2) by auto
  qed
  moreover have "\<forall>b. b \<noteq> Local 1 512 \<longrightarrow> ?m5 b = m b" by (simp add: upd_bytes_other)
  moreover have "store m (p 0) 1 = ok ?m1" "store32 (p 69) 0 ?m1 = ok ?m2" "store32 (p 65) (of_nat c) ?m2 = ok ?m3"
    "store ?m4 (p 64) 0 = ok ?m5"
    by (rule st st32, simp)+
  ultimately show ?thesis using cp unfolding at(5) unfolding at(2-4) unfolding at(1) by blast
qed

section \<open>Creating a file\<close>

text \<open>The first free inode, and the first free block, in the order the code looks at them.\<close>

definition first_inode :: "(nat \<Rightarrow> nat \<Rightarrow> u8) \<Rightarrow> nat \<Rightarrow> nat \<Rightarrow> bool" where
  "first_inode dk i j \<longleftrightarrow> i < FILEPTR_SECTORS \<and> j < FILEPTR_PER_SECTOR \<and> dk i (128 * j) = 0 \<and>
     (\<forall>i' < i. \<forall>j' < FILEPTR_PER_SECTOR. dk i' (128 * j') \<noteq> 0) \<and> (\<forall>j' < j. dk i (128 * j') \<noteq> 0)"

definition first_free :: "nat \<Rightarrow> (nat \<Rightarrow> nat \<Rightarrow> u8) \<Rightarrow> nat \<Rightarrow> bool" where
  "first_free sectors dk c \<longleftrightarrow> 128 \<le> c \<and> c < sectors \<and> \<not> block_used (dk c) \<and> (\<forall>t. 128 \<le> t \<longrightarrow> t < c \<longrightarrow> block_used (dk t))"

lemma first_free_exists:
  assumes "free_blocks sectors dk \<noteq> {}"
  obtains c where "first_free sectors dk c"
proof -
  obtain x where "x \<in> free_blocks sectors dk" using assms by blast
  then obtain c where c: "c \<in> free_blocks sectors dk" "\<forall>t < c. t \<notin> free_blocks sectors dk"
    using first_nat [of "\<lambda>x. x \<in> free_blocks sectors dk"] by blast
  then have "first_free sectors dk c" by (auto simp: first_free_def free_blocks_def)
  then show thesis by (rule that)
qed

definition created_text :: "u8 list \<Rightarrow> nat \<Rightarrow> nat \<Rightarrow> u8 list" where
  "created_text name c i = bytes_of ''Created file \"'' @ name @ bytes_of ''\" at sector  '' @
     int_text (sint (of_nat c :: u32)) @ bytes_of '' fp '' @ int_text (sint (of_nat i :: u32)) @ [10]"

context nqfs_device begin

lemma take_inode_takes:
  assumes "i < 128" and "j < 4" and "first_free sectors (disk m) c" and "cstring m filename xs"
    and name: "\<not> owned (fst filename)" "fst filename \<notin> {Local 1 512, Local 3 512, Vga_buf}"
  shows "\<exists>m'. take_inode dev filename i (padd sector (of_nat (128 * j))) m = ok (of_nat c, m') \<and>
    (\<forall>b. \<not> owned b \<and> b \<notin> {Local 1 512, Local 3 512} \<longrightarrow> m' b = m b) \<and>
    fresh_inode (window m' sector) j c (take 63 xs) \<and> same_inodes_but j (window m' sector) (window m sector) \<and>
    (\<forall>t < sectors. same_sector (disk m' t)
       (if t = i then window m' sector else if t = c then marked (disk m c) else disk m t))"
proof -
  have c: "128 \<le> c" "c < sectors" "\<not> block_used (disk m c)" "\<And>t. 128 \<le> t \<Longrightarrow> t < c \<Longrightarrow> block_used (disk m t)"
    using assms(3) by (auto simp: first_free_def)
  obtain m0 where m0: "NQFS_get_next_free_block dev m = ok (of_nat c, m0)"
    "\<forall>b. \<not> owned b \<and> b \<noteq> Local 3 512 \<longrightarrow> m0 b = m b" "disk_put m m0 c (marked (disk m c))"
    using next_free_block [OF c] by blast
  have w0: "window m0 sector = window m sector" by (rule window_cong) (use m0(2) not_local in simp)
  have "m0 (fst filename) = m (fst filename)" using m0(2) name by simp
  then have cs: "cstring m0 filename xs" using cstring_cong assms(4) by metis
  have nm: "fst filename \<notin> {Local 1 512, Vga_buf}" using name(2) by simp
  obtain m1 m2 m3 m4 m5 where s: "store m0 (padd sector (of_nat (128 * j))) 1 = ok m1"
    "store32 (fp_size (padd sector (of_nat (128 * j)))) 0 m1 = ok m2"
    "store32 (fp_start_sector (padd sector (of_nat (128 * j)))) (of_nat c) m2 = ok m3"
    "strncpy filename (fp_filename (padd sector (of_nat (128 * j)))) NQFS_MAX_FILENAME_SIZE m3 = ok m4"
    "store m4 (padd (fp_filename (padd sector (of_nat (128 * j)))) (NQFS_MAX_FILENAME_SIZE - 1)) 0 = ok m5"
    "\<forall>b. b \<noteq> Local 1 512 \<longrightarrow> m5 b = m0 b" "fresh_inode (window m5 sector) j c (take 63 xs)"
    "same_inodes_but j (window m5 sector) (window m0 sector)"
    using set_inode [OF assms(2) cs nm, of c] by blast
  have d5: "disk m5 = disk m0" using s(6) not_local by (intro disk_cong) metis
  have i: "i < sectors" using assms(1) c(1,2) by simp
  obtain m' where m': "write_sector dev (device_no dev) (of_nat i) sector m5 = ok (1, m')"
    "\<forall>b. \<not> owned b \<longrightarrow> m' b = m5 b" "disk_put m5 m' i (window m5 sector)"
    using write_buffer [OF i, of sector "device_no dev" m5] by auto
  have w': "window m' sector = window m5 sector" by (rule window_cong) (use m'(2) not_local in simp)
  have nz: "(of_nat c :: u32) \<noteq> 0" using c(1,2) few by (intro of_nat_nonzero) simp_all
  have put: "same_sector (disk m' t) (if t = i then window m' sector else if t = c then marked (disk m c) else disk m t)"
    if "t < sectors" for t
  proof -
    have "same_sector (disk m' t) (if t = i then window m5 sector else disk m0 t)"
      using m'(3) that unfolding disk_put_def d5 by blast
    moreover have "same_sector (disk m0 t) (if t = c then marked (disk m c) else disk m t)"
      using m0(3) that unfolding disk_put_def by blast
    ultimately show ?thesis unfolding w' by (cases "t = i") (auto intro: same_sector_trans)
  qed
  have "take_inode dev filename i (padd sector (of_nat (128 * j))) m = ok (of_nat c, m')"
    by (simp only: take_inode_def m0(1) s(1-5) m'(1) bind_res_simps prod.case nz if_False one_neq_zero)
  moreover have "\<forall>b. \<not> owned b \<and> b \<notin> {Local 1 512, Local 3 512} \<longrightarrow> m' b = m b"
    using m'(2) s(6) m0(2) by simp
  ultimately show ?thesis using s(7,8) put by (intro exI [of _ m'] conjI) (simp_all only: w' w0, blast)
qed

end

text \<open>The disk is not the screen: printing leaves it alone.\<close>

locale nqfs_console = nqfs_device +
  assumes not_screen: "\<not> owned Vga_buf" "\<not> owned Phys"
begin

lemma disk_writes:
  assumes "writes hw t s s'"
  shows "disk (mem s') = disk (mem s)"
proof (rule disk_cong)
  fix b assume "owned b"
  then have "b \<noteq> Vga_buf" "b \<noteq> Phys" using not_screen by auto
  then show "mem s' b = mem s b" using assms by (simp add: writes_def screen_only_def)
qed

text \<open>One round of the outer loop, up to the inner one.\<close>

abbreviation sector_read :: "machine \<Rightarrow> nat \<Rightarrow> machine" where
  "sector_read k i \<equiv> k\<lparr>mem := upd_bytes (mem k) sector 512 (disk (mem k) i)\<rparr>"

lemma inode_round:
  assumes "i < sectors"
  shows "on_mem (read_sector dev (device_no dev) (of_nat i) sector) k = ok (1, sector_read k i)"
    and "on_mem (read_sector dev (device_no dev) (of_nat i) sector) (sector_read k l) = ok (1, sector_read k i)"
    and "disk (mem (sector_read k i)) = disk (mem k)"
    and "j < 4 \<Longrightarrow> load (mem (sector_read k i)) (padd sector (of_nat (128 * j))) = ok (disk (mem k) i (128 * j))"
proof -
  have d: "disk (mem (sector_read k l)) = disk (mem k)" for l using disk_buffer [of sector _ 0] by simp
  then show "disk (mem (sector_read k i)) = disk (mem k)" .
  show "on_mem (read_sector dev (device_no dev) (of_nat i) sector) k = ok (1, sector_read k i)"
    using assms by (simp add: on_mem_def read_buffer)
  have "read_sector dev (device_no dev) (of_nat i) sector (mem (sector_read k l)) =
      ok (1, upd_bytes (mem (sector_read k l)) sector 512 (disk (mem k) i))"
    using read_buffer [OF assms, of sector _ "mem (sector_read k l)"] unfolding d by simp
  then show "on_mem (read_sector dev (device_no dev) (of_nat i) sector) (sector_read k l) = ok (1, sector_read k i)"
    by (simp add: on_mem_def upd_bytes_twice)
  show "load (mem (sector_read k i)) (padd sector (of_nat (128 * j))) = ok (disk (mem k) i (128 * j))" if "j < 4"
    using that load_window [of sector 512 "128 * j" "mem (sector_read k i)"] by (simp add: window_full)
qed

text \<open>The two loops of \<open>NQFS_create_file\<close> come to the first free inode; what it does there decides.\<close>

lemma create_search:
  assumes "i < sectors" and "first_inode (disk (mem k)) i j"
    and "take_inode dev filename i (padd sector (of_nat (128 * j))) (mem (sector_read k i)) = ok (r, m')"
    and "if r = 0 then x = (0, k\<lparr>mem := m'\<rparr>)
      else \<exists>k'. printf_nolock hw (lit ''Created file \"%s\" at sector  %d fp %d\<newline>'')
        [Va_ptr (fp_filename (padd sector (of_nat (128 * j)))), Va_int r, Va_int (of_nat i)] (k\<lparr>mem := m'\<rparr>) = ok k' \<and>
        x = (of_nat i, k')"
  shows "NQFS_create_file hw dev filename k = ok x"
proof -
  have ij: "i < 128" "j < 4" "disk (mem k) i (128 * j) = 0"
    "\<And>i' j'. i' < i \<Longrightarrow> j' < 4 \<Longrightarrow> disk (mem k) i' (128 * j') \<noteq> 0" "\<And>j'. j' < j \<Longrightarrow> disk (mem k) i (128 * j') \<noteq> 0"
    using assms(2) by (auto simp: first_inode_def)
  let ?inner = "\<lambda>i j k. let fp = padd sector (of_nat (128 * j)) in
      bind_res (load (mem k) fp) (\<lambda>allocd.
      if allocd = 0
      then bind_res (on_mem (take_inode dev filename i fp) k) (\<lambda>(new_sector, k).
           if new_sector = 0 then ok (Stop (0, k))
           else bind_res (printf_nolock hw (lit ''Created file \"%s\" at sector  %d fp %d\<newline>'')
                  [Va_ptr (fp_filename fp), Va_int new_sector, Va_int (of_nat i)] k) (\<lambda>k.
                ok (Stop (of_nat i :: u32, k))))
      else ok (Next k))"
  let ?outer = "\<lambda>i k. bind_res (on_mem (read_sector dev (device_no dev) (of_nat i) sector) k) (\<lambda>(r, k).
      if r = 0 then ok (Stop (0, k)) else for_exit 0 FILEPTR_PER_SECTOR (?inner i) k)"
  let ?F = "\<lambda>i'. if i' = 0 then k else sector_read k (i' - 1)"
  have rd: "on_mem (read_sector dev (device_no dev) (of_nat i') sector) (?F i') = ok (1, sector_read k i')" if "i' \<le> i" for i'
    using inode_round(1,2) [of i'] assms(1) that by (cases "i' = i") auto
  have used: "?inner i' j' (sector_read k i') = ok (Next (sector_read k i'))"
    if "i' \<le> i" "j' < 4" "disk (mem k) i' (128 * j') \<noteq> 0" for i' j'
    using inode_round(4) [of i' j' k] assms(1) that by (cases "i' = i") simp_all
  have "?outer i' (?F i') = ok (Next (?F (Suc i')))" if "i' < i" for i'
  proof -
    have "for_exit 0 4 (?inner i') (sector_read k i') = ok (Next (sector_read k i'))"
      using that ij(4) by (intro for_exit_next [where F = "\<lambda>_. sector_read k i'"] used) simp_all
    then show ?thesis using rd [of i'] that by simp
  qed
  moreover have "?outer i (?F i) = ok (Stop x)"
  proof -
    have "?inner i j (sector_read k i) = ok (Stop x)"
      using inode_round(4) [OF assms(1) ij(2), of k] ij(3) assms(3,4) by (cases "r = 0") (auto simp: on_mem_def)
    then have "for_exit 0 4 (?inner i) (sector_read k i) = ok (Stop x)"
      using ij(2,5) by (intro for_exit_stop [where F = "\<lambda>_. (sector_read k i)" and k = j] used) simp_all
    then show ?thesis using rd [of i] by simp
  qed
  ultimately have "for_exit 0 FILEPTR_SECTORS ?outer (?F 0) = ok (Stop x)"
    using ij(1) by (intro for_exit_stop [where k = i]) simp_all
  then show ?thesis by (cases x) (simp add: NQFS_create_file_def)
qed

lemma create_file:
  assumes "live_console hw k" and "first_inode (disk (mem k)) i j" and "first_free sectors (disk (mem k)) c"
    and "cstring (mem k) filename xs" and "8 \<notin> set xs"
    and name: "\<not> owned (fst filename)" "fst filename \<notin> {Local 1 512, Local 3 512, Vga_buf}"
  shows "\<exists>k'. NQFS_create_file hw dev filename k = ok (of_nat i, k') \<and> live_console hw k' \<and> lock k' = lock k \<and>
    com1_sent (io_log k') = com1_sent (io_log k) @ created_text (take 63 xs) c i \<and>
    fresh_inode (disk (mem k') i) j c (take 63 xs) \<and> same_inodes_but j (disk (mem k') i) (disk (mem k) i) \<and>
    (\<forall>t < sectors. t \<noteq> i \<longrightarrow> same_sector (disk (mem k') t) (if t = c then marked (disk (mem k) c) else disk (mem k) t)) \<and>
    (\<forall>b. \<not> owned b \<and> b \<notin> {Local 1 512, Local 3 512, Vga_buf, Phys} \<longrightarrow> mem k' b = mem k b)"
proof -
  let ?K = "sector_read k i" and ?fp = "padd sector (of_nat (128 * j))"
  have ij: "i < 128" "j < 4" "disk (mem k) i (128 * j) = 0"
    "\<And>i' j'. i' < i \<Longrightarrow> j' < 4 \<Longrightarrow> disk (mem k) i' (128 * j') \<noteq> 0" "\<And>j'. j' < j \<Longrightarrow> disk (mem k) i (128 * j') \<noteq> 0"
    using assms(2) by (auto simp: first_inode_def)
  have c: "128 \<le> c" "c < sectors" using assms(3) by (auto simp: first_free_def)
  then have i: "i < sectors" "\<And>i'. i' < i \<Longrightarrow> i' < sectors" using ij(1) by simp_all
  have dK: "disk (mem ?K) = disk (mem k)" by (rule inode_round(3) [OF i(1)])
  have "mem ?K (fst filename) = mem k (fst filename)" using name(2) by (simp add: upd_bytes_def)
  then have cs: "cstring (mem ?K) filename xs" using cstring_cong assms(4) by metis
  have free: "first_free sectors (disk (mem ?K)) c" using assms(3) by (simp only: dK)
  obtain m' where m': "take_inode dev filename i ?fp (mem ?K) = ok (of_nat c, m')"
    "\<forall>b. \<not> owned b \<and> b \<notin> {Local 1 512, Local 3 512} \<longrightarrow> m' b = mem ?K b"
    "fresh_inode (window m' sector) j c (take 63 xs)" "same_inodes_but j (window m' sector) (window (mem ?K) sector)"
    "\<forall>t < sectors. same_sector (disk m' t)
       (if t = i then window m' sector else if t = c then marked (disk (mem k) c) else disk (mem k) t)"
    using take_inode_takes [OF ij(1,2) free cs name] unfolding dK by blast
  let ?k1 = "?K\<lparr>mem := m'\<rparr>"
  let ?args = "[Va_ptr (fp_filename ?fp), Va_int (of_nat c), Va_int (of_nat i)]"
  let ?fmt = "''Created file \"%s\" at sector  %d fp %d\<newline>''"
  have "window m' sector (128 * j + 1 + l) = (take 63 xs @ [0]) ! l" if "l \<le> length (take 63 xs)" for l
    using m'(3) that by (simp add: fresh_inode_def)
  moreover have "peek m' (padd (fp_filename ?fp) (of_nat l)) = window m' sector (128 * j + 1 + l)" for l
    by (simp add: window_def padd_padd add_ac)
  moreover have "valid (fp_filename ?fp) (Suc (length (take 63 xs)))"
    using valid_padd [of sector 512 "128 * j + 1" "Suc (length (take 63 xs))"] ij(2)
    by (simp add: padd_padd add_ac min_def)
  moreover have "0 \<notin> set (take 63 xs)" using assms(4) by (auto simp: cstring_def dest: in_set_takeD)
  ultimately have str: "cstring m' (fp_filename ?fp) (take 63 xs)" by (simp add: cstring_def)
  have st: "strings_at (\<lambda>_. take 63 xs) ?args (mem ?k1)" using str by (simp add: strings_at_def)
  have fmt: "fmt_text (\<lambda>_. take 63 xs) (bytes_of ?fmt) ?args = Some (created_text (take 63 xs) c i, True)"
    by (simp add: bytes_of_def conv_text_def created_text_def)
  have plain: "8 \<notin> set (created_text (take 63 xs) c i)"
    using assms(5) int_text_printable in_set_takeD [of 8 63 xs] by (simp add: created_text_def) (auto simp: bytes_of_def)
  obtain k' where k': "printf_nolock hw (lit ?fmt) ?args ?k1 = ok k'" "writes hw (created_text (take 63 xs) c i) ?k1 k'"
    using printf_nolock_live [OF _ _ _ st fmt plain, of hw] assms(1) by (auto simp: bytes_of_def)
  have nz: "(of_nat c :: u32) \<noteq> 0" using c few by (intro of_nat_nonzero) simp_all
  have "NQFS_create_file hw dev filename k = ok (of_nat i, k')"
    by (rule create_search [OF i(1) assms(2) m'(1)]) (use nz k'(1) in simp)
  moreover have "disk (mem k') = disk m'" using disk_writes [OF k'(2)] by simp
  moreover have sec: "same_sector (disk m' i) (window m' sector)" using m'(5) i(1) by auto
  have "fresh_inode (disk m' i) j c (take 63 xs)"
    using m'(3) fresh_inode_same [OF sec ij(2)] by simp
  moreover have "same_inodes_but j (disk m' i) (disk (mem k) i)"
    using m'(4) unfolding same_inodes_but_same [OF sec] by (simp add: same_inodes_but_def window_full)
  moreover have "\<forall>b. \<not> owned b \<and> b \<notin> {Local 1 512, Local 3 512, Vga_buf, Phys} \<longrightarrow> mem k' b = mem k b"
    using m'(2) k'(2) by (simp add: writes_def screen_only_def upd_bytes_def)
  moreover have "\<forall>t < sectors. t \<noteq> i \<longrightarrow> same_sector (disk m' t) (if t = c then marked (disk (mem k) c) else disk (mem k) t)"
    using m'(5) by metis
  ultimately show ?thesis
    using k'(2) writes_lock [OF k'(2)] by (intro exI [of _ k']) (simp add: writes_def split del: if_split)
qed

end

section \<open>On the RAM disk\<close>

interpretation ram_files: nqfs_console RAMBLK__device ram_sector "\<lambda>b. b = Ramfs_blocks" 10239
  by unfold_locales simp_all

end
