(* ===== verification/Nqfs_Spec.thy ===== *)
theory Nqfs_Spec
  imports Nqfs_Create
begin

text \<open>
  The file system as its users see it: a finite map from file numbers to contents. \<open>represents\<close> relates the
  sectors of a device to such a map. Creating a file adds an empty one, writing appends, reading delivers
  a prefix; each is shown here for every device, and then for the RAM disk from its initialisation on.

  The number of a file is the sector of its inode, so only the first of the four inodes of a sector can
  be named. Creating a file in one of the other three leaves the map as it is.
\<close>

section \<open>The abstraction\<close>

definition start_of :: "(nat \<Rightarrow> nat \<Rightarrow> u8) \<Rightarrow> nat \<Rightarrow> nat" where
  "start_of dk i = unat (word_at (dk i) 65)"

definition size_of :: "(nat \<Rightarrow> nat \<Rightarrow> u8) \<Rightarrow> nat \<Rightarrow> nat" where
  "size_of dk i = unat (word_at (dk i) 69)"

definition chain :: "(nat \<Rightarrow> nat \<Rightarrow> u8) \<Rightarrow> nat \<Rightarrow> nat list" where
  "chain dk i = blocks dk (start_of dk i) (size_of dk i)"

definition holds :: "nat \<Rightarrow> (nat \<Rightarrow> nat \<Rightarrow> u8) \<Rightarrow> nat \<Rightarrow> u8 list \<Rightarrow> bool" where
  "holds sectors dk i xs \<longleftrightarrow> i < FILEPTR_SECTORS \<and> dk i 0 \<noteq> 0 \<and> size_of dk i = length xs \<and>
     stored sectors dk (start_of dk i) (length xs) (\<lambda>k. xs ! k)"

type_synonym files = "nat \<rightharpoonup> u8 list"

definition represents :: "nat \<Rightarrow> (nat \<Rightarrow> nat \<Rightarrow> u8) \<Rightarrow> files \<Rightarrow> bool" where
  "represents sectors dk fs \<longleftrightarrow> (\<forall>i xs. fs i = Some xs \<longrightarrow> holds sectors dk i xs) \<and>
     (\<forall>i \<in> dom fs. \<forall>i' \<in> dom fs. i \<noteq> i' \<longrightarrow> set (chain dk i) \<inter> set (chain dk i') = {})"

lemma representsD:
  assumes "represents sectors dk fs" and "fs i = Some xs"
  shows "holds sectors dk i xs" and "i' \<in> dom fs \<Longrightarrow> i' \<noteq> i \<Longrightarrow> set (chain dk i) \<inter> set (chain dk i') = {}"
  using assms domI [of fs i xs] unfolding represents_def by blast+

lemma represents_empty: "represents sectors dk Map.empty"
  by (simp add: represents_def)

lemma holds_length: "holds sectors dk i xs \<Longrightarrow> length xs < 4294967296"
  using unat_u32_less by (simp add: holds_def size_of_def) metis

lemma holds_chain:
  assumes "holds sectors dk i xs" and "b \<in> set (chain dk i)"
  shows "128 \<le> b" and "b < sectors" and "block_used (dk b)"
  using assms by (auto simp: holds_def chain_def stored_def)

lemma holds_inode:
  assumes "holds sectors dk i xs"
  shows "inode dk i (start_of dk i) (length xs)"
proof -
  have "(of_nat (start_of dk i) :: u32) = word_at (dk i) 65" "(of_nat (size_of dk i) :: u32) = word_at (dk i) 69"
    by (simp_all add: start_of_def size_of_def)
  then show ?thesis using assms by (simp add: holds_def inode_def)
qed

text \<open>A file is untouched when its inode and its blocks are.\<close>

lemma holds_frame:
  assumes "holds sectors dk i xs" and "\<forall>k < 128. dk' i k = dk i k"
    and "\<forall>b \<in> set (chain dk i). same_sector (dk' b) (dk b)"
  shows "holds sectors dk' i xs \<and> chain dk' i = chain dk i"
proof -
  have w: "word_at (dk' i) 65 = word_at (dk i) 65" "word_at (dk' i) 69 = word_at (dk i) 69"
    by (rule word_at_cong, use assms(2) in simp)+
  have st: "stored sectors dk (start_of dk i) (length xs) (\<lambda>k. xs ! k)" "size_of dk i = length xs"
    using assms(1) by (simp_all add: holds_def)
  have "\<forall>b \<in> set (blocks dk (start_of dk i) (length xs)). same_sector (dk' b) (dk b)"
    using assms(3) by (simp only: chain_def st(2))
  from stored_frame [OF st(1) this]
  have "stored sectors dk' (start_of dk i) (length xs) (\<lambda>k. xs ! k) \<and>
      blocks dk' (start_of dk i) (length xs) = blocks dk (start_of dk i) (length xs)" .
  moreover have "start_of dk' i = start_of dk i" "size_of dk' i = size_of dk i"
    by (simp_all add: start_of_def size_of_def w)
  moreover have "dk' i 0 = dk i 0" using assms(2) by simp
  moreover have "i < 128" "dk i 0 \<noteq> 0" using assms(1) by (simp_all add: holds_def)
  ultimately show ?thesis using st(2) by (simp only: holds_def chain_def simp_thms)
qed

text \<open>One file changes, the others are untouched.\<close>

lemma represents_update:
  assumes "represents sectors dk fs" and "holds sectors dk' i xs"
    and "\<And>i' ys. i' \<noteq> i \<Longrightarrow> fs i' = Some ys \<Longrightarrow> holds sectors dk' i' ys \<and> chain dk' i' = chain dk i'"
    and "\<And>i' ys. i' \<noteq> i \<Longrightarrow> fs i' = Some ys \<Longrightarrow> set (chain dk' i) \<inter> set (chain dk i') = {}"
  shows "represents sectors dk' (fs(i \<mapsto> xs))"
  unfolding represents_def
proof (intro conjI allI impI ballI)
  fix i' ys assume "(fs(i \<mapsto> xs)) i' = Some ys"
  then show "holds sectors dk' i' ys" using assms(2,3) by (auto split: if_splits)
next
  fix a b assume ab: "a \<in> dom (fs(i \<mapsto> xs))" "b \<in> dom (fs(i \<mapsto> xs))" "a \<noteq> b"
  have old: "chain dk' c = chain dk c" "set (chain dk' i) \<inter> set (chain dk c) = {}"
    if c: "c \<in> dom (fs(i \<mapsto> xs))" "c \<noteq> i" for c
  proof -
    obtain ys where ys: "fs c = Some ys" using c by auto
    show "chain dk' c = chain dk c" "set (chain dk' i) \<inter> set (chain dk c) = {}"
      using assms(3,4) [OF c(2) ys] by blast+
  qed
  consider "a = i" | "b = i" | "a \<noteq> i" "b \<noteq> i" by blast
  then show "set (chain dk' a) \<inter> set (chain dk' b) = {}"
  proof cases
    case 3
    then have "a \<in> dom fs" "b \<in> dom fs" using ab by auto
    then show ?thesis using 3 ab old assms(1) unfolding represents_def by metis
  qed (use ab old in \<open>auto simp: Int_commute\<close>)
qed

lemma represents_untouched:
  assumes "represents sectors dk fs"
    and "\<And>i xs. fs i = Some xs \<Longrightarrow> holds sectors dk' i xs \<and> chain dk' i = chain dk i"
  shows "represents sectors dk' fs"
  unfolding represents_def
proof (intro conjI allI impI ballI)
  fix a b assume ab: "a \<in> dom fs" "b \<in> dom fs" "a \<noteq> b"
  then have "chain dk' a = chain dk a" "chain dk' b = chain dk b" using assms(2) by auto
  then show "set (chain dk' a) \<inter> set (chain dk' b) = {}"
    using ab assms(1) unfolding represents_def by metis
qed (use assms(2) in blast)

section \<open>The operations\<close>

context nqfs_device begin

lemma write_represents:
  assumes "represents sectors (disk (mem k)) fs" and "fs ino = Some xs" and "open_end (length xs)"
    and "0 < n" and "length xs + n < 4294967296" and "valid src n"
    and src: "\<not> owned (fst src)" "fst src \<notin> {Local 1 512, Local 2 512, Local 3 512}"
    and "(length xs mod 504 + n - 1) div 504 \<le> card (free_blocks sectors (disk (mem k)))"
  shows "\<exists>m'. NQFS_write_bytes hw dev (of_nat ino) src (of_nat n) k = ok (of_nat n, k\<lparr>mem := m'\<rparr>) \<and>
    represents sectors (disk m') (fs(ino \<mapsto> xs @ map (window (mem k) src) [0..<n])) \<and>
    card (free_blocks sectors (disk m')) + (length xs mod 504 + n - 1) div 504 = card (free_blocks sectors (disk (mem k))) \<and>
    (\<forall>b. \<not> owned b \<and> b \<notin> {Local 1 512, Local 2 512, Local 3 512} \<longrightarrow> m' b = mem k b)"
proof -
  let ?dk = "disk (mem k)" and ?s = "length xs"
  let ?c = "start_of ?dk ino" and ?ys = "xs @ map (window (mem k) src) [0..<n]"
  note h = representsD(1) [OF assms(1,2)]
  have ino: "ino < 128" "?dk ino 0 \<noteq> 0" "stored sectors ?dk ?c ?s (\<lambda>k. xs ! k)" "size_of ?dk ino = ?s"
    using h by (simp_all add: holds_def)
  obtain m' where m': "NQFS_write_bytes hw dev (of_nat ino) src (of_nat n) k = ok (of_nat n, k\<lparr>mem := m'\<rparr>)"
    "inode (disk m') ino ?c (?s + n)"
    "stored sectors (disk m') ?c (?s + n) (\<lambda>l. if l < ?s then xs ! l else window (mem k) src (l - ?s))"
    "set (blocks (disk m') ?c (?s + n)) \<subseteq> set (blocks ?dk ?c ?s) \<union> free_blocks sectors ?dk"
    "\<forall>t < sectors. t \<noteq> last (blocks ?dk ?c ?s) \<and> t \<noteq> ino \<and> (t < 128 \<or> block_used (?dk t)) \<longrightarrow>
       same_sector (disk m' t) (?dk t)"
    "card (free_blocks sectors (disk m')) + (?s mod 504 + n - 1) div 504 = card (free_blocks sectors ?dk)"
    "\<forall>i < 512. i < 69 \<or> 73 \<le> i \<longrightarrow> disk m' ino i = ?dk ino i"
    "\<forall>b. \<not> owned b \<and> b \<notin> {Local 1 512, Local 2 512, Local 3 512} \<longrightarrow> m' b = mem k b"
    using write_append [OF ino(1) holds_inode [OF h] ino(3) assms(3-9)] by blast
  have "?c = unat (word_at (?dk ino) 65)" by (simp add: start_of_def)
  then have new: "start_of (disk m') ino = ?c" "size_of (disk m') ino = ?s + n"
    using m'(2) assms(5) by (simp_all add: inode_def start_of_def size_of_def del: of_nat_add)
  have l: "last (blocks ?dk ?c ?s) \<in> set (chain ?dk ino)" using ino(4) by (simp add: chain_def)
  have chain': "set (chain (disk m') ino) \<subseteq> set (chain ?dk ino) \<union> free_blocks sectors ?dk"
    using m'(4) by (simp add: chain_def new ino(4))
  have "stored sectors (disk m') ?c (?s + n) (\<lambda>l. ?ys ! l)"
    using m'(3) by (rule stored_cong) (simp add: nth_append)
  then have "holds sectors (disk m') ino ?ys"
    using ino m'(7) by (simp add: holds_def new)
  moreover have "holds sectors (disk m') i ys \<and> chain (disk m') i = chain ?dk i"
    and "set (chain (disk m') ino) \<inter> set (chain ?dk i) = {}" if i: "i \<noteq> ino" "fs i = Some ys" for i ys
  proof -
    note hi = representsD(1) [OF assms(1) i(2)]
    have dis: "set (chain ?dk ino) \<inter> set (chain ?dk i) = {}"
      using representsD(2) [OF assms(1,2)] i by auto
    have i128: "i < 128" "128 \<le> last (blocks ?dk ?c ?s)" "last (blocks ?dk ?c ?s) < sectors"
      using hi holds_chain [OF h l] by (simp_all add: holds_def)
    then have "same_sector (disk m' i) (?dk i)" using m'(5) i(1) by simp
    then have "\<forall>k < 128. disk m' i k = ?dk i k" by (simp add: same_sector_def)
    moreover have "\<forall>b \<in> set (chain ?dk i). same_sector (disk m' b) (?dk b)"
    proof
      fix b assume b: "b \<in> set (chain ?dk i)"
      then have "b \<noteq> last (blocks ?dk ?c ?s)" using dis l by auto
      then show "same_sector (disk m' b) (?dk b)" using m'(5) holds_chain [OF hi b] ino(1) by auto
    qed
    ultimately show "holds sectors (disk m') i ys \<and> chain (disk m') i = chain ?dk i" by (rule holds_frame [OF hi])
    show "set (chain (disk m') ino) \<inter> set (chain ?dk i) = {}"
      using chain' dis holds_chain(3) [OF hi] by (auto simp: free_blocks_def)
  qed
  ultimately have "represents sectors (disk m') (fs(ino \<mapsto> ?ys))" by (intro represents_update [OF assms(1)])
  with m'(1,6,8) show ?thesis by blast
qed

lemma read_represents:
  assumes "represents sectors (disk (mem k)) fs" and "fs ino = Some xs" and "n = min (unat sz) (length xs)"
    and out: "valid out n" "\<not> is_const (fst out)" "\<not> owned (fst out)" "fst out \<noteq> Local 2 512"
  shows "\<exists>m'. NQFS_read_bytes hw dev (of_nat ino) out sz k = ok (0, k\<lparr>mem := m'\<rparr>) \<and>
    map (window m' out) [0..<n] = take (unat sz) xs \<and> disk m' = disk (mem k) \<and>
    (\<forall>b. b \<notin> {Local 1 512, Local 2 512, fst out} \<longrightarrow> m' b = mem k b)"
proof -
  note h = representsD(1) [OF assms(1,2)]
  then have "ino < 128" "stored sectors (disk (mem k)) (start_of (disk (mem k)) ino) (length xs) (\<lambda>k. xs ! k)"
    by (simp_all add: holds_def)
  from read_prefix [OF this(1) holds_inode [OF h] this(2) holds_length [OF h] assms(3) out]
  obtain m' where m': "NQFS_read_bytes hw dev (of_nat ino) out sz k = ok (0, k\<lparr>mem := m'\<rparr>)"
    "\<forall>i < n. window m' out i = xs ! i" "disk m' = disk (mem k)"
    "\<forall>b. b \<notin> {Local 1 512, Local 2 512, fst out} \<longrightarrow> m' b = mem k b" by blast
  have "map (window m' out) [0..<n] = take (unat sz) xs"
    by (rule nth_equalityI) (use m'(2) assms(3) in auto)
  with m' show ?thesis by blast
qed

end

context nqfs_console begin

lemma create_represents:
  assumes "represents sectors (disk (mem k)) fs" and "live_console hw k"
    and "first_inode (disk (mem k)) i j" and "first_free sectors (disk (mem k)) c"
    and "cstring (mem k) filename xs" and "8 \<notin> set xs"
    and name: "\<not> owned (fst filename)" "fst filename \<notin> {Local 1 512, Local 3 512, Vga_buf}"
  shows "\<exists>k'. NQFS_create_file hw dev filename k = ok (of_nat i, k') \<and> live_console hw k' \<and> lock k' = lock k \<and>
    com1_sent (io_log k') = com1_sent (io_log k) @ created_text (take 63 xs) c i \<and>
    represents sectors (disk (mem k')) (if j = 0 then fs(i \<mapsto> []) else fs) \<and> (j = 0 \<longrightarrow> fs i = None) \<and>
    free_blocks sectors (disk (mem k')) = free_blocks sectors (disk (mem k)) - {c} \<and>
    (\<forall>b. \<not> owned b \<and> b \<notin> {Local 1 512, Local 3 512, Vga_buf, Phys} \<longrightarrow> mem k' b = mem k b)"
proof -
  let ?dk = "disk (mem k)"
  obtain k' where k': "NQFS_create_file hw dev filename k = ok (of_nat i, k')" "live_console hw k'" "lock k' = lock k"
    "com1_sent (io_log k') = com1_sent (io_log k) @ created_text (take 63 xs) c i"
    "fresh_inode (disk (mem k') i) j c (take 63 xs)" "same_inodes_but j (disk (mem k') i) (?dk i)"
    "\<forall>t < sectors. t \<noteq> i \<longrightarrow> same_sector (disk (mem k') t) (if t = c then marked (?dk c) else ?dk t)"
    "\<forall>b. \<not> owned b \<and> b \<notin> {Local 1 512, Local 3 512, Vga_buf, Phys} \<longrightarrow> mem k' b = mem k b"
    using create_file [OF assms(2-8)] by blast
  let ?dk' = "disk (mem k')"
  have c: "128 \<le> c" "c < sectors" "\<not> block_used (?dk c)" using assms(4) by (auto simp: first_free_def)
  have ij: "i < 128" "j < 4" "?dk i (128 * j) = 0" using assms(3) by (auto simp: first_inode_def)
  have data: "same_sector (?dk' t) (if t = c then marked (?dk c) else ?dk t)" if "128 \<le> t" "t < sectors" for t
    using k'(7) that ij(1) by simp
  then have used: "block_used (?dk' t) = (t = c \<or> block_used (?dk t))" if "128 \<le> t" "t < sectors" for t
    using block_used_same [OF data [OF that]] by simp
  have kept: "holds sectors ?dk' a ys \<and> chain ?dk' a = chain ?dk a \<and> c \<notin> set (chain ?dk a) \<and> (a = i \<longrightarrow> j \<noteq> 0)"
    if a: "fs a = Some ys" for a ys
  proof -
    note ha = representsD(1) [OF assms(1) a]
    have a0: "a < 128" "?dk a 0 \<noteq> 0" using ha by (simp_all add: holds_def)
    have j: "j \<noteq> 0" if "a = i" using that a0(2) ij(3) by (cases "j = 0") simp_all
    have "\<forall>x < 128. ?dk' a x = ?dk a x"
    proof (cases "a = i")
      case True
      then show ?thesis using k'(6) j by (simp add: same_inodes_but_def)
    next
      case False
      moreover have "a < sectors" "a \<noteq> c" using a0(1) c(1,2) by simp_all
      ultimately have "same_sector (?dk' a) (?dk a)" using k'(7) [rule_format, of a] by simp
      then show ?thesis by (simp add: same_sector_def)
    qed
    moreover have notc: "c \<notin> set (chain ?dk a)" using holds_chain(3) [OF ha] c(3) by blast
    have "\<forall>b \<in> set (chain ?dk a). same_sector (?dk' b) (?dk b)"
    proof
      fix b assume b: "b \<in> set (chain ?dk a)"
      then have "b \<noteq> c" using notc by blast
      then show "same_sector (?dk' b) (?dk b)" using data [OF holds_chain(1,2) [OF ha b]] by simp
    qed
    ultimately show ?thesis using holds_frame [OF ha] notc j by blast
  qed
  have "represents sectors ?dk' (if j = 0 then fs(i \<mapsto> []) else fs)"
  proof (cases "j = 0")
    case True
    then have "start_of ?dk' i = c" "size_of ?dk' i = 0" "?dk' i 0 \<noteq> 0"
      using k'(5) c(2) few by (simp_all add: fresh_inode_def start_of_def size_of_def)
    then have new: "holds sectors ?dk' i []" "chain ?dk' i = [c]"
      using ij(1) c used [OF c(1,2)] by (simp_all add: holds_def stored_def file_at_small chain_def)
    then have "represents sectors ?dk' (fs(i \<mapsto> []))"
      using kept by (intro represents_update [OF assms(1) new(1)]) (simp_all add: new(2))
    with True show ?thesis by simp
  next
    case False
    then show ?thesis using kept represents_untouched [OF assms(1), of ?dk'] by simp
  qed
  moreover have "j = 0 \<longrightarrow> fs i = None" using kept by (cases "fs i") auto
  moreover have "free_blocks sectors ?dk' = free_blocks sectors ?dk - {c}"
    using used by (auto simp: free_blocks_def)
  ultimately show ?thesis using k'(1-4,8) by blast
qed

end

section \<open>A new RAM disk\<close>

lemma ram_fresh:
  fixes m :: mem
  defines "dk \<equiv> ram_sector (upd_bytes m ramfs_blocks 5242880 (\<lambda>_. 0))"
  shows "first_inode dk 0 0" and "first_free 10239 dk 128" and "card (free_blocks 10239 dk) = 10111"
proof -
  have zero: "dk s k = 0" if "s < 10240" "k < 512" for s k
  proof -
    have "512 * s + k < 5242880" using that by simp
    moreover from this have "unat (of_nat (512 * s + k) :: u32) = 512 * s + k" by (intro unat_u32_of_nat) simp
    ultimately show ?thesis
      by (simp add: dk_def ram_sector_def upd_bytes_def ramfs_blocks_def del: of_nat_add of_nat_mult)
  qed
  then have unused: "\<not> block_used (dk t)" if "t < 10240" for t
    using that word_at_byte_of [of "dk t" 0 0] by (simp add: block_used_def)
  then have "free_blocks 10239 dk = {128..<10239}" by (auto simp: free_blocks_def)
  then show "card (free_blocks 10239 dk) = 10111" by simp
  show "first_inode dk 0 0" using zero by (simp add: first_inode_def)
  show "first_free 10239 dk 128" using unused by (simp add: first_free_def)
qed

lemma div_append:
  fixes a b n :: nat
  assumes "0 < b" and "n * 504 \<ge> a + b" and "a mod 504 \<noteq> 0"
  shows "(a mod 504 + b - 1) div 504 + (a - 1) div 504 < n"
proof -
  have a: "(a - 1) div 504 = a div 504" using assms(3) by (cases a) (auto simp: div_Suc)
  have "(a + b - 1) div 504 = (a mod 504 + b - 1 + a div 504 * 504) div 504"
    using assms(1) div_mult_mod_eq [of a 504] by (intro arg_cong2 [where f = "(div)"]) linarith+
  also have "\<dots> = (a mod 504 + b - 1) div 504 + a div 504" by (simp only: div_mult_self1)
  finally have "(a mod 504 + b - 1) div 504 + (a - 1) div 504 = (a + b - 1) div 504" using a by simp
  moreover have "(a + b - 1) div 504 < n" using assms(1,2) by (simp add: div_less_iff_less_mult)
  ultimately show ?thesis by simp
qed

lemma room_create: "first_free sectors dk c \<Longrightarrow> card (free_blocks sectors dk - {c}) = card (free_blocks sectors dk) - 1"
  by (subst card_Diff_singleton) (auto simp: first_free_def free_blocks_def)

text \<open>A disk with one file of \<open>n\<close> bytes in block 200, for the examples.\<close>

definition demo_disk :: "nat \<Rightarrow> machine" where
  "demo_disk n = fresh_machine\<lparr>mem := \<lambda>b a. if b = Ramfs_blocks
     then (if a = 0 then 1 else if a = 65 then 200 else if a = 69 then of_nat n else if a = 70 then of_nat (n div 256)
       else if a = 512 * 200 then 0x01 else if a = 512 * 200 + 1 then 0xC0 else 0)
     else ucast a\<rparr>"

lemma demo_disk_sectors:
  "start_of (ram_sector (mem (demo_disk n))) 0 = 200" "block_used (ram_sector (mem (demo_disk n)) 200)"
  "n < 65536 \<Longrightarrow> size_of (ram_sector (mem (demo_disk n))) 0 = n" "ram_sector (mem (demo_disk n)) 0 0 = 1"
  "k < 504 \<Longrightarrow> ram_sector (mem (demo_disk n)) 200 (4 + k) = 0" "next_block (ram_sector (mem (demo_disk n)) 200) = 0"
  "128 \<in> free_blocks 10239 (ram_sector (mem (demo_disk n)))"
proof -
  let ?dk = "ram_sector (mem (demo_disk n))"
  have at: "?dk s k = (if s = 0 \<and> k = 0 then 1 else if s = 0 \<and> k = 65 then 200 else if s = 0 \<and> k = 69 then of_nat n
      else if s = 0 \<and> k = 70 then of_nat (n div 256) else if s = 200 \<and> k = 0 then 0x01
      else if s = 200 \<and> k = 1 then 0xC0 else 0)" if "s < 10239" "k < 512" for s k
  proof -
    have "((of_nat (512 * s + k) :: u32) = of_nat (512 * a + l)) = (s = a \<and> k = l)" if "a < 10239" "l < 512" for a l
    proof -
      have "(512 * s + k) div 512 = s" "(512 * s + k) mod 512 = k" "(512 * a + l) div 512 = a" "(512 * a + l) mod 512 = l"
        using that \<open>k < 512\<close> by simp_all
      then have "(512 * s + k = 512 * a + l) = (s = a \<and> k = l)" by metis
      then show ?thesis using that \<open>s < 10239\<close> \<open>k < 512\<close> by (subst of_nat_u32_eq) simp_all
    qed
    from this [of 0 0] this [of 0 65] this [of 0 69] this [of 0 70] this [of 200 0] this [of 200 1] show ?thesis
      by (simp add: ram_sector_def demo_disk_def del: of_nat_add of_nat_mult)
  qed
  show "start_of ?dk 0 = 200" "?dk 0 0 = 1" "next_block (?dk 200) = 0" "k < 504 \<Longrightarrow> ?dk 200 (4 + k) = 0"
    "block_used (?dk 200)" "128 \<in> free_blocks 10239 ?dk"
    by (simp_all add: at start_of_def word_at_def next_block_def block_used_def free_blocks_def)
  show "size_of ?dk 0 = n" if "n < 65536"
  proof -
    have byte: "byte_of (of_nat n) i = of_nat (n div 2 ^ (8 * i))" for i
    proof -
      have "unat (drop_bit (8 * i) (of_nat n :: u32)) = n div 2 ^ (8 * i)"
        unfolding unsigned_drop_bit_eq using that by (simp add: drop_bit_eq_div take_bit_nat_eq_self)
      then have "of_nat (unat (drop_bit (8 * i) (of_nat n :: u32))) = (of_nat (n div 2 ^ (8 * i)) :: u32)"
        by (rule arg_cong)
      then have "drop_bit (8 * i) (of_nat n :: u32) = of_nat (n div 2 ^ (8 * i))"
        by (simp only: of_nat_unat ucast_id)
      moreover have "take_bit 32 (n div 2 ^ (8 * i)) = n div 2 ^ (8 * i)"
      proof (rule take_bit_nat_eq_self)
        have "n div 2 ^ (8 * i) \<le> n" by (rule div_le_dividend)
        then show "n div 2 ^ (8 * i) < 2 ^ 32" by (rule le_less_trans) (use that in simp)
      qed
      ultimately show ?thesis by (simp add: byte_of_def unsigned_of_nat)
    qed
    have "word_at (?dk 0) 69 = of_nat n"
    proof (rule word_at_byte_of)
      fix i :: nat assume "i < 4"
      then have "i \<in> {0, 1, 2, 3}" by auto
      then show "?dk 0 (69 + i) = byte_of (of_nat n) i"
        using that by (auto simp: at byte)
    qed
    then show ?thesis using that by (simp add: size_of_def)
  qed
qed

lemma demo_disk_represents:
  assumes "n \<le> 504"
  shows "represents 10239 (ram_sector (mem (demo_disk n))) [0 \<mapsto> replicate n 0]"
    and "1 \<le> card (free_blocks 10239 (ram_sector (mem (demo_disk n))))"
proof -
  let ?dk = "ram_sector (mem (demo_disk n))"
  have "stored 10239 ?dk 200 n (\<lambda>k. replicate n 0 ! k)"
    using assms demo_disk_sectors(2,5) by (simp add: stored_def file_at_small)
  then have "holds 10239 ?dk 0 (replicate n 0)"
    using assms demo_disk_sectors(1,3,4) by (simp add: holds_def)
  then show "represents 10239 ?dk [0 \<mapsto> replicate n 0]" by (simp add: represents_def)
  have "finite (free_blocks 10239 ?dk)" by (simp add: free_blocks_def)
  then have "card {128 :: nat} \<le> card (free_blocks 10239 ?dk)"
    using demo_disk_sectors(7) by (intro card_mono) auto
  then show "1 \<le> card (free_blocks 10239 ?dk)" by simp
qed

section \<open>Properties\<close>

text \<open>
  C13: creating a file on the RAM disk, as its users see it. With a free inode and a free block left, the
  call says so on the console and returns the sector of the first free inode. The map of the files gets a
  new empty file of that number when the inode is the first of its sector; when it is one of the other
  three the number names another file, and the map stays as it is: the new file cannot be reached. Every
  file there was keeps its contents, one block less is free, the lock is as before.
\<close>

lemma nqfs_create_refines:
  assumes "represents 10239 (ram_sector (mem k)) fs" and "live_console hw k"
    and "first_inode (ram_sector (mem k)) i j" and "first_free 10239 (ram_sector (mem k)) c"
    and "cstring (mem k) filename xs" and "8 \<notin> set xs"
    and "fst filename \<notin> {Ramfs_blocks, Local 1 512, Local 3 512, Vga_buf}"
  shows "\<exists>k'. NQFS_create_file hw RAMBLK__device filename k = ok (of_nat i, k') \<and>
    represents 10239 (ram_sector (mem k')) (if j = 0 then fs(i \<mapsto> []) else fs) \<and> (j = 0 \<longrightarrow> fs i = None) \<and>
    card (free_blocks 10239 (ram_sector (mem k'))) = card (free_blocks 10239 (ram_sector (mem k))) - 1 \<and>
    com1_sent (io_log k') = com1_sent (io_log k) @ created_text (take 63 xs) c i \<and>
    live_console hw k' \<and> lock k' = lock k"
proof -
  have name: "fst filename \<noteq> Ramfs_blocks" "fst filename \<notin> {Local 1 512, Local 3 512, Vga_buf}"
    using assms(7) by auto
  show ?thesis using ram_files.create_represents [OF assms(1-6) name] room_create [OF assms(4)] by fastforce
qed

lemma fresh_disk_state:
  fixes k :: machine
  defines "k' \<equiv> k\<lparr>mem := upd_bytes (mem k) ramfs_blocks 5242880 (\<lambda>_. 0)\<rparr>"
  shows "represents 10239 (ram_sector (mem k')) Map.empty" and "first_inode (ram_sector (mem k')) 0 0"
    and "first_free 10239 (ram_sector (mem k')) 128" and "card (free_blocks 10239 (ram_sector (mem k'))) = 10111"
  using ram_fresh [of "mem k"] by (simp_all add: k'_def represents_empty)

lemma nqfs_create_refines_witness:
  "\<exists>k'. NQFS_create_file ready_hw RAMBLK__device (lit ''log'')
      (fresh_machine\<lparr>mem := upd_bytes (mem fresh_machine) ramfs_blocks 5242880 (\<lambda>_. 0)\<rparr>) = ok (0, k') \<and>
    represents 10239 (ram_sector (mem k')) [0 \<mapsto> []]"
proof -
  let ?k = "fresh_machine\<lparr>mem := upd_bytes (mem fresh_machine) ramfs_blocks 5242880 (\<lambda>_. 0)\<rparr>"
  have "live_console ready_hw fresh_machine" using fresh_console by (simp add: live_console_def console_inv_def)
  then have "live_console ready_hw ?k" by simp
  moreover have "cstring (mem ?k) (lit ''log'') (bytes_of ''log'')" by (intro cstring_lit) (simp_all add: bytes_of_def)
  ultimately show ?thesis
    using nqfs_create_refines [OF fresh_disk_state(1) _ fresh_disk_state(2,3), of ready_hw fresh_machine "lit ''log''" "bytes_of ''log''"]
    by (auto simp: bytes_of_def lit_def)
qed

text \<open>
  C6: writing to a file of the RAM disk appends. From a length at which the code appends soundly, and with
  enough free blocks, the call returns the number of bytes; the map of the files has the bytes added at
  the end of this one, every other file is as it was, and exactly the blocks the new bytes need are gone.
\<close>

lemma nqfs_append_refines:
  assumes "represents 10239 (ram_sector (mem k)) fs" and "fs ino = Some xs" and "open_end (length xs)"
    and "0 < n" and "length xs + n < 4294967296" and "valid src n"
    and "fst src \<notin> {Ramfs_blocks, Local 1 512, Local 2 512, Local 3 512}"
    and "(length xs mod 504 + n - 1) div 504 \<le> card (free_blocks 10239 (ram_sector (mem k)))"
  shows "\<exists>m'. NQFS_write_bytes hw RAMBLK__device (of_nat ino) src (of_nat n) k = ok (of_nat n, k\<lparr>mem := m'\<rparr>) \<and>
    represents 10239 (ram_sector m') (fs(ino \<mapsto> xs @ map (window (mem k) src) [0..<n])) \<and>
    card (free_blocks 10239 (ram_sector m')) = card (free_blocks 10239 (ram_sector (mem k))) - (length xs mod 504 + n - 1) div 504"
proof -
  have src: "fst src \<noteq> Ramfs_blocks" "fst src \<notin> {Local 1 512, Local 2 512, Local 3 512}" using assms(7) by auto
  obtain m' where "NQFS_write_bytes hw RAMBLK__device (of_nat ino) src (of_nat n) k = ok (of_nat n, k\<lparr>mem := m'\<rparr>)"
    "represents 10239 (ram_sector m') (fs(ino \<mapsto> xs @ map (window (mem k) src) [0..<n]))"
    "card (free_blocks 10239 (ram_sector m')) + (length xs mod 504 + n - 1) div 504 = card (free_blocks 10239 (ram_sector (mem k)))"
    using ram_nqfs.write_represents [OF assms(1-6) src assms(8)] by blast
  then show ?thesis by (intro exI [of _ m'] conjI) simp_all
qed

lemma nqfs_append_refines_witness:
  "\<exists>m'. NQFS_write_bytes ready_hw RAMBLK__device 0 (Phys, 0x200000) 1000 (demo_disk 3) = ok (1000, (demo_disk 3)\<lparr>mem := m'\<rparr>) \<and>
    represents 10239 (ram_sector m') [0 \<mapsto> [0, 0, 0] @ map of_nat [0..<1000]]"
proof -
  have v: "valid (Phys, 0x200000) 1000" by (simp add: valid_def)
  have ok: "0 < (1000 :: nat)" "length (replicate 3 (0 :: u8)) + 1000 < 4294967296"
    "fst (Phys, 0x200000 :: u32) \<notin> {Ramfs_blocks, Local 1 512, Local 2 512, Local 3 512}" by simp_all
  have pre: "open_end (length (replicate 3 (0 :: u8)))" "(length (replicate 3 (0 :: u8)) mod 504 + 1000 - 1) div 504 \<le>
      card (free_blocks 10239 (ram_sector (mem (demo_disk 3))))"
    using demo_disk_represents(2) [of 3] by simp_all
  have bytes: "map (window (mem (demo_disk 3)) (Phys, 0x200000)) [0..<1000] = map of_nat [0..<1000]"
  proof (rule map_cong)
    fix x :: nat assume "x \<in> set [0..<1000]"
    then have x: "take_bit 32 (0x200000 + x) = 0x200000 + x" by (intro take_bit_nat_eq_self) simp
    have "window (mem (demo_disk 3)) (Phys, 0x200000) x = ucast (of_nat (0x200000 + x) :: u32)"
      by (simp add: window_def demo_disk_def)
    also have "\<dots> = of_nat (0x200000 + x)" unfolding unsigned_of_nat using x by simp
    finally show "window (mem (demo_disk 3)) (Phys, 0x200000) x = of_nat x" by simp
  qed simp
  have fs: "represents 10239 (ram_sector (mem (demo_disk 3))) [0 \<mapsto> replicate 3 0]"
    by (rule demo_disk_represents) simp
  from nqfs_append_refines [OF fs fun_upd_same pre(1) ok(1,2) v ok(3) pre(2), of ready_hw]
  obtain m' where "NQFS_write_bytes ready_hw RAMBLK__device (of_nat 0) (Phys, 0x200000) (of_nat 1000) (demo_disk 3) =
      ok (of_nat 1000, (demo_disk 3)\<lparr>mem := m'\<rparr>)"
    "represents 10239 (ram_sector m') [0 \<mapsto> replicate 3 0 @ map of_nat [0..<1000]]"
    unfolding bytes fun_upd_upd by blast
  moreover have "replicate 3 (0 :: u8) = [0, 0, 0]" by (simp add: numeral_3_eq_3)
  ultimately show ?thesis by auto
qed

text \<open>
  C27: reading a file of the RAM disk delivers its first \<open>sz\<close> bytes, all of them when it has no more, and
  changes no sector. The result is 0, the number of bytes left to read, and not the number delivered.
\<close>

lemma nqfs_read_prefix:
  assumes "represents 10239 (ram_sector (mem k)) fs" and "fs ino = Some xs" and "n = min (unat sz) (length xs)"
    and "valid out n" and "\<not> is_const (fst out)" and "fst out \<notin> {Ramfs_blocks, Local 2 512}"
  shows "\<exists>m'. NQFS_read_bytes hw RAMBLK__device (of_nat ino) out sz k = ok (0, k\<lparr>mem := m'\<rparr>) \<and>
    map (window m' out) [0..<n] = take (unat sz) xs \<and> ram_sector m' = ram_sector (mem k)"
proof -
  have "fst out \<noteq> Ramfs_blocks" "fst out \<noteq> Local 2 512" using assms(6) by auto
  from ram_nqfs.read_represents [OF assms(1-5) this] show ?thesis by blast
qed

lemma nqfs_read_prefix_witness:
  "\<exists>m'. NQFS_read_bytes ready_hw RAMBLK__device 0 (Phys, 0x200000) 2 (demo_disk 3) = ok (0, (demo_disk 3)\<lparr>mem := m'\<rparr>) \<and>
    map (window m' (Phys, 0x200000)) [0..<2] = [0, 0]"
proof -
  have v: "valid (Phys, 0x200000) 2" by (simp add: valid_def)
  have n: "2 = min (unat (2 :: u32)) (length (replicate 3 (0 :: u8)))" by simp
  have "unat (2 :: u32) = 2" by simp
  then have two: "take (unat (2 :: u32)) (replicate 3 (0 :: u8)) = [0, 0]"
    by (simp only:) (simp add: numeral_2_eq_2 numeral_3_eq_3)
  from nqfs_read_prefix [OF demo_disk_represents(1) fun_upd_same n v, of ready_hw] show ?thesis unfolding two by auto
qed

text \<open>
  C15: a session on a new RAM disk. The initialisation empties it; creating a file returns 0, the number of
  its first sector, which is also what the call returns when it fails; two writes and a read with that
  number then give back the bytes of the first followed by those of the second, for all lengths up to
  the 5095944 bytes of the 10111 blocks, when the first does not end on a full block.
\<close>

lemma nqfs_session:
  assumes "live_console hw k" and "cstring (mem k) filename xs" and "8 \<notin> set xs"
    and "fst filename \<notin> {Ramfs_blocks, Local 1 512, Local 3 512, Vga_buf}"
    and "0 < b" and "a mod 504 \<noteq> 0" and "a + b \<le> 5095944" and "valid p a" and "valid q b"
    and "fst p \<notin> {Ramfs_blocks, Local 1 512, Local 2 512, Local 3 512}"
    and "fst q \<notin> {Ramfs_blocks, Local 1 512, Local 2 512, Local 3 512}"
    and "valid out (a + b)" and "\<not> is_const (fst out)" and "fst out \<notin> {Ramfs_blocks, Local 2 512}"
  shows "\<exists>m0 k1 m2 m3 m4. RAMBLK__init reg (mem k, devs) = ok (m0, reg RAMBLK__device devs) \<and>
    NQFS_create_file hw RAMBLK__device filename (k\<lparr>mem := m0\<rparr>) = ok (0, k1) \<and>
    NQFS_write_bytes hw RAMBLK__device 0 p (of_nat a) k1 = ok (of_nat a, k1\<lparr>mem := m2\<rparr>) \<and>
    NQFS_write_bytes hw RAMBLK__device 0 q (of_nat b) (k1\<lparr>mem := m2\<rparr>) = ok (of_nat b, k1\<lparr>mem := m3\<rparr>) \<and>
    NQFS_read_bytes hw RAMBLK__device 0 out (of_nat (a + b)) (k1\<lparr>mem := m3\<rparr>) = ok (0, k1\<lparr>mem := m4\<rparr>) \<and>
    map (window m4 out) [0..<a + b] = map (window (mem k1) p) [0..<a] @ map (window (mem k1) q) [0..<b]"
proof -
  let ?k = "k\<lparr>mem := upd_bytes (mem k) ramfs_blocks 5242880 (\<lambda>_. 0)\<rparr>"
  let ?A = "\<lambda>k1. map (window (mem k1) p) [0..<a]" and ?B = "\<lambda>k1. map (window (mem k1) q) [0..<b]"
  have name: "fst filename \<noteq> Ramfs_blocks" "fst filename \<notin> {Local 1 512, Local 3 512, Vga_buf}"
    and p: "fst p \<noteq> Ramfs_blocks" "fst p \<notin> {Local 1 512, Local 2 512, Local 3 512}"
    and q: "fst q \<noteq> Ramfs_blocks" "fst q \<notin> {Local 1 512, Local 2 512, Local 3 512}"
    and out: "fst out \<noteq> Ramfs_blocks" "fst out \<noteq> Local 2 512"
    using assms(4,10,11,14) by auto
  have "mem ?k (fst filename) = mem k (fst filename)" using name(1) by (simp add: upd_bytes_def ramfs_blocks_def)
  then have cs: "cstring (mem ?k) filename xs" using cstring_cong assms(2) by metis
  have con: "live_console hw ?k" using assms(1) by simp
  obtain k1 where k1: "NQFS_create_file hw RAMBLK__device filename ?k = ok (of_nat 0, k1)"
    "represents 10239 (ram_sector (mem k1)) [0 \<mapsto> []]" "card (free_blocks 10239 (ram_sector (mem k1))) = 10110"
    using ram_files.create_represents [OF fresh_disk_state(1) con fresh_disk_state(2,3) cs assms(3) name]
      fresh_disk_state(4) [of k] room_create [OF fresh_disk_state(3)] by auto
  have pos: "0 < a" using assms(6) by (cases a) simp_all
  have sums: "(length ([] :: u8 list) mod 504 + a - 1) div 504 \<le> 10110" "(a mod 504 + b - 1) div 504 + (a - 1) div 504 < 10111"
    using div_append [OF assms(5) _ assms(6), of 10111] assms(7) by (simp_all add: div_le_mono [of "a - 1" "5095943" 504, simplified])
  obtain m2 where m2: "NQFS_write_bytes hw RAMBLK__device (of_nat 0) p (of_nat a) k1 = ok (of_nat a, k1\<lparr>mem := m2\<rparr>)"
    "represents 10239 (ram_sector m2) [0 \<mapsto> ?A k1]"
    "card (free_blocks 10239 (ram_sector m2)) + (a - 1) div 504 = 10110"
    "\<forall>b. b \<noteq> Ramfs_blocks \<and> b \<notin> {Local 1 512, Local 2 512, Local 3 512} \<longrightarrow> m2 b = mem k1 b"
    using ram_nqfs.write_represents [OF k1(2) _ _ pos _ assms(8) p, of 0 "[]" hw] sums(1) k1(3) assms(7) by auto
  let ?k2 = "k1\<lparr>mem := m2\<rparr>"
  have q2: "window (mem ?k2) q = window (mem k1) q" by (rule window_cong) (use m2(4) q in simp)
  have two: "open_end (length (?A k1))" "length (?A k1) + b < 4294967296"
    "(length (?A k1) mod 504 + b - 1) div 504 \<le> card (free_blocks 10239 (ram_sector (mem ?k2)))"
    using assms(6,7) sums(2) m2(3) by (simp_all add: open_end_def)
  have r2: "represents 10239 (ram_sector (mem ?k2)) [0 \<mapsto> ?A k1]" using m2(2) by simp
  obtain m3 where m3: "NQFS_write_bytes hw RAMBLK__device (of_nat 0) q (of_nat b) ?k2 = ok (of_nat b, ?k2\<lparr>mem := m3\<rparr>)"
    "represents 10239 (ram_sector m3) [0 \<mapsto> ?A k1 @ ?B k1]"
    using ram_nqfs.write_represents [OF r2 fun_upd_same two(1) assms(5) two(2) assms(9) q two(3), of hw]
    unfolding q2 fun_upd_upd by blast
  let ?k3 = "k1\<lparr>mem := m3\<rparr>"
  have r3: "represents 10239 (ram_sector (mem ?k3)) [0 \<mapsto> ?A k1 @ ?B k1]" using m3(2) by simp
  have size: "unat (of_nat (a + b) :: u32) = a + b" using assms(7) by (intro unat_u32_of_nat) simp
  then have n: "a + b = min (unat (of_nat (a + b) :: u32)) (length (?A k1 @ ?B k1))" by simp
  from ram_nqfs.read_represents [OF r3 fun_upd_same n assms(12,13) out, of hw]
  obtain m4 where m4: "NQFS_read_bytes hw RAMBLK__device (of_nat 0) out (of_nat (a + b)) ?k3 = ok (0, ?k3\<lparr>mem := m4\<rparr>)"
    "map (window m4 out) [0..<a + b] = take (a + b) (?A k1 @ ?B k1)" unfolding size by blast
  have "RAMBLK__init reg (mem k, devs) = ok (mem ?k, reg RAMBLK__device devs)" by (simp add: RAMBLK__init_eq)
  then show ?thesis using k1(1) m2(1) m3(1) m4 by (intro exI conjI) (assumption | simp)+
qed

lemma nqfs_session_witness:
  "\<exists>k1 m3 m4. NQFS_read_bytes ready_hw RAMBLK__device 0 (Phys, 0x400000) 1003 (k1\<lparr>mem := m3\<rparr>) = ok (0, k1\<lparr>mem := m4\<rparr>) \<and>
    map (window m4 (Phys, 0x400000)) [0..<1003] =
      map (window (mem k1) (Phys, 0x200000)) [0..<1000] @ map (window (mem k1) (Phys, 0x300000)) [0..<3]"
proof -
  have con: "live_console ready_hw fresh_machine" using fresh_console by (simp add: live_console_def console_inv_def)
  have cs: "cstring (mem fresh_machine) (lit ''log'') (bytes_of ''log'')"
    by (intro cstring_lit) (simp_all add: bytes_of_def)
  have name: "8 \<notin> set (bytes_of ''log'')" "fst (lit ''log'') \<notin> {Ramfs_blocks, Local 1 512, Local 3 512, Vga_buf}"
    by (simp_all add: bytes_of_def lit_def)
  have nums: "0 < (3 :: nat)" "(1000 :: nat) mod 504 \<noteq> 0" "(1000 :: nat) + 3 \<le> 5095944" by simp_all
  have v: "valid (Phys, 0x200000) 1000" "valid (Phys, 0x300000) 3" "valid (Phys, 0x400000) (1000 + 3)"
    by (simp_all add: valid_def)
  have objs: "fst (Phys, a :: u32) \<notin> {Ramfs_blocks, Local 1 512, Local 2 512, Local 3 512}"
    "\<not> is_const (fst (Phys, a))" "fst (Phys, a) \<notin> {Ramfs_blocks, Local 2 512}" for a by simp_all
  obtain k1 m3 m4 where
    "NQFS_read_bytes ready_hw RAMBLK__device 0 (Phys, 0x400000) (of_nat (1000 + 3)) (k1\<lparr>mem := m3\<rparr>) = ok (0, k1\<lparr>mem := m4\<rparr>)"
    "map (window m4 (Phys, 0x400000)) [0..<1000 + 3] =
      map (window (mem k1) (Phys, 0x200000)) [0..<1000] @ map (window (mem k1) (Phys, 0x300000)) [0..<3]"
    using nqfs_session [where reg = "\<lambda>_ x. x" and devs = "()", OF con cs name nums v(1,2) objs(1) objs(1) v(3) objs(2,3)] by blast
  then show ?thesis by auto
qed

end
