(* ===== verification/Nqfs_Limits.thy ===== *)
theory Nqfs_Limits
  imports Nqfs_Spec
begin

text \<open>
  Where the file system fails: appending to a file that ends on a full block, and the calls on a full disk.
\<close>

section \<open>Appending to full blocks\<close>

text \<open>
  The first loop of \<open>NQFS_write_bytes\<close> gives the file another block, but writes its number only into the
  buffer, not to the disk.
\<close>

context nqfs_device begin

lemma skip_loop_full:
  assumes "file_at sectors (disk m) c s f" and "0 < s" and "s mod 504 = 0" and "s < 4294967296" and "c < sectors"
    and "next_block (disk m (last (blocks (disk m) c s))) = 0" and "first_free sectors (disk m) b"
  shows "\<exists>m'. skip_loop dev (of_nat s) (of_nat c) m = ok (Next (0, of_nat b, m')) \<and>
    (\<forall>x. \<not> owned x \<and> x \<notin> {Local 2 512, Local 3 512} \<longrightarrow> m' x = m x) \<and> disk_put m m' b (marked (disk m b))"
  using assms
proof (induction s arbitrary: c m f rule: less_induct)
  case (less s)
  let ?c = "unat (next_block (disk m c))" and ?m = "upd_bytes m storage_sector 512 (disk m c)"
  have ge: "of_nat s \<ge> (504 :: u32)" using less.prems(2-4) by (auto simp: word_le_nat_alt)
  have rd: "read_sector dev (device_no dev) (of_nat c) storage_sector m = ok (1, ?m)"
    using less.prems(5) by (simp add: read_buffer)
  have "word_at (window ?m storage_sector) 508 = next_block (disk m c)"
    unfolding next_block_def by (rule word_at_cong) (simp add: window_full)
  then have ld: "load32 ?m (sb_next_sector storage_sector) = ok (next_block (disk m c))"
    using load32_window [of storage_sector 512 508 ?m] by simp
  have d: "disk ?m = disk m" using disk_buffer [of storage_sector _ 0] by simp
  have s: "504 \<le> s" "of_nat s - 504 = (of_nat (s - 504) :: u32)" using less.prems(2,3) by auto
  show ?case
  proof (cases "s = 504")
    case True
    have b: "128 \<le> b" "b < sectors" "\<not> block_used (disk ?m b)" "\<And>t. 128 \<le> t \<Longrightarrow> t < b \<Longrightarrow> block_used (disk ?m t)"
      using less.prems(7) by (auto simp: first_free_def d)
    obtain m2 where m2: "NQFS_get_next_free_block dev ?m = ok (of_nat b, m2)"
      "\<forall>x. \<not> owned x \<and> x \<noteq> Local 3 512 \<longrightarrow> m2 x = ?m x" "disk_put ?m m2 b (marked (disk ?m b))"
      using next_free_block [OF b] by blast
    let ?m3 = "upd_bytes m2 (padd storage_sector 508) 4 (byte_of (of_nat b))"
    have st: "store32 (sb_next_sector storage_sector) (of_nat b) m2 = ok ?m3"
      using store32_window [of storage_sector 512 508 "of_nat b" m2] by simp
    have d3: "disk ?m3 = disk m2" using disk_buffer [of storage_sector _ 508] by simp
    have "word_at (window ?m3 storage_sector) 508 = of_nat b"
      using window_upd [of storage_sector 512 508 4 _ m2] by (intro word_at_byte_of) simp
    then have ld3: "load32 ?m3 (sb_next_sector storage_sector) = ok (of_nat b)"
      using load32_window [of storage_sector 512 508 ?m3] by simp
    have nb: "next_block (disk m c) = 0" using less.prems(6) True by simp
    have nz: "(of_nat b :: u32) \<noteq> 0" using b(1,2) few by (intro of_nat_nonzero) simp_all
    have "skip_loop dev (of_nat s) (of_nat c) m = skip_loop dev 0 (of_nat b) ?m3"
      using ge s(2) True by (subst skip_loop.simps) (simp only: rd ld nb m2(1) st ld3 nz Let_def bind_res_simps prod.case
        if_True if_False one_neq_zero simp_thms diff_self_eq_0 semiring_1_class.of_nat_0)
    also have "\<dots> = ok (Next (0, of_nat b, ?m3))" by (simp add: skip_loop.simps)
    finally have "skip_loop dev (of_nat s) (of_nat c) m = ok (Next (0, of_nat b, ?m3))" .
    moreover have "disk_put m ?m3 b (marked (disk m b))" using m2(3) unfolding disk_put_def d3 d .
    moreover have "\<forall>x. \<not> owned x \<and> x \<notin> {Local 2 512, Local 3 512} \<longrightarrow> ?m3 x = m x"
      using m2(2) by (simp add: upd_bytes_other)
    ultimately show ?thesis by blast
  next
    case False
    then have big: "504 < s" using s(1) by simp
    have chain: "next_block (disk m c) \<noteq> 0" "?c < sectors" "file_at sectors (disk m) ?c (s - 504) (\<lambda>k. f (504 + k))"
      using less.prems(1) big by (simp_all add: file_at_step)
    have "last (blocks (disk m) c s) = last (blocks (disk m) ?c (s - 504))" using big by (simp add: blocks_step)
    moreover have "(s - 504) mod 504 = 0" using less.prems(3) big by (simp add: le_mod_geq)
    ultimately have "\<exists>m'. skip_loop dev (of_nat (s - 504)) (of_nat ?c) ?m = ok (Next (0, of_nat b, m')) \<and>
        (\<forall>x. \<not> owned x \<and> x \<notin> {Local 2 512, Local 3 512} \<longrightarrow> m' x = ?m x) \<and> disk_put ?m m' b (marked (disk ?m b))"
      using big less.prems(4,6,7) chain by (intro less.IH) (simp_all add: d)
    then obtain m' where m': "skip_loop dev (of_nat (s - 504)) (next_block (disk m c)) ?m = ok (Next (0, of_nat b, m'))"
      "\<forall>x. \<not> owned x \<and> x \<notin> {Local 2 512, Local 3 512} \<longrightarrow> m' x = ?m x" "disk_put m m' b (marked (disk m b))"
      unfolding disk_put_def d by auto
    have "skip_loop dev (of_nat s) (of_nat c) m = skip_loop dev (of_nat (s - 504)) (next_block (disk m c)) ?m"
      using ge by (subst skip_loop.simps) (simp only: rd ld s(2) Let_def bind_res_simps prod.case if_True
        if_False one_neq_zero chain(1))
    then show ?thesis using m' by (intro exI [of _ m']) (simp add: upd_bytes_def)
  qed
qed

text \<open>A read past the end of the chain stops there and returns what is missing.\<close>

lemma read_loop_cut:
  assumes "file_at sectors (disk m) c s f" and "0 < s" and "s mod 504 = 0" and "0 < n" and "s + n < 4294967296" and "c < sectors"
    and "next_block (disk m (last (blocks (disk m) c s))) = 0"
    and "valid out s" and "\<not> is_const (fst out)" and "\<not> owned (fst out)" and "fst out \<noteq> Local 2 512"
  shows "\<exists>m'. read_loop dev (of_nat c) out (of_nat (s + n)) m = ok (of_nat n, m') \<and>
    (\<forall>b. b \<noteq> Local 2 512 \<longrightarrow> m' b = upd_bytes m out s f b)"
  using assms
proof (induction s arbitrary: c out m f rule: less_induct)
  case (less s)
  let ?m1 = "upd_bytes m storage_sector 512 (disk m c)" and ?c = "unat (next_block (disk m c))"
  let ?m2 = "upd_bytes ?m1 out 504 f"
  have s: "504 \<le> s" using less.prems(2,3) by auto
  have data: "\<And>k. k < 504 \<Longrightarrow> disk m c (4 + k) = f k"
    using less.prems(1) s by (cases "s = 504") (simp_all add: file_at_small file_at_step)
  have "valid out 504" using less.prems(8) s by (simp add: valid_def)
  note r = read_round [OF less.prems(6) this _ _ data less.prems(9-11), simplified of_nat_numeral]
  have size: "(of_nat (s + n) :: u32) > 0" "(if (of_nat (s + n) :: u32) < 504 then of_nat (s + n) else 504) = (504 :: u32)"
    "(of_nat (s + n) - 504 :: u32) = of_nat (s - 504 + n)" "(of_nat (s - 504 + n) :: u32) > 0"
  proof -
    have "(of_nat (s + n - 504) :: u32) = of_nat (s + n) - 504" using s by (subst of_nat_diff) simp_all
    moreover have "s + n - 504 = s - 504 + n" using s by simp
    ultimately show "(of_nat (s + n) - 504 :: u32) = of_nat (s - 504 + n)" by (simp only:)
    show "(of_nat (s + n) :: u32) > 0" "(if (of_nat (s + n) :: u32) < 504 then of_nat (s + n) else 504) = (504 :: u32)"
      "(of_nat (s - 504 + n) :: u32) > 0"
      using read_size [of "s + n"] read_size(1) [of "s - 504 + n"] s less.prems(4,5) by (simp_all del: of_nat_add)
  qed
  show ?case
  proof (cases "s = 504")
    case True
    have nb: "next_block (disk m c) = 0" using less.prems(7) True by simp
    have "read_loop dev (of_nat c) out (of_nat (s + n)) m = ok (of_nat n, ?m2)"
      using size True by (subst read_loop.simps) (simp only: r size nb Let_def bind_res_simps
        prod.case if_True simp_thms if_False one_neq_zero diff_self_eq_0 add_0)
    then show ?thesis using True by (auto simp: upd_bytes_def)
  next
    case False
    then have big: "504 < s" using s by simp
    have chain: "next_block (disk m c) \<noteq> 0" "?c < sectors" "file_at sectors (disk m) ?c (s - 504) (\<lambda>k. f (504 + k))"
      using less.prems(1) big by (simp_all add: file_at_step)
    have vo: "valid (padd out (of_nat 504)) (s - 504)"
      using big less.prems(8) by (intro valid_padd [of _ s]) simp_all
    have "last (blocks (disk m) c s) = last (blocks (disk m) ?c (s - 504))" using big by (simp add: blocks_step)
    moreover have "(s - 504) mod 504 = 0" using less.prems(3) big by (simp add: le_mod_geq)
    ultimately have "\<exists>m'. read_loop dev (of_nat ?c) (padd out (of_nat 504)) (of_nat (s - 504 + n)) ?m2 = ok (of_nat n, m') \<and>
      (\<forall>b. b \<noteq> Local 2 512 \<longrightarrow> m' b = upd_bytes ?m2 (padd out (of_nat 504)) (s - 504) (\<lambda>k. f (504 + k)) b)"
      using big vo less.prems(4,5,7-11) chain(2,3) by (intro less.IH) (simp_all add: r(4))
    then obtain m' where m': "read_loop dev (next_block (disk m c)) (padd out 504) (of_nat (s - 504 + n)) ?m2 = ok (of_nat n, m')"
      "\<And>b. b \<noteq> Local 2 512 \<Longrightarrow> m' b = upd_bytes ?m2 (padd out (of_nat 504)) (s - 504) (\<lambda>k. f (504 + k)) b"
      by auto
    have "upd_bytes ?m2 (padd out (of_nat 504)) (s - 504) (\<lambda>k. f (504 + k)) = upd_bytes ?m1 out s f"
      using upd_bytes_append [of out 504 "s - 504" ?m1 f] big less.prems(8) by simp
    then have "m' b = upd_bytes m out s f b" if "b \<noteq> Local 2 512" for b
      using m'(2) [OF that] that by (auto simp: upd_bytes_def)
    moreover have "read_loop dev (of_nat c) out (of_nat (s + n)) m = ok (of_nat n, m')"
      using m'(1) chain(1) by (subst read_loop.simps) (simp only: r size Let_def bind_res_simps
        prod.case if_True simp_thms if_False one_neq_zero)
    ultimately show ?thesis by blast
  qed
qed

lemma write_lost:
  assumes "ino < 128" and "inode (disk (mem k)) ino c s" and "stored sectors (disk (mem k)) c s f"
    and "0 < s" and "s mod 504 = 0" and "next_block (disk (mem k) (last (blocks (disk (mem k)) c s))) = 0"
    and "0 < n" and "s + n < 4294967296" and "valid src n"
    and src: "\<not> owned (fst src)" "fst src \<notin> {Local 1 512, Local 2 512, Local 3 512}"
    and "(n - 1) div 504 < card (free_blocks sectors (disk (mem k)))"
  shows "\<exists>m'. NQFS_write_bytes hw dev (of_nat ino) src (of_nat n) k = ok (of_nat n, k\<lparr>mem := m'\<rparr>) \<and>
    inode (disk m') ino c (s + n) \<and> (\<forall>t \<in> set (blocks (disk (mem k)) c s). same_sector (disk m' t) (disk (mem k) t))"
proof -
  let ?m = "upd_bytes (mem k) sector 512 (disk (mem k) ino)" and ?dk = "disk (mem k)"
  have fa: "file_at sectors ?dk c s f" using assms(3) by (simp add: stored_def)
  have c: "c < sectors" "128 \<le> c" using assms(3) first_block [of c ?dk s] unfolding stored_def by auto
  then have ino: "ino < sectors" using assms(1) by simp
  note start = read_inode [OF ino assms(2)]
  have d: "disk ?m = ?dk" using disk_buffer [of sector _ 0] by simp
  have "free_blocks sectors ?dk \<noteq> {}" using assms(12) by auto
  then obtain b where b: "first_free sectors ?dk b" by (rule first_free_exists)
  then have b_ok: "128 \<le> b" "b < sectors" "\<not> block_used (?dk b)" by (auto simp: first_free_def)
  obtain m1 where m1: "skip_loop dev (of_nat s) (of_nat c) ?m = ok (Next (0, of_nat b, m1))"
      "\<forall>x. \<not> owned x \<and> x \<notin> {Local 2 512, Local 3 512} \<longrightarrow> m1 x = ?m x" "disk_put ?m m1 b (marked (?dk b))"
    using skip_loop_full [of ?m c s f b] fa assms(4-6,8) c(1) b unfolding d by auto
  have put: "same_sector (disk m1 t) (if t = b then marked (?dk b) else ?dk t)" if "t < sectors" for t
    using m1(3) that unfolding disk_put_def d by blast
  have used1: "block_used (disk m1 t) = (t = b \<or> block_used (?dk t))" if "t < sectors" for t
    using block_used_same [OF put [OF that]] by simp
  have "free_blocks sectors (disk m1) = free_blocks sectors ?dk - {b}" using used1 by (auto simp: free_blocks_def)
  moreover have "b \<in> free_blocks sectors ?dk" "finite (free_blocks sectors ?dk)" using b_ok by (simp_all add: free_blocks_def)
  ultimately have room: "(0 + n - 1) div 504 \<le> card (free_blocks sectors (disk m1))" using assms(12) by simp
  have w1: "window m1 sector = window ?m sector" by (rule window_cong) (use m1(2) not_local in simp)
  have win: "window ?m sector i = ?dk ino i" if "i < 512" for i using that by (simp add: window_full)
  have size: "word_at (window ?m sector) 69 = of_nat s"
    using assms(2) word_at_cong [of "window ?m sector" 69 "?dk ino" 69] win by (simp add: inode_def)
  have pre: "block_used (disk m1 b)" "valid src (0 + n)" "0 + n < 4294967296" "0 < (504 :: nat)"
    using used1 [OF b_ok(2)] assms(8,9) by simp_all
  note loop = write_loop_file [OF b_ok(2,1) assms(1) pre(1) assms(7) pre(2,3) src pre(4) room, unfolded w1 size]
  obtain m' where m': "write_loop dev (of_nat ino) src (of_nat 0) (of_nat b) (of_nat n) (of_nat 0) m1 = ok (of_nat (0 + n), m')"
      "same_sector (disk m' ino) (window m' sector)"
      "\<forall>i < 512. window m' sector i =
         (if 69 \<le> i \<and> i < 73 then byte_of (of_nat s + of_nat n) (i - 69) else window ?m sector i)"
      "\<forall>t < sectors. t \<noteq> b \<and> t \<noteq> ino \<and> (t < 128 \<or> block_used (disk m1 t)) \<longrightarrow> same_sector (disk m' t) (disk m1 t)"
    using loop by (elim exE conjE) (rule that; assumption)
  have ino': "disk m' ino i = (if 69 \<le> i \<and> i < 73 then byte_of (of_nat (s + n)) (i - 69) else ?dk ino i)"
    if "i < 512" for i
    using m'(2,3) that win by (simp add: same_sector_def)
  have "word_at (disk m' ino) 69 = of_nat (s + n)" by (rule word_at_byte_of) (simp add: ino' del: of_nat_add)
  moreover have "word_at (disk m' ino) 65 = word_at (?dk ino) 65" by (rule word_at_cong) (simp add: ino')
  ultimately have "inode (disk m') ino c (s + n)" using assms(2) by (simp add: inode_def)
  moreover have "same_sector (disk m' t) (?dk t)" if "t \<in> set (blocks ?dk c s)" for t
  proof -
    have t: "128 \<le> t" "t < sectors" "block_used (?dk t)" using that assms(3) by (auto simp: stored_def)
    then have "t \<noteq> b" "t \<noteq> ino" using b_ok(3) assms(1) by auto
    moreover have "block_used (disk m1 t)" using used1 [OF t(2)] t(3) by simp
    ultimately have "same_sector (disk m' t) (disk m1 t)" using m'(4) t(2) by simp
    moreover have "same_sector (disk m1 t) (?dk t)" using put [OF t(2)] t(3) b_ok(3) by (cases "t = b") auto
    ultimately show ?thesis by (rule same_sector_trans)
  qed
  moreover have "(of_nat c :: u32) \<noteq> 0" using c few by (intro of_nat_nonzero) simp_all
  then have "NQFS_write_bytes hw dev (of_nat ino) src (of_nat n) k = ok (of_nat n, k\<lparr>mem := m'\<rparr>)"
    using start m1(1) m'(1) by (simp add: NQFS_write_bytes_def) (simp add: on_mem_def)
  ultimately show ?thesis by blast
qed

lemma read_cut:
  assumes "ino < 128" and "inode (disk (mem k)) ino c (s + n)" and "stored sectors (disk (mem k)) c s f"
    and "0 < s" and "s mod 504 = 0" and "0 < n" and "s + n < 4294967296"
    and "next_block (disk (mem k) (last (blocks (disk (mem k)) c s))) = 0"
    and out: "valid out s" "\<not> is_const (fst out)" "\<not> owned (fst out)" "fst out \<noteq> Local 2 512"
  shows "\<exists>m'. NQFS_read_bytes hw dev (of_nat ino) out (of_nat (s + n)) k = ok (of_nat n, k\<lparr>mem := m'\<rparr>) \<and>
    (\<forall>b. b \<notin> {Local 1 512, Local 2 512} \<longrightarrow> m' b = upd_bytes (mem k) out s f b) \<and>
    (\<forall>i < s. window m' out i = f i)"
proof -
  let ?m = "upd_bytes (mem k) sector 512 (disk (mem k) ino)"
  have c: "c < sectors" "128 \<le> c" using assms(3) first_block [of c "disk (mem k)" s] unfolding stored_def by auto
  then have ino: "ino < sectors" using assms(1) by simp
  note start = read_inode [OF ino assms(2)]
  have d: "disk ?m = disk (mem k)" using disk_buffer [of sector _ 0] by simp
  have fa: "file_at sectors (disk ?m) c s f" using assms(3) by (simp add: stored_def d)
  have nb: "next_block (disk ?m (last (blocks (disk ?m) c s))) = 0" using assms(8) by (simp only: d)
  obtain m' where m': "read_loop dev (of_nat c) out (of_nat (s + n)) ?m = ok (of_nat n, m')"
      "\<forall>b. b \<noteq> Local 2 512 \<longrightarrow> m' b = upd_bytes ?m out s f b"
    using read_loop_cut [OF fa assms(4-7) c(1) nb out] by blast
  have "(of_nat c :: u32) \<noteq> 0" using c few by (intro of_nat_nonzero) simp_all
  then have "NQFS_read_bytes hw dev (of_nat ino) out (of_nat (s + n)) k = ok (of_nat n, k\<lparr>mem := m'\<rparr>)"
    using start m'(1) by (simp add: NQFS_read_bytes_def) (simp add: on_mem_def)
  moreover have "window m' out i = f i" if "i < s" for i
  proof -
    have "window m' out = window (upd_bytes ?m out s f) out"
      by (rule window_cong) (use m'(2) out(4) in simp)
    then show ?thesis using window_full [OF out(1,2) that] by simp
  qed
  moreover have "\<forall>b. b \<notin> {Local 1 512, Local 2 512} \<longrightarrow> m' b = upd_bytes (mem k) out s f b"
  proof (intro allI impI)
    fix b assume b: "b \<notin> {Local 1 512, Local 2 512}"
    then have "?m b = mem k b" by (simp add: upd_bytes_other)
    then have "upd_bytes ?m out s f b = upd_bytes (mem k) out s f b"
      unfolding upd_bytes_def [of _ out] by (cases "b = fst out") (auto simp: fun_eq_iff)
    then show "m' b = upd_bytes (mem k) out s f b" using m'(2) b by simp
  qed
  ultimately show ?thesis by blast
qed

end

section \<open>A full disk\<close>

text \<open>
  The RAM disk announces one sector more than can be written. Whether that sector looks used or not, the
  search ends with 0 when all the others are in use, and no sector has changed.
\<close>

lemma ram_disk_full:
  assumes "free_blocks 10239 (ram_sector m) = {}"
  shows "\<exists>m'. NQFS_get_next_free_block RAMBLK__device m = ok (0, m') \<and> (\<forall>b. b \<noteq> Local 3 512 \<longrightarrow> m' b = m b)"
proof -
  let ?F = "\<lambda>j. if j = 128 then m else upd_bytes m block_sector 512 (ram_sector m (j - 1))"
  let ?body = "\<lambda>i m. bind_res (read_sector RAMBLK__device (device_no RAMBLK__device) (of_nat i) block_sector m) (\<lambda>(r, m).
          if r = 0 then ok (Stop (0, m))
          else bind_res (load32 m block_sector) (\<lambda>magic_number.
            if magic_number \<noteq> 0xC001
            then bind_res (store32 block_sector 0xC001 m) (\<lambda>m.
                 bind_res (store32 (sb_next_sector block_sector) 0 m) (\<lambda>m.
                 bind_res (write_sector RAMBLK__device (device_no RAMBLK__device) (of_nat i) block_sector m) (\<lambda>(w, m).
                 ok (Stop (if w = 0 then 0 else (of_nat i :: u32), m)))))
            else ok (Next m)))"
  have F: "upd_bytes (?F j) block_sector 512 g = upd_bytes m block_sector 512 g" "ram_sector (?F j) = ram_sector m" for j g
    using ram_nqfs.disk_buffer [of block_sector m 0] by (simp_all add: upd_bytes_twice)
  have rd: "read_sector RAMBLK__device (device_no RAMBLK__device) (of_nat j) block_sector (?F j) = ok (1, ?F (Suc j))"
    if "128 \<le> j" "j < 10240" for j
  proof -
    have "unat (of_nat j :: u32) mod 8388608 = j" using that by simp
    then show ?thesis
      using read_sector_eq [of block_sector "device_no RAMBLK__device" "of_nat j" "?F j"] that
      by (simp add: F split del: if_split) (simp add: RAMBLK__device_def split del: if_split)
  qed
  have magic: "load32 (?F (Suc j)) block_sector = ok (word_at (ram_sector m j) 0)" if "128 \<le> j" for j
  proof -
    have "word_at (window (upd_bytes m block_sector 512 (ram_sector m j)) block_sector) 0 = word_at (ram_sector m j) 0"
      by (rule word_at_cong) (simp add: window_full)
    then show ?thesis
      using that load32_window [of block_sector 512 0 "upd_bytes m block_sector 512 (ram_sector m j)"] by simp
  qed
  have step: "?body j (?F j) = ok (Next (?F (Suc j)))" if "128 \<le> j" "j < 10240" "block_used (ram_sector m j)" for j
    using that by (simp only: rd magic block_used_def bind_res_simps prod.case one_neq_zero if_False simp_thms if_True)
  have used: "block_used (ram_sector m j)" if "128 \<le> j" "j < 10239" for j
    using assms that by (auto simp: free_blocks_def)
  have all: "num_sectors RAMBLK__device = 10240" by (simp add: RAMBLK__device_def)
  show ?thesis
  proof (cases "block_used (ram_sector m 10239)")
    case True
    have "for_exit 128 10240 ?body (?F 128) = ok (Next (?F 10240))"
    proof (rule for_exit_next)
      fix j assume j: "(128 :: nat) \<le> j" "j < 10240"
      then have "block_used (ram_sector m j)" using used True by (cases "j = 10239") simp_all
      with j show "?body j (?F j) = ok (Next (?F (Suc j)))" by (rule step)
    qed simp
    then have "NQFS_get_next_free_block RAMBLK__device m = ok (0, ?F 10240)"
      by (simp add: NQFS_get_next_free_block_def all)
    then show ?thesis by (auto simp: upd_bytes_other)
  next
    case False
    let ?m1 = "upd_bytes m block_sector 512 (ram_sector m 10239)"
    let ?m2 = "upd_bytes ?m1 block_sector 4 (byte_of 0xC001)"
    let ?m3 = "upd_bytes ?m2 (padd block_sector 508) 4 (byte_of 0)"
    have st: "store32 block_sector 0xC001 ?m1 = ok ?m2" "store32 (sb_next_sector block_sector) 0 ?m2 = ok ?m3"
      using store32_window [of block_sector 512 0 "0xC001" ?m1] store32_window [of block_sector 512 508 0 ?m2] by simp_all
    have wr: "write_sector RAMBLK__device (device_no RAMBLK__device) (of_nat 10239) block_sector ?m3 = ok (0, ?m3)"
      using write_sector_eq [of block_sector "device_no RAMBLK__device" "of_nat 10239" ?m3] by (simp add: RAMBLK__device_def)
    have "?body 10239 (?F 10239) = ok (Stop (0, ?m3))"
      using rd [of 10239] magic [of 10239] False st wr by (simp add: block_used_def)
    moreover have "?body j (?F j) = ok (Next (?F (Suc j)))" if "128 \<le> j" "j < 10239" for j
      using that used by (intro step) simp_all
    ultimately have "for_exit 128 10240 ?body (?F 128) = ok (Stop (0, ?m3))"
      by (intro for_exit_stop [where k = 10239]) simp_all
    then have "NQFS_get_next_free_block RAMBLK__device m = ok (0, ?m3)"
      by (simp add: NQFS_get_next_free_block_def all)
    moreover have "\<forall>b. b \<noteq> Local 3 512 \<longrightarrow> ?m3 b = m b" by (simp add: upd_bytes_other)
    ultimately show ?thesis by blast
  qed
qed

lemma first_inode_exists:
  assumes "i < FILEPTR_SECTORS" and "j < FILEPTR_PER_SECTOR" and "dk i (128 * j) = 0"
  obtains i' j' where "first_inode dk i' j'"
proof -
  have "\<exists>j < FILEPTR_PER_SECTOR. dk i (128 * j) = 0" using assms(2,3) by blast
  then obtain i' where i': "\<exists>j < FILEPTR_PER_SECTOR. dk i' (128 * j) = 0"
    "\<forall>l < i'. \<not> (\<exists>j < FILEPTR_PER_SECTOR. dk l (128 * j) = 0)"
    using first_nat [of "\<lambda>i. \<exists>j < FILEPTR_PER_SECTOR. dk i (128 * j) = 0" i] by blast
  then have "i' \<le> i" using assms(2,3) by (metis not_le)
  obtain j' where j': "j' < FILEPTR_PER_SECTOR \<and> dk i' (128 * j') = 0"
    "\<forall>l < j'. \<not> (l < FILEPTR_PER_SECTOR \<and> dk i' (128 * l) = 0)"
    using i'(1) first_nat [of "\<lambda>j. j < FILEPTR_PER_SECTOR \<and> dk i' (128 * j) = 0"] by blast
  then have "first_inode dk i' j'" using i' \<open>i' \<le> i\<close> assms(1) by (auto simp: first_inode_def)
  then show thesis by (rule that)
qed

lemma create_no_inode:
  assumes "\<forall>i < FILEPTR_SECTORS. \<forall>j < FILEPTR_PER_SECTOR. ram_sector (mem k) i (128 * j) \<noteq> 0"
  shows "NQFS_create_file hw RAMBLK__device filename k = ok (0, ram_files.sector_read k 127)"
proof -
  let ?F = "\<lambda>i'. if i' = 0 then k else ram_files.sector_read k (i' - 1)"
  let ?inner = "\<lambda>i j k. let fp = padd sector (of_nat (128 * j)) in
      bind_res (load (mem k) fp) (\<lambda>allocd.
      if allocd = 0
      then bind_res (on_mem (take_inode RAMBLK__device filename i fp) k) (\<lambda>(new_sector, k).
           if new_sector = 0 then ok (Stop (0, k))
           else bind_res (printf_nolock hw (lit ''Created file \"%s\" at sector  %d fp %d\<newline>'')
                  [Va_ptr (fp_filename fp), Va_int new_sector, Va_int (of_nat i)] k) (\<lambda>k.
                ok (Stop (of_nat i :: u32, k))))
      else ok (Next k))"
  let ?outer = "\<lambda>i k. bind_res (on_mem (read_sector RAMBLK__device (device_no RAMBLK__device) (of_nat i) sector) k) (\<lambda>(r, k).
      if r = 0 then ok (Stop (0, k)) else for_exit 0 FILEPTR_PER_SECTOR (?inner i) k)"
  have "for_exit 0 FILEPTR_SECTORS ?outer (?F 0) = ok (Next (?F FILEPTR_SECTORS))"
  proof (rule for_exit_next)
    fix i :: nat assume i: "i < 128"
    have "for_exit 0 4 (?inner i) (ram_files.sector_read k i) = ok (Next (ram_files.sector_read k i))"
      using i assms ram_files.inode_round(4) [of i _ k]
      by (intro for_exit_next [where F = "\<lambda>_. ram_files.sector_read k i"]) simp_all
    moreover have "on_mem (read_sector RAMBLK__device (device_no RAMBLK__device) (of_nat i) sector) (?F i) =
        ok (1, ram_files.sector_read k i)"
      using i ram_files.inode_round(1) [of i k] ram_files.inode_round(2) [of i k "i - 1"] by (cases "i = 0") simp_all
    ultimately show "?outer i (?F i) = ok (Next (?F (Suc i)))" by simp
  qed simp
  then show ?thesis by (simp add: NQFS_create_file_def)
qed

section \<open>Properties\<close>

text \<open>
  C28: a file that ends on a full block loses what is appended to it. The write reports all bytes as written
  and the size grows by them, but the block they went to is not linked to the file: the next read of the
  whole file delivers the old contents only, writes nothing behind them, and reports the new bytes as
  missing. It holds for every such length and every amount the disk has room for.
\<close>

lemma nqfs_append_lost:
  assumes "represents 10239 (ram_sector (mem k)) fs" and "fs ino = Some xs" and "xs \<noteq> []" and "length xs mod 504 = 0"
    and "next_block (ram_sector (mem k) (last (chain (ram_sector (mem k)) ino))) = 0"
    and "0 < n" and "length xs + n < 4294967296" and "valid src n"
    and "fst src \<notin> {Ramfs_blocks, Local 1 512, Local 2 512, Local 3 512}"
    and "(n - 1) div 504 < card (free_blocks 10239 (ram_sector (mem k)))"
    and "valid out (length xs)" and "\<not> is_const (fst out)" and "fst out \<notin> {Ramfs_blocks, Local 2 512}"
  shows "\<exists>m1 m2. NQFS_write_bytes hw RAMBLK__device (of_nat ino) src (of_nat n) k = ok (of_nat n, k\<lparr>mem := m1\<rparr>) \<and>
    size_of (ram_sector m1) ino = length xs + n \<and>
    NQFS_read_bytes hw RAMBLK__device (of_nat ino) out (of_nat (length xs + n)) (k\<lparr>mem := m1\<rparr>) = ok (of_nat n, k\<lparr>mem := m2\<rparr>) \<and>
    map (window m2 out) [0..<length xs] = xs \<and>
    (\<forall>b. b \<notin> {Local 1 512, Local 2 512} \<longrightarrow> m2 b = upd_bytes m1 out (length xs) (\<lambda>i. xs ! i) b)"
proof -
  let ?dk = "ram_sector (mem k)" and ?s = "length xs"
  let ?c = "start_of ?dk ino"
  have src: "fst src \<noteq> Ramfs_blocks" "fst src \<notin> {Local 1 512, Local 2 512, Local 3 512}"
    and out: "fst out \<noteq> Ramfs_blocks" "fst out \<noteq> Local 2 512" using assms(9,13) by auto
  note h = representsD(1) [OF assms(1,2)]
  have ino: "ino < 128" "stored 10239 ?dk ?c ?s (\<lambda>i. xs ! i)" "size_of ?dk ino = ?s" using h by (simp_all add: holds_def)
  have pos: "0 < ?s" using assms(3) by simp
  have nb: "next_block (?dk (last (blocks ?dk ?c ?s))) = 0" using assms(5) ino(3) by (simp add: chain_def)
  obtain m1 where m1: "NQFS_write_bytes hw RAMBLK__device (of_nat ino) src (of_nat n) k = ok (of_nat n, k\<lparr>mem := m1\<rparr>)"
    "inode (ram_sector m1) ino ?c (?s + n)" "\<forall>t \<in> set (blocks ?dk ?c ?s). same_sector (ram_sector m1 t) (?dk t)"
    using ram_nqfs.write_lost [OF ino(1) holds_inode [OF h] ino(2) pos assms(4) nb assms(6-8) src assms(10)] by blast
  let ?k1 = "k\<lparr>mem := m1\<rparr>"
  have st1: "stored 10239 (ram_sector (mem ?k1)) ?c ?s (\<lambda>i. xs ! i)" "blocks (ram_sector m1) ?c ?s = blocks ?dk ?c ?s"
    using stored_frame [OF ino(2) m1(3)] by simp_all
  have "last (blocks ?dk ?c ?s) \<in> set (blocks ?dk ?c ?s)" by (rule last_in_set) simp
  then have "next_block (ram_sector m1 (last (blocks ?dk ?c ?s))) = 0" using m1(3) nb next_block_same by metis
  then have nb1: "next_block (ram_sector (mem ?k1) (last (blocks (ram_sector (mem ?k1)) ?c ?s))) = 0" by (simp add: st1(2))
  have in1: "inode (ram_sector (mem ?k1)) ino ?c (?s + n)" using m1(2) by simp
  obtain m2 where m2: "NQFS_read_bytes hw RAMBLK__device (of_nat ino) out (of_nat (?s + n)) ?k1 = ok (of_nat n, ?k1\<lparr>mem := m2\<rparr>)"
    "\<forall>b. b \<notin> {Local 1 512, Local 2 512} \<longrightarrow> m2 b = upd_bytes (mem ?k1) out ?s (\<lambda>i. xs ! i) b"
    "\<forall>i < ?s. window m2 out i = xs ! i"
    using ram_nqfs.read_cut [OF ino(1) in1 st1(1) pos assms(4,6,7) nb1 assms(11,12) out] by blast
  have "size_of (ram_sector m1) ino = ?s + n" using m1(2) assms(7) by (simp add: inode_def size_of_def del: of_nat_add)
  moreover have "map (window m2 out) [0..<?s] = xs" by (rule nth_equalityI) (use m2(3) in auto)
  moreover have "?k1\<lparr>mem := m2\<rparr> = k\<lparr>mem := m2\<rparr>" "mem ?k1 = m1" by simp_all
  ultimately show ?thesis using m1(1) m2(1,2) by metis
qed

lemma nqfs_append_lost_witness:
  "\<exists>m1 m2. NQFS_write_bytes ready_hw RAMBLK__device 0 (Phys, 0x200000) 3 (demo_disk 504) = ok (3, (demo_disk 504)\<lparr>mem := m1\<rparr>) \<and>
    NQFS_read_bytes ready_hw RAMBLK__device 0 (Phys, 0x300000) 507 ((demo_disk 504)\<lparr>mem := m1\<rparr>) =
      ok (3, (demo_disk 504)\<lparr>mem := m2\<rparr>)"
proof -
  let ?dk = "ram_sector (mem (demo_disk 504))" and ?xs = "replicate 504 (0 :: u8)"
  have fs: "represents 10239 ?dk [0 \<mapsto> ?xs]" by (rule demo_disk_represents) simp
  have "chain ?dk 0 = [200]" using demo_disk_sectors(1,3) [of 504] by (simp add: chain_def)
  then have nb: "next_block (?dk (last (chain ?dk 0))) = 0" using demo_disk_sectors(6) [of 504] by simp
  have "1 \<le> card (free_blocks 10239 ?dk)" by (rule demo_disk_represents(2)) simp
  then have room: "((3 :: nat) - 1) div 504 < card (free_blocks 10239 ?dk)" by simp
  have ok: "?xs \<noteq> []" "length ?xs mod 504 = 0" "0 < (3 :: nat)" "length ?xs + 3 < 4294967296"
    "fst (Phys, 0x200000 :: u32) \<notin> {Ramfs_blocks, Local 1 512, Local 2 512, Local 3 512}"
    "\<not> is_const (fst (Phys, 0x300000 :: u32))" "fst (Phys, 0x300000 :: u32) \<notin> {Ramfs_blocks, Local 2 512}"
    by (simp_all add: numeral_eq_Suc [of "num.Bit0 num.One"])
  have v: "valid (Phys, 0x200000) 3" "valid (Phys, 0x300000) (length ?xs)" by (simp_all add: valid_def)
  have "(504 :: nat) + 3 = 507" by simp
  with nqfs_append_lost [OF fs fun_upd_same ok(1,2) nb ok(3,4) v(1) ok(5) room v(2) ok(6,7), of ready_hw]
  show ?thesis unfolding length_replicate by auto
qed

text \<open>
  C29: creating a file when there is no free inode or no free block. The call returns 0, prints nothing and
  changes no sector, and 0 is also what it returns for a file in the first sector.
\<close>

lemma nqfs_create_full:
  assumes "(\<forall>i < FILEPTR_SECTORS. \<forall>j < FILEPTR_PER_SECTOR. ram_sector (mem k) i (128 * j) \<noteq> 0) \<or>
    free_blocks 10239 (ram_sector (mem k)) = {}"
  shows "\<exists>m'. NQFS_create_file hw RAMBLK__device filename k = ok (0, k\<lparr>mem := m'\<rparr>) \<and> ram_sector m' = ram_sector (mem k)"
proof (cases "\<forall>i < FILEPTR_SECTORS. \<forall>j < FILEPTR_PER_SECTOR. ram_sector (mem k) i (128 * j) \<noteq> 0")
  case True
  then show ?thesis
    using create_no_inode [OF True, of hw filename] ram_files.inode_round(3) [of 127 k] by auto
next
  case False
  then obtain i j where ij: "first_inode (ram_sector (mem k)) i j"
    using first_inode_exists [of _ _ "ram_sector (mem k)"] by metis
  let ?K = "ram_files.sector_read k i"
  have i: "i < 10239" using ij by (simp add: first_inode_def)
  have d: "ram_sector (mem ?K) = ram_sector (mem k)" by (rule ram_files.inode_round(3) [OF i])
  have "free_blocks 10239 (ram_sector (mem ?K)) = {}" unfolding d using assms False by blast
  then obtain m' where m': "NQFS_get_next_free_block RAMBLK__device (mem ?K) = ok (0, m')"
    "\<forall>b. b \<noteq> Local 3 512 \<longrightarrow> m' b = mem ?K b" using ram_disk_full by blast
  have "take_inode RAMBLK__device filename i (padd sector (of_nat (128 * j))) (mem ?K) = ok (0, m')"
    by (simp only: take_inode_def m'(1) bind_res_simps prod.case simp_thms if_True)
  then have "NQFS_create_file hw RAMBLK__device filename k = ok (0, k\<lparr>mem := m'\<rparr>)"
    by (rule ram_files.create_search [OF i ij]) simp
  moreover have "m' Ramfs_blocks = mem ?K Ramfs_blocks" using m'(2) by blast
  then have "ram_sector m' = ram_sector (mem ?K)" by (intro ram.disk_cong) simp
  then have "ram_sector m' = ram_sector (mem k)" using d by simp
  ultimately show ?thesis by blast
qed

text \<open>A disk all of whose blocks are in use.\<close>

definition full_disk :: machine where
  "full_disk = fresh_machine\<lparr>mem := \<lambda>b a. if unat a mod 512 = 0 then 1 else if unat a mod 512 = 1 then 0xC0 else 0\<rparr>"

lemma nqfs_create_full_witness:
  "\<exists>m'. NQFS_create_file ready_hw RAMBLK__device (lit ''log'') full_disk = ok (0, full_disk\<lparr>mem := m'\<rparr>)"
proof -
  have at: "ram_sector (mem full_disk) s k = (if k = 0 then 1 else if k = 1 then 0xC0 else 0)" if "s < 10239" "k < 512" for s k
  proof -
    have "unat (of_nat (512 * s + k) :: u32) = 512 * s + k" using that by (intro unat_u32_of_nat) simp
    then show ?thesis using that by (simp add: ram_sector_def full_disk_def del: of_nat_add of_nat_mult)
  qed
  have "block_used (ram_sector (mem full_disk) s)" if "s < 10239" for s
    using that by (simp add: block_used_def word_at_def at)
  then have "free_blocks 10239 (ram_sector (mem full_disk)) = {}" by (auto simp: free_blocks_def)
  then show ?thesis using nqfs_create_full [of full_disk ready_hw "lit ''log''"] by blast
qed

end
