(* ===== verification/Nqfs_List.thy ===== *)
theory Nqfs_List
  imports Nqfs_Limits
begin

text \<open>
  \<open>NQFS_DEBUG_list_files\<close>: one line for every inode in use, in their order on the disk, with the name the
  inode holds; and with that the one way to see the files whose inodes cannot be named by number.
\<close>

section \<open>The listing\<close>

definition inode_used :: "(nat \<Rightarrow> nat \<Rightarrow> u8) \<Rightarrow> nat \<Rightarrow> nat \<Rightarrow> bool" where
  "inode_used dk i j \<longleftrightarrow> dk i (128 * j) \<noteq> 0"

definition name_bytes :: "(nat \<Rightarrow> nat \<Rightarrow> u8) \<Rightarrow> nat \<Rightarrow> nat \<Rightarrow> u8 list" where
  "name_bytes dk i j = map (\<lambda>l. dk i (128 * j + 1 + l)) [0..<64]"

definition inode_name :: "(nat \<Rightarrow> nat \<Rightarrow> u8) \<Rightarrow> nat \<Rightarrow> nat \<Rightarrow> u8 list" where
  "inode_name dk i j = takeWhile (\<lambda>c. c \<noteq> 0) (name_bytes dk i j)"

definition named_inodes :: "(nat \<Rightarrow> nat \<Rightarrow> u8) \<Rightarrow> bool" where
  "named_inodes dk \<longleftrightarrow> (\<forall>i < FILEPTR_SECTORS. \<forall>j < FILEPTR_PER_SECTOR. inode_used dk i j \<longrightarrow>
     0 \<in> set (name_bytes dk i j) \<and> 8 \<notin> set (inode_name dk i j))"

definition inode_line :: "(nat \<Rightarrow> nat \<Rightarrow> u8) \<Rightarrow> nat \<Rightarrow> nat \<Rightarrow> u8 list" where
  "inode_line dk i j = (if inode_used dk i j then bytes_of ''Found file: '' @ inode_name dk i j @ [10] else [])"

definition sector_lines :: "(nat \<Rightarrow> nat \<Rightarrow> u8) \<Rightarrow> nat \<Rightarrow> nat \<Rightarrow> u8 list" where
  "sector_lines dk i n = concat (map (inode_line dk i) [0..<n])"

definition list_text :: "(nat \<Rightarrow> nat \<Rightarrow> u8) \<Rightarrow> nat \<Rightarrow> u8 list" where
  "list_text dk n = concat (map (\<lambda>i. sector_lines dk i FILEPTR_PER_SECTOR) [0..<n])"

text \<open>A zero among the bytes ends the string.\<close>

lemma window_cstring:
  assumes "valid p (length bs)" and "0 \<in> set bs" and "\<And>l. l < length bs \<Longrightarrow> peek m (padd p (of_nat l)) = bs ! l"
  shows "cstring m p (takeWhile (\<lambda>c. c \<noteq> 0) bs)"
proof -
  let ?xs = "takeWhile (\<lambda>c. c \<noteq> 0) bs"
  have lt: "length ?xs < length bs" using assms(2) by (induction bs) auto
  have "bs ! length ?xs = 0" using nth_length_takeWhile [OF lt] by simp
  then have "bs ! k = (?xs @ [0]) ! k" if "k \<le> length ?xs" for k
    using that by (cases "k = length ?xs") (simp_all add: nth_append takeWhile_nth)
  then show ?thesis
    using lt assms(1,3) by (auto simp: cstring_def valid_def dest: set_takeWhileD)
qed

context nqfs_console begin

definition buffered :: "nat \<Rightarrow> (nat \<Rightarrow> nat \<Rightarrow> u8) \<Rightarrow> machine \<Rightarrow> bool" where
  "buffered i dk s \<longleftrightarrow> disk (mem s) = dk \<and> (\<forall>x < 512. window (mem s) sector x = dk i x)"

lemma buffered_writes: "buffered i dk s \<Longrightarrow> writes hw t s s' \<Longrightarrow> buffered i dk s'"
proof -
  assume b: "buffered i dk s" and w: "writes hw t s s'"
  have "mem s' (Local 1 512) = mem s (Local 1 512)" using w by (simp add: writes_def screen_only_def)
  then have "window (mem s') sector = window (mem s) sector" by (intro window_cong) simp
  then show ?thesis using b disk_writes [OF w] by (simp add: buffered_def)
qed

lemma list_inode:
  assumes "buffered i dk s" and "j < 4" and "live_console hw s"
    and "inode_used dk i j \<longrightarrow> 0 \<in> set (name_bytes dk i j) \<and> 8 \<notin> set (inode_name dk i j)"
  shows "\<exists>s'. (let fp = padd sector (of_nat (128 * j)) in
            bind_res (load (mem s) fp) (\<lambda>allocd.
            if allocd \<noteq> 0
            then printf_nolock hw (lit ''Found file: %s\<newline>'') [Va_ptr (fp_filename fp)] s
            else ok s)) = ok s' \<and> writes hw (inode_line dk i j) s s'"
proof -
  let ?fp = "padd sector (of_nat (128 * j))"
  have ld: "load (mem s) ?fp = ok (dk i (128 * j))"
    using load_window [of sector 512 "128 * j" "mem s"] assms(1,2) by (simp add: buffered_def)
  show ?thesis
  proof (cases "inode_used dk i j")
    case False
    then show ?thesis using ld assms(3) by (simp add: inode_used_def inode_line_def writes_def)
  next
    case True
    let ?n = "inode_name dk i j" and ?a = "[Va_ptr (fp_filename ?fp)]"
    have "cstring (mem s) (fp_filename ?fp) ?n"
      unfolding inode_name_def
    proof (rule window_cstring)
      show "valid (fp_filename ?fp) (length (name_bytes dk i j))"
        using valid_padd [of sector 512 "128 * j + 1" 64] assms(2) by (simp add: name_bytes_def padd_padd add_ac)
      show "0 \<in> set (name_bytes dk i j)" using assms(4) True by simp
      fix l assume l: "l < length (name_bytes dk i j)"
      have "peek (mem s) (padd (fp_filename ?fp) (of_nat l)) = window (mem s) sector (128 * j + 1 + l)"
        by (simp add: window_def padd_padd add_ac)
      then show "peek (mem s) (padd (fp_filename ?fp) (of_nat l)) = name_bytes dk i j ! l"
        using assms(1,2) l by (simp add: buffered_def name_bytes_def)
    qed
    then have rd: "strings_at (\<lambda>_. ?n) ?a (mem s)" by (simp add: strings_at_def)
    have f: "fmt_text (\<lambda>_. ?n) (bytes_of ''Found file: %s\<newline>'') ?a = Some (inode_line dk i j, True)"
      using True by (simp add: bytes_of_def conv_text_def inode_line_def)
    have "8 \<notin> set (inode_line dk i j)"
      using assms(4) True by (simp add: inode_line_def) (simp add: bytes_of_def)
    from printf_nolock_live [OF assms(3) _ _ rd f this]
    have "\<exists>s'. printf_nolock hw (lit ''Found file: %s\<newline>'') ?a s = ok s' \<and> writes hw (inode_line dk i j) s s'"
      by (simp add: bytes_of_def)
    then show ?thesis using ld True by (simp add: inode_used_def)
  qed
qed

lemma list_sector:
  assumes "buffered i dk s" and "live_console hw s" and "i < 128" and "named_inodes dk"
  shows "\<exists>s'. for_range 0 FILEPTR_PER_SECTOR (\<lambda>j k.
            let fp = padd sector (of_nat (128 * j)) in
            bind_res (load (mem k) fp) (\<lambda>allocd.
            if allocd \<noteq> 0
            then printf_nolock hw (lit ''Found file: %s\<newline>'') [Va_ptr (fp_filename fp)] k
            else ok k)) s = ok s' \<and> writes hw (sector_lines dk i FILEPTR_PER_SECTOR) s s' \<and> buffered i dk s'"
proof (rule for_range_inv [where P = "\<lambda>j s'. writes hw (sector_lines dk i j) s s' \<and> buffered i dk s'"])
  show "writes hw (sector_lines dk i 0) s s \<and> buffered i dk s"
    using assms(1,2) by (simp add: writes_def sector_lines_def)
  fix j a assume j: "j < FILEPTR_PER_SECTOR" and a: "writes hw (sector_lines dk i j) s a \<and> buffered i dk a"
  have live: "live_console hw a" using a by (simp add: writes_def)
  have "j < 4" "inode_used dk i j \<longrightarrow> 0 \<in> set (name_bytes dk i j) \<and> 8 \<notin> set (inode_name dk i j)"
    using j assms(3,4) by (simp_all add: named_inodes_def)
  then obtain b where b: "(let fp = padd sector (of_nat (128 * j)) in
            bind_res (load (mem a) fp) (\<lambda>allocd.
            if allocd \<noteq> 0
            then printf_nolock hw (lit ''Found file: %s\<newline>'') [Va_ptr (fp_filename fp)] a
            else ok a)) = ok b" "writes hw (inode_line dk i j) a b"
    using list_inode [of i dk a j hw] a live by blast
  have "sector_lines dk i (Suc j) = sector_lines dk i j @ inode_line dk i j" by (simp add: sector_lines_def)
  then have "writes hw (sector_lines dk i (Suc j)) s b" using a b(2) writes_trans by metis
  with b a show "\<exists>b. (let fp = padd sector (of_nat (128 * j)) in
            bind_res (load (mem a) fp) (\<lambda>allocd.
            if allocd \<noteq> 0
            then printf_nolock hw (lit ''Found file: %s\<newline>'') [Va_ptr (fp_filename fp)] a
            else ok a)) = ok b \<and> writes hw (sector_lines dk i (Suc j)) s b \<and> buffered i dk b"
    using buffered_writes by blast
qed simp

lemma list_files:
  assumes "live_console hw k" and "named_inodes (disk (mem k))" and "128 \<le> sectors"
  shows "\<exists>k'. NQFS_DEBUG_list_files hw dev k = ok k' \<and> live_console hw k' \<and> lock k' = lock k \<and>
    com1_sent (io_log k') = com1_sent (io_log k) @ list_text (disk (mem k)) FILEPTR_SECTORS \<and> disk (mem k') = disk (mem k)"
proof -
  let ?dk = "disk (mem k)"
  let ?P = "\<lambda>i s. live_console hw s \<and> lock s = lock k \<and> disk (mem s) = ?dk \<and>
    com1_sent (io_log s) = com1_sent (io_log k) @ list_text ?dk i"
  let ?body = "\<lambda>i k. bind_res (on_mem (read_sector dev (device_no dev) (of_nat i) sector) k) (\<lambda>(r, k).
          if r = 0
          then bind_res (printf_nolock hw (lit ''Error reading sector %d\<newline>'') [Va_int (of_nat i)] k) (\<lambda>k. ok (Stop k))
          else bind_res (for_range 0 FILEPTR_PER_SECTOR (\<lambda>j k.
            let fp = padd sector (of_nat (128 * j)) in
            bind_res (load (mem k) fp) (\<lambda>allocd.
            if allocd \<noteq> 0
            then printf_nolock hw (lit ''Found file: %s\<newline>'') [Va_ptr (fp_filename fp)] k
            else ok k)) k) (\<lambda>k. ok (Next k :: (machine, machine) ctl)))"
  have step: "\<exists>s'. ?body i s = ok (Next s') \<and> ?P (Suc i) s'" if i: "i < 128" and s: "?P i s" for i s
  proof -
    have sec: "i < sectors" using i assms(3) by simp
    let ?r = "sector_read s i"
    note rd = inode_round [OF sec]
    have "buffered i ?dk ?r" using rd(3) [of s] s by (simp add: buffered_def window_full)
    moreover have "live_console hw ?r" using s by simp
    ultimately obtain b where b: "for_range 0 FILEPTR_PER_SECTOR (\<lambda>j k.
            let fp = padd sector (of_nat (128 * j)) in
            bind_res (load (mem k) fp) (\<lambda>allocd.
            if allocd \<noteq> 0
            then printf_nolock hw (lit ''Found file: %s\<newline>'') [Va_ptr (fp_filename fp)] k
            else ok k)) ?r = ok b" "writes hw (sector_lines ?dk i FILEPTR_PER_SECTOR) ?r b" "buffered i ?dk b"
      using list_sector [OF _ _ i assms(2)] by blast
    have "list_text ?dk (Suc i) = list_text ?dk i @ sector_lines ?dk i FILEPTR_PER_SECTOR" by (simp add: list_text_def)
    then have "?P (Suc i) b" using b(2,3) s writes_lock [OF b(2)] by (simp add: writes_def buffered_def)
    moreover have "?body i s = ok (Next b)" using rd(1) [of s] b(1) by simp
    ultimately show ?thesis by blast
  qed
  have "\<exists>s'. for_exit 0 n ?body k = ok (Next s') \<and> ?P n s'" if "n \<le> 128" for n
    using that
  proof (induction n)
    case 0
    then show ?case using assms(1) by (simp add: list_text_def)
  next
    case (Suc n)
    then obtain s where s: "for_exit 0 n ?body k = ok (Next s)" "?P n s" by auto
    obtain s' where "?body n s = ok (Next s')" "?P (Suc n) s'" using step [OF _ s(2)] Suc.prems by auto
    then show ?case using s(1) by (simp add: for_exit_snoc)
  qed
  from this [of 128] show ?thesis by (auto simp: NQFS_DEBUG_list_files_def)
qed

end

section \<open>The directory\<close>

text \<open>The names of the files, in the order they were created: the inodes in use are the first ones.\<close>

definition directory :: "(nat \<Rightarrow> nat \<Rightarrow> u8) \<Rightarrow> u8 list list \<Rightarrow> bool" where
  "directory dk ns \<longleftrightarrow> length ns \<le> 512 \<and>
     (\<forall>n < 512. if n < length ns then inode_used dk (n div 4) (n mod 4) \<and>
          0 \<in> set (name_bytes dk (n div 4) (n mod 4)) \<and> inode_name dk (n div 4) (n mod 4) = ns ! n
        else \<not> inode_used dk (n div 4) (n mod 4))"

definition name_line :: "u8 list \<Rightarrow> u8 list" where
  "name_line n = bytes_of ''Found file: '' @ n @ [10]"

lemma directory_at:
  assumes "directory dk ns" and "i < 128" and "j < 4"
  shows "inode_used dk i j \<longleftrightarrow> 4 * i + j < length ns"
    and "4 * i + j < length ns \<Longrightarrow> 0 \<in> set (name_bytes dk i j) \<and> inode_name dk i j = ns ! (4 * i + j)"
proof -
  have n: "4 * i + j < 512" "(4 * i + j) div 4 = i" "(4 * i + j) mod 4 = j" using assms(2,3) by simp_all
  note at = assms(1) [unfolded directory_def, THEN conjunct2, rule_format, OF n(1), unfolded n(2,3)]
  show "inode_used dk i j \<longleftrightarrow> 4 * i + j < length ns"
    and "4 * i + j < length ns \<Longrightarrow> 0 \<in> set (name_bytes dk i j) \<and> inode_name dk i j = ns ! (4 * i + j)"
    using at by (auto split: if_splits)
qed

lemma directory_named:
  assumes "directory dk ns" and "\<forall>n \<in> set ns. 8 \<notin> set n"
  shows "named_inodes dk"
  using directory_at [OF assms(1)] assms(2) by (simp add: named_inodes_def)

lemma directory_sector:
  assumes "directory dk ns" and "i < 128" and "j \<le> 4"
  shows "concat (map name_line (take (4 * i) ns)) @ sector_lines dk i j = concat (map name_line (take (4 * i + j) ns))"
  using assms(3)
proof (induction j)
  case 0
  then show ?case by (simp add: sector_lines_def)
next
  case (Suc j)
  have j: "j < 4" using Suc.prems by simp
  have "sector_lines dk i (Suc j) = sector_lines dk i j @ inode_line dk i j" by (simp add: sector_lines_def)
  moreover have "inode_line dk i j = (if 4 * i + j < length ns then name_line (ns ! (4 * i + j)) else [])"
    using directory_at [OF assms(1,2) j] by (simp add: inode_line_def name_line_def)
  ultimately show ?case using Suc.IH j by (cases "4 * i + j < length ns") (simp_all add: take_Suc_conv_app_nth)
qed

lemma directory_text:
  assumes "directory dk ns"
  shows "list_text dk FILEPTR_SECTORS = concat (map name_line ns)"
proof -
  have "list_text dk n = concat (map name_line (take (4 * n) ns))" if "n \<le> 128" for n
    using that
  proof (induction n)
    case (Suc n)
    have "list_text dk (Suc n) = list_text dk n @ sector_lines dk n 4" by (simp add: list_text_def)
    then show ?case using Suc directory_sector [OF assms, of n 4] by (simp add: add.commute)
  qed (simp add: list_text_def)
  from this [of 128] show ?thesis using assms by (simp add: directory_def)
qed

text \<open>Creating a file takes the next inode.\<close>

lemma directory_first_inode:
  assumes "directory dk ns" and "length ns < 512"
  shows "first_inode dk (length ns div 4) (length ns mod 4)"
proof -
  let ?i = "length ns div 4" and ?j = "length ns mod 4"
  have ij: "?i < 128" "?j < 4" "4 * ?i + ?j = length ns" using assms(2) by (simp_all add: less_mult_imp_div_less)
  have "inode_used dk i j" if "i < ?i" "j < 4" for i j
  proof -
    have "4 * i + j < length ns" using that by linarith
    then show ?thesis using directory_at(1) [OF assms(1), of i j] that ij(1) by simp
  qed
  moreover have "inode_used dk ?i j" if "j < ?j" for j
    using directory_at(1) [OF assms(1) ij(1), of j] that ij by simp
  moreover have "\<not> inode_used dk ?i ?j" using directory_at(1) [OF assms(1) ij(1,2)] ij(3) by simp
  ultimately show ?thesis using ij(1,2) by (simp add: first_inode_def inode_used_def)
qed

lemma fresh_inode_name:
  assumes "fresh_inode (dk i) j c xs" and "0 \<notin> set xs" and "length xs < 64"
  shows "inode_used dk i j" and "0 \<in> set (name_bytes dk i j)" and "inode_name dk i j = xs"
proof -
  have b: "name_bytes dk i j ! l = (xs @ [0]) ! l" if "l \<le> length xs" for l
    using that assms(1,3) by (simp add: name_bytes_def fresh_inode_def)
  have len: "length (name_bytes dk i j) = 64" by (simp add: name_bytes_def)
  have "take (Suc (length xs)) (name_bytes dk i j) = xs @ [0]"
    using b len assms(3) by (intro nth_equalityI) auto
  then have eq: "name_bytes dk i j = xs @ 0 # drop (Suc (length xs)) (name_bytes dk i j)"
    by (metis append_take_drop_id append_Cons append_Nil append_assoc)
  show "inode_used dk i j" using assms(1) by (simp add: fresh_inode_def inode_used_def)
  show "0 \<in> set (name_bytes dk i j)" by (subst eq) simp
  show "inode_name dk i j = xs"
    unfolding inode_name_def by (subst eq) (use assms(2) in \<open>simp add: takeWhile_append2 takeWhile_append\<close>)
qed

text \<open>An inode none of whose bytes changed.\<close>

lemma inode_same:
  assumes "\<And>x. x < 128 \<Longrightarrow> dk' i (128 * j + x) = dk i (128 * j + x)"
  shows "inode_used dk' i j = inode_used dk i j" and "name_bytes dk' i j = name_bytes dk i j"
    and "inode_name dk' i j = inode_name dk i j"
proof -
  show "inode_used dk' i j = inode_used dk i j" using assms [of 0] by (simp add: inode_used_def)
  have "dk' i (128 * j + 1 + l) = dk i (128 * j + 1 + l)" if "l < 64" for l
    using assms [of "1 + l"] that by (simp add: add.assoc)
  then show "name_bytes dk' i j = name_bytes dk i j" by (simp add: name_bytes_def)
  then show "inode_name dk' i j = inode_name dk i j" by (simp add: inode_name_def)
qed

lemma directory_extend:
  assumes "directory dk ns" and "length ns < 512" and "0 \<notin> set xs" and "length xs < 64"
    and "fresh_inode (dk' (length ns div 4)) (length ns mod 4) c xs"
    and "same_inodes_but (length ns mod 4) (dk' (length ns div 4)) (dk (length ns div 4))"
    and "\<And>t. t < 128 \<Longrightarrow> t \<noteq> length ns div 4 \<Longrightarrow> same_sector (dk' t) (dk t)"
  shows "directory dk' (ns @ [xs])"
  unfolding directory_def
proof (intro conjI allI impI)
  show "length (ns @ [xs]) \<le> 512" using assms(2) by simp
  fix n :: nat assume n: "n < 512"
  let ?i = "n div 4" and ?j = "n mod 4"
  have ij: "?i < 128" "?j < 4" "4 * ?i + ?j = n" using n by (simp_all add: less_mult_imp_div_less)
  show "if n < length (ns @ [xs])
      then inode_used dk' ?i ?j \<and> 0 \<in> set (name_bytes dk' ?i ?j) \<and> inode_name dk' ?i ?j = (ns @ [xs]) ! n
      else \<not> inode_used dk' ?i ?j"
  proof (cases "n = length ns")
    case True
    then show ?thesis using fresh_inode_name [where dk = dk' and i = ?i and j = ?j, of c xs] assms(3-5) by simp
  next
    case False
    have "dk' ?i (128 * ?j + x) = dk ?i (128 * ?j + x)" if "x < 128" for x
    proof (cases "?i = length ns div 4")
      case True
      then have "?j \<noteq> length ns mod 4" using False ij(3) by (metis mult_div_mod_eq)
      then have "128 * ?j + x < 128 * (length ns mod 4) \<or> 128 * (length ns mod 4) + 128 \<le> 128 * ?j + x"
        using that by linarith
      moreover have "128 * ?j + x < 512" using that ij(2) by linarith
      ultimately show ?thesis using assms(6) unfolding True same_inodes_but_def by blast
    next
      case False
      have "128 * ?j + x < 512" using that ij(2) by linarith
      then show ?thesis using assms(7) [OF ij(1) False] by (simp add: same_sector_def)
    qed
    note same = inode_same [where dk = dk and dk' = dk', OF this]
    show ?thesis
      using False directory_at [OF assms(1) ij(1,2), unfolded ij(3)] by (simp add: same nth_append less_Suc_eq)
  qed
qed

lemma empty_directory: "directory (ram_sector (upd_bytes m ramfs_blocks 5242880 (\<lambda>_. 0))) []"
proof -
  let ?m = "upd_bytes m ramfs_blocks 5242880 (\<lambda>_. 0)"
  have "ram_sector ?m i (128 * j) = 0" if "i < 128" "j < 4" for i j
  proof -
    have "unat (of_nat (512 * i + 128 * j) :: u32) = 512 * i + 128 * j" using that by (intro unat_u32_of_nat) simp
    then show ?thesis using that by (simp add: ram_sector_def upd_bytes_def ramfs_blocks_def del: of_nat_add of_nat_mult)
  qed
  then show ?thesis by (simp add: directory_def inode_used_def less_mult_imp_div_less)
qed

section \<open>Properties\<close>

text \<open>
  C14: the directory of the RAM disk is a list of names. Creating a file appends its name, cut to 63
  characters, to that list and returns the number of the sector its inode is in (four files share
  each number); \<open>NQFS_DEBUG_list_files\<close> then prints one line for each file, in the order of their
  creation, among them the files no number reaches, and leaves the disk as it is.
\<close>

lemma nqfs_directory:
  assumes "directory (ram_sector (mem k)) ns" and "length ns < 512" and "\<forall>n \<in> set ns. 8 \<notin> set n"
    and "free_blocks 10239 (ram_sector (mem k)) \<noteq> {}" and "live_console hw k"
    and "cstring (mem k) filename xs" and "8 \<notin> set xs"
    and "fst filename \<notin> {Ramfs_blocks, Local 1 512, Local 3 512, Vga_buf}"
  shows "\<exists>k1 k2. NQFS_create_file hw RAMBLK__device filename k = ok (of_nat (length ns div 4), k1) \<and>
    directory (ram_sector (mem k1)) (ns @ [take 63 xs]) \<and>
    NQFS_DEBUG_list_files hw RAMBLK__device k1 = ok k2 \<and> ram_sector (mem k2) = ram_sector (mem k1) \<and>
    com1_sent (io_log k2) = com1_sent (io_log k1) @ concat (map name_line (ns @ [take 63 xs]))"
proof -
  let ?dk = "ram_sector (mem k)" and ?i = "length ns div 4" and ?n = "take 63 xs"
  obtain c where c: "first_free 10239 ?dk c" using assms(4) by (rule first_free_exists)
  have i: "?i < 128" "128 \<le> c" using assms(2) c by (simp_all add: less_mult_imp_div_less first_free_def)
  have name: "fst filename \<noteq> Ramfs_blocks" "fst filename \<notin> {Local 1 512, Local 3 512, Vga_buf}" using assms(8) by auto
  have x: "0 \<notin> set ?n" "length ?n < 64" "8 \<notin> set ?n"
    using assms(6,7) by (auto simp: cstring_def dest: in_set_takeD)
  obtain k1 where k1: "NQFS_create_file hw RAMBLK__device filename k = ok (of_nat ?i, k1)" "live_console hw k1"
    "fresh_inode (ram_sector (mem k1) ?i) (length ns mod 4) c ?n"
    "same_inodes_but (length ns mod 4) (ram_sector (mem k1) ?i) (?dk ?i)"
    "\<forall>t < 10239. t \<noteq> ?i \<longrightarrow> same_sector (ram_sector (mem k1) t) (if t = c then marked (?dk c) else ?dk t)"
    using ram_files.create_file [OF assms(5) directory_first_inode [OF assms(1,2)] c assms(6,7) name] by blast
  have "same_sector (ram_sector (mem k1) t) (?dk t)" if "t < 128" "t \<noteq> ?i" for t
    using k1(5) [rule_format, of t] that i(2) by simp
  then have d: "directory (ram_sector (mem k1)) (ns @ [?n])"
    using directory_extend [where dk' = "ram_sector (mem k1)", OF assms(1,2) x(1,2) k1(3,4)] by simp
  have "named_inodes (ram_sector (mem k1))" using directory_named [OF d] assms(3) x(3) by simp
  then obtain k2 where "NQFS_DEBUG_list_files hw RAMBLK__device k1 = ok k2" "ram_sector (mem k2) = ram_sector (mem k1)"
    "com1_sent (io_log k2) = com1_sent (io_log k1) @ list_text (ram_sector (mem k1)) FILEPTR_SECTORS"
    using ram_files.list_files [OF k1(2)] by auto
  with k1(1) d directory_text [OF d] show ?thesis by auto
qed

lemma nqfs_directory_witness:
  "\<exists>k1 k2. NQFS_DEBUG_list_files ready_hw RAMBLK__device k1 = ok k2 \<and>
    com1_sent (io_log k2) = com1_sent (io_log k1) @ bytes_of ''Found file: log\<newline>''"
proof -
  let ?k = "fresh_machine\<lparr>mem := upd_bytes (mem fresh_machine) ramfs_blocks 5242880 (\<lambda>_. 0)\<rparr>"
  have "live_console ready_hw fresh_machine" using fresh_console by (simp add: live_console_def console_inv_def)
  then have con: "live_console ready_hw ?k" by simp
  have dir: "directory (ram_sector (mem ?k)) []" using empty_directory [of "mem fresh_machine"] by simp
  have free: "free_blocks 10239 (ram_sector (mem ?k)) \<noteq> {}" using fresh_disk_state(4) [of fresh_machine] by force
  have cs: "cstring (mem ?k) (lit ''log'') (bytes_of ''log'')" by (intro cstring_lit) (simp_all add: bytes_of_def)
  have name: "8 \<notin> set (bytes_of ''log'')" "fst (lit ''log'') \<notin> {Ramfs_blocks, Local 1 512, Local 3 512, Vga_buf}"
    by (simp_all add: bytes_of_def lit_def)
  obtain k1 k2 where "NQFS_DEBUG_list_files ready_hw RAMBLK__device k1 = ok k2"
    "com1_sent (io_log k2) = com1_sent (io_log k1) @ concat (map name_line ([] @ [take 63 (bytes_of ''log'')]))"
    using nqfs_directory [OF dir _ _ free con cs name] by auto
  moreover have "concat (map name_line ([] @ [take 63 (bytes_of ''log'')])) = bytes_of ''Found file: log\<newline>''"
    by (simp add: name_line_def bytes_of_def)
  ultimately show ?thesis by auto
qed

end
