(* ===== verification/Typing.thy ===== *)
theory Typing
  imports Shell_Session
begin

text \<open>
  From a key to its echo: the user side of \<open>yield\<close> and \<open>getc\<close> (syscall.c), one turn of each process's
  loop (supp/test_processes.c), and what interrupts leave alone between two turns of the shell.
\<close>

section \<open>Turns\<close>

definition yield :: "hw \<Rightarrow> regs \<Rightarrow> kernel \<Rightarrow> (regs \<times> kernel) res" where
  "yield hw r k = invoke_syscall hw 0 r k"

text \<open>The interrupt of \<open>getc\<close>, and the byte it takes from \<open>al\<close> when the process runs again.\<close>

definition getc :: "hw \<Rightarrow> regs \<Rightarrow> kernel \<Rightarrow> (regs \<times> kernel) res" where
  "getc hw r k = invoke_syscall hw 1 r k"

definition getc_result :: "regs \<Rightarrow> u8" where
  "getc_result r = ucast (r_eax r)"

definition dazzle_turn :: "hw \<Rightarrow> shell_env \<Rightarrow> regs \<Rightarrow> shell \<Rightarrow> (regs \<times> shell) res" where
  "dazzle_turn hw env r st =
     bind_res (dazzle_key hw env (getc_result r) st) (\<lambda>st.
     bind_res (yield hw (env_regs env) (sh_kernel st)) (\<lambda>(r, k). ok (r, st\<lparr>sh_kernel := k\<rparr>)))"

definition razzle_turn :: "hw \<Rightarrow> shell_env \<Rightarrow> shell \<Rightarrow> (regs \<times> shell) res" where
  "razzle_turn hw env st =
     bind_res (razzle_round st) (\<lambda>st.
     bind_res (yield hw (env_regs env) (sh_kernel st)) (\<lambda>(r, k). ok (r, st\<lparr>sh_kernel := k\<rparr>)))"

text \<open>Timer interrupts, one after the other, each with the registers it finds.\<close>

fun pit_ticks :: "hw \<Rightarrow> regs list \<Rightarrow> regs \<times> kernel \<Rightarrow> (regs \<times> kernel) res" where
  "pit_ticks hw [] x = ok x"
| "pit_ticks hw (r # rs) x = bind_res (irq_handler hw (r\<lparr>r_int_no := IRQCODE_PIT\<rparr>) (snd x)) (pit_ticks hw rs)"

section \<open>Interrupts that print nothing\<close>

text \<open>Of the machine only the port history changes, nothing is sent to COM1, and the devices stay.\<close>

definition quiet :: "kernel \<Rightarrow> kernel \<Rightarrow> bool" where
  "quiet k k' \<longleftrightarrow> k_pci k' = k_pci k \<and> (\<exists>log. k_machine k' = (k_machine k)\<lparr>io_log := log\<rparr> \<and>
     com1_sent log = com1_sent (io_log (k_machine k)))"

lemma quiet_same: "k_machine k' = k_machine k \<Longrightarrow> k_pci k' = k_pci k \<Longrightarrow> quiet k k'"
  unfolding quiet_def by (intro conjI exI [of _ "io_log (k_machine k)"]) simp_all

lemma quiet_trans: "quiet a b \<Longrightarrow> quiet b c \<Longrightarrow> quiet a c"
  by (auto simp: quiet_def)

lemma quiet_console:
  assumes "quiet k k'"
  shows "console_free hw k' = console_free hw k" and "mem (k_machine k') = mem (k_machine k)"
    and "term_of (k_machine k') = term_of (k_machine k)"
    and "com1_sent (io_log (k_machine k')) = com1_sent (io_log (k_machine k))" and "k_pci k' = k_pci k"
  using assms by (auto simp: quiet_def console_free_def console_inv_def)

lemma eoi_sent [simp]: "com1_sent (send_eoi n log) = com1_sent log"
  by (simp add: send_eoi_def outb_def)

lemma rx_sent: "serial_rx hw log = ok (b, log') \<Longrightarrow> com1_sent log' = com1_sent log"
  by (auto simp: serial_rx_exact Let_def split: if_splits simp del: poll.simps)

lemma kb_quiet: "kb_handler hw k = ok k' \<Longrightarrow> quiet k k'"
  by (auto simp: kb_handler_def inb_def Let_def bind_res_eq_ok quiet_def)

lemma com1_quiet: "com1_handler hw k = ok k' \<Longrightarrow> quiet k k'"
  by (auto simp: com1_handler_def Let_def bind_res_eq_ok quiet_def dest: rx_sent)

lemma syscall_quiet:
  assumes "syscall hw r k = ok (r', k')" and "r_eax r \<noteq> 5"
  shows "quiet k k'"
  using assms by (auto simp: syscall_def syscall_numbers_def bind_res_eq_ok intro: quiet_same split: if_splits)

lemma irq_quiet:
  assumes "irq_handler hw r k = ok (r', k')" and "r_int_no r = IRQCODE_SYSCALL \<Longrightarrow> r_eax r \<noteq> 5"
  shows "quiet k k'"
proof -
  obtain r1 k1 where handled: "(if r_int_no r = IRQCODE_SYSCALL then syscall hw r k
        else if r_int_no r = IRQCODE_PIT
             then bind_res (schedule r (k_sched k)) (\<lambda>(r, s). ok (r, k\<lparr>k_sched := s\<rparr>))
        else if r_int_no r = IRQCODE_PS2
             then bind_res (kb_handler hw k) (\<lambda>k. ok (r, k))
        else if r_int_no r = IRQCODE_COM1
             then bind_res (com1_handler hw k) (\<lambda>k. ok (r, k))
        else ok (r, k)) = ok (r1, k1)"
      and k': "k' = k1\<lparr>k_machine := (k_machine k1)\<lparr>io_log := send_eoi (r_int_no r1) (io_log (k_machine k1))\<rparr>\<rparr>"
    using assms(1) unfolding irq_handler_def by (auto simp only: bind_res_eq_ok prod.case split_paired_Ex
        option.inject sum.inject prod.inject)
  have "quiet k k1"
    using handled assms(2) syscall_quiet [of hw r k r1 k1]
    by (auto simp: bind_res_eq_ok kb_quiet com1_quiet intro: quiet_same split: if_splits)
  then show ?thesis using k' by (auto simp: quiet_def)
qed

text \<open>No interrupt disturbs the console or the line that is being typed; only \<open>powerctl\<close> prints.\<close>

definition undisturbed :: "hw \<Rightarrow> kernel \<Rightarrow> kernel \<Rightarrow> bool" where
  "undisturbed hw k k' \<longleftrightarrow> console_free hw k' \<and>
     mem (k_machine k') (Local 4 2048) = mem (k_machine k) (Local 4 2048)"

lemma irq_undisturbed:
  assumes "irq_handler hw r k = ok (r', k')" and "console_free hw k"
  shows "undisturbed hw k k'"
proof (cases "r_int_no r = IRQCODE_SYSCALL \<and> r_eax r = 5")
  case False
  then have "quiet k k'" using assms(1) by (intro irq_quiet) auto
  then show ?thesis using assms(2) by (simp add: undisturbed_def quiet_console)
next
  case True
  obtain m t where m: "syscall_powerctl hw (k_machine k) = ok m" "says hw t (k_machine k) m"
    using syscall_powerctl_says assms(2) unfolding console_free_def by blast
  have n: "map_of syscall_numbers 5 = Some SYSCALL_powerctl" by (simp add: syscall_numbers_def)
  have "k_machine k' = m\<lparr>io_log := send_eoi (r_int_no r) (io_log m)\<rparr>"
    using assms(1) True m(1) by (auto simp: irq_handler_def syscall_def n)
  moreover have "says hw t (k_machine k) (m\<lparr>io_log := send_eoi (r_int_no r) (io_log m)\<rparr>)"
    using m(2) by (rule says_log) simp
  ultimately have s: "says hw t (k_machine k) (k_machine k')" by simp
  then show ?thesis
    using assms(2) says_console [OF s] says_lock [OF s] says_command [OF s]
    by (simp add: undisturbed_def console_free_def)
qed

lemma steps_undisturbed:
  assumes "(step_blocked hw p)\<^sup>*\<^sup>* k k'" and "console_free hw k"
  shows "undisturbed hw k k'"
  using assms(1)
proof (induction rule: rtranclp_induct)
  case (step y z)
  then obtain r r' where "irq_handler hw r y = ok (r', z)" by (auto simp: step_blocked_def elim: kstepE)
  then show ?case using irq_undisturbed step.IH by (simp add: undisturbed_def)
qed (simp add: assms(2) undisturbed_def)

lemma steps_reachable:
  assumes "(step_blocked hw p)\<^sup>*\<^sup>* k k'" and "reachable hw k"
  shows "reachable hw k'"
  using assms(1) by (induction rule: rtranclp_induct) (auto intro: assms(2) reachable.step simp: step_blocked_def)

section \<open>The character of a key\<close>

text \<open>
  What an interrupt delivers: from the keyboard the character of the key that went down, under the
  shift keys as they are (0 for a key that has none), from COM1 the byte received, with return and
  delete translated.
\<close>

definition scan_char :: "kb_state \<Rightarrow> u8 \<Rightarrow> u8" where
  "scan_char k code =
     (if code AND 0xC0 = 0x80 then 0
      else case map_of key_codes code of Some key \<Rightarrow> keycode_to_char k key | None \<Rightarrow> 0)"

definition com1_char :: "u8 \<Rightarrow> u8" where
  "com1_char b = (if b = 0x0D then 0x0A else if b = 127 then 0x08 else b)"

definition types_key :: "hw \<Rightarrow> u8 \<Rightarrow> regs \<Rightarrow> kernel \<Rightarrow> bool" where
  "types_key hw c r k \<longleftrightarrow>
     (if r_int_no r = IRQCODE_PS2
      then c = scan_char (kstate (k_ps2 k)) (port_byte hw 0x60 (io_log (k_machine k)))
      else r_int_no r = IRQCODE_COM1 \<and> (\<exists>b log. serial_rx hw (io_log (k_machine k)) = ok (b, log) \<and> c = com1_char b))"

lemma scan_char_typed:
  assumes "scan_char (kstate d) code \<noteq> 0"
  shows "handle_keypress code (d, s) = handle_keypress_char (scan_char (kstate d) code) (d, s)"
proof -
  obtain key where k: "\<not> code AND 0xC0 = 0x80" "map_of key_codes code = Some key"
    using assms by (auto simp: scan_char_def split: if_splits option.splits)
  then have c: "scan_char (kstate d) code = keycode_to_char (kstate d) key" by (simp add: scan_char_def)
  have "handle_keypress code (d, s) = (case key of
      Key_l_shift \<Rightarrow> ok (d\<lparr>kstate := (kstate d)\<lparr>l_shift := 1\<rparr>\<rparr>, s)
    | Key_r_shift \<Rightarrow> ok (d\<lparr>kstate := (kstate d)\<lparr>r_shift := 1\<rparr>\<rparr>, s)
    | Key_caps_lock \<Rightarrow> ok (d\<lparr>kstate := (kstate d)\<lparr>caps := (if caps (kstate d) = 0 then 1 else 0)\<rparr>\<rparr>, s)
    | key \<Rightarrow> handle_keypress_char (keycode_to_char (kstate d) key) (d, s))"
    using k by (cases key) (simp_all add: handle_keypress_def)
  then show ?thesis using assms c by (cases key) simp_all
qed

lemma key_interrupt:
  assumes "types_key hw c r k" and "c \<noteq> 0" and "irq_handler hw r k = ok (r', k')"
  shows "handle_keypress_char c (k_ps2 k, k_sched k) = ok (k_ps2 k', k_sched k')" and "quiet k k'"
proof -
  have no: "r_int_no r \<in> {IRQCODE_PS2, IRQCODE_COM1}" using assms(1) by (auto simp: types_key_def split: if_splits)
  then show "quiet k k'" using assms(3) by (auto intro: irq_quiet)
  show "handle_keypress_char c (k_ps2 k, k_sched k) = ok (k_ps2 k', k_sched k')"
  proof (cases "r_int_no r = IRQCODE_PS2")
    case True
    then have "c = scan_char (kstate (k_ps2 k)) (port_byte hw 0x60 (io_log (k_machine k)))"
      using assms(1) by (simp add: types_key_def)
    then show ?thesis
      using assms(2,3) True scan_char_typed [of "k_ps2 k" "port_byte hw 0x60 (io_log (k_machine k))" "k_sched k"]
      by (auto simp: irq_handler_def kb_handler_def inb_def port_byte_def Let_def bind_res_eq_ok)
  next
    case False
    then obtain b log where "r_int_no r = IRQCODE_COM1" "serial_rx hw (io_log (k_machine k)) = ok (b, log)" "c = com1_char b"
      using assms(1) by (auto simp: types_key_def)
    then show ?thesis
      using assms(3) by (auto simp: irq_handler_def com1_handler_def com1_char_def Let_def bind_res_eq_ok)
  qed
qed

section \<open>From the key to the process\<close>

lemma pit_ticks_follow:
  assumes "ticks (map (\<lambda>r. r\<lparr>r_int_no := IRQCODE_PIT\<rparr>) rs) (r, k_sched k) = ok (r', s')" and "reachable hw k"
  shows "\<exists>k'. pit_ticks hw rs (r, k) = ok (r', k') \<and> k_sched k' = s' \<and> reachable hw k' \<and> quiet k k'"
  using assms
proof (induction rs arbitrary: r k)
  case Nil
  then show ?case by (simp add: quiet_same)
next
  case (Cons a rs)
  let ?a = "a\<lparr>r_int_no := IRQCODE_PIT\<rparr>"
  obtain r1 s1 where s1: "schedule ?a (k_sched k) = ok (r1, s1)"
    "ticks (map (\<lambda>r. r\<lparr>r_int_no := IRQCODE_PIT\<rparr>) rs) (r1, s1) = ok (r', s')"
    using Cons.prems(1) by (auto simp: bind_res_eq_ok)
  obtain k1 where k1: "irq_handler hw ?a k = ok (r1, k1)" "k_sched k1 = s1"
    using s1(1) by (simp add: irq_handler_def)
  have "kstep hw k k1" by (rule interrupt [OF _ k1(1)]) (simp add: from_process_def)
  then have "reachable hw k1" using Cons.prems(2) by (blast intro: reachable.step)
  moreover have "quiet k k1" using k1(1) by (rule irq_quiet) simp
  ultimately show ?case using Cons.IH [of r1 k1] s1(2) k1 by (auto intro: quiet_trans)
qed

lemma key_reaches:
  assumes "reachable hw k" and "unat (current_pid (k_sched k)) = p" and "p < MAX_PROCESSES"
    and "getc hw r k = ok (r1, k1)" and "(step_blocked hw p)\<^sup>*\<^sup>* k1 k2"
    and "types_key hw c r2 k2" and "irq_handler hw r2 k2 = ok (r3, k3)" and "c \<noteq> 0"
    and "length rs = MAX_PROCESSES"
  shows "\<exists>n r4 k4. n \<le> MAX_PROCESSES \<and> pit_ticks hw (take n rs) (r3, k3) = ok (r4, k4) \<and> reachable hw k4 \<and>
    unat (current_pid (k_sched k4)) = p \<and> getc_result r4 = c \<and> quiet k2 k3 \<and> quiet k3 k4 \<and>
    same_listing (k_sched k3) (k_sched k4)"
proof -
  let ?r = "r\<lparr>r_eax := 1, r_int_no := IRQCODE_SYSCALL\<rparr>"
  have g: "irq_handler hw ?r k = ok (r1, k1)" using assms(4) by (simp add: getc_def invoke_syscall_def)
  then obtain r' where g': "syscall_getc ?r (k_ps2 k, k_sched k) = ok (r', k_ps2 k1, k_sched k1)"
    by (auto simp: irq_handler_def syscall_def syscall_numbers_def bind_res_eq_ok)
  have "kstep hw k k1" by (rule interrupt [OF _ g]) (use assms(2,3) in \<open>simp add: from_process_def\<close>)
  then have k1: "reachable hw k1" using assms(1) by (blast intro: reachable.step)
  note key = key_interrupt [OF assms(6,8,7)]
  note path = getc_path [OF reachable_kinv [OF assms(1)] assms(2,3) g' reachable_kinv [OF k1] assms(5) key(1) assms(8)]
  have "r_int_no r2 \<noteq> IRQCODE_SYSCALL" using assms(6) by (auto simp: types_key_def split: if_splits)
  then have "kstep hw k2 k3" by (intro interrupt [OF _ assms(7)]) (simp add: from_process_def)
  then have k3: "reachable hw k3" using steps_reachable [OF assms(5) k1] by (blast intro: reachable.step)
  have t: "table_ok (k_sched k3)" using path(1) by (simp add: procs_inv_def)
  have "length (map (\<lambda>r. r\<lparr>r_int_no := IRQCODE_PIT\<rparr>) rs) = 128" using assms(9) by simp
  from ticks_resume [OF t assms(3) path(2,3) this, of r3] obtain n r4 s4 where n: "n \<le> 128"
    "ticks (map (\<lambda>r. r\<lparr>r_int_no := IRQCODE_PIT\<rparr>) (take n rs)) (r3, k_sched k3) = ok (r4, s4)"
    "unat (current_pid s4) = p" "user_view r4 = user_view (ts_registers (process_table (k_sched k3) ! p))"
    by (auto simp: take_map)
  obtain k4 where k4: "pit_ticks hw (take n rs) (r3, k3) = ok (r4, k4)" "k_sched k4 = s4" "reachable hw k4" "quiet k3 k4"
    using pit_ticks_follow [OF n(2) k3] by blast
  have "r_eax r4 = scast c" using n(4) path(4) by (simp add: user_view_def)
  then have "getc_result r4 = c" by (simp add: getc_result_def char_byte)
  then show ?thesis using n k4 key(2) ticks_listing [OF t n(2)] by blast
qed

lemma yield_returns:
  assumes "table_ok (k_sched k)" and "p < MAX_PROCESSES" and "ready (k_sched k) p"
  shows "\<exists>r' k'. yield hw r k = ok (r', k') \<and> quiet k k'"
proof -
  let ?r = "r\<lparr>r_eax := 0, r_int_no := IRQCODE_SYSCALL\<rparr>"
  obtain q where "first_on_ring (ready (k_sched k)) (after_current (k_sched k)) q"
    using first_on_ring_exists [of "ready (k_sched k)"] assms(2,3) by blast
  from schedule_eq [OF assms(1) this, of ?r] obtain r' s' where "schedule ?r (k_sched k) = ok (r', s')" by blast
  then obtain k' where k': "irq_handler hw ?r k = ok (r', k')"
    by (simp add: irq_handler_def syscall_def syscall_numbers_def syscall_yield_def)
  then have "quiet k k'" by (rule irq_quiet) simp
  then show ?thesis using k' by (auto simp: yield_def invoke_syscall_def)
qed

text \<open>A turn of the other process: it counts, with wrap-around, and prints nothing.\<close>

lemma razzle_counts:
  assumes "table_ok (k_sched (sh_kernel st))" and "p < MAX_PROCESSES" and "ready (k_sched (sh_kernel st)) p"
    and "\<not> bit (lock2 st) 0"
  shows "\<exists>r' k'. razzle_turn hw env st = ok (r', st\<lparr>counter := counter st + 1, sh_kernel := k'\<rparr>) \<and>
    quiet (sh_kernel st) k'"
proof -
  obtain r' k' where y: "yield hw (env_regs env) (sh_kernel st) = ok (r', k')" "quiet (sh_kernel st) k'"
    using yield_returns [OF assms(1-3)] by blast
  have "razzle_round st = ok (st\<lparr>counter := counter st + 1\<rparr>)"
    using assms(4) by (simp add: razzle_round_def sl_acquire_free sl_release_acquire)
  then show ?thesis using y by (intro exI [of _ r'] exI [of _ k']) (simp add: razzle_turn_def)
qed

section \<open>A turn of the shell\<close>

text \<open>What the line becomes, and what is printed, for any key.\<close>

definition line_after :: "u8 \<Rightarrow> u8 list \<Rightarrow> u8 list" where
  "line_after c xs = (if c = 10 then [] else edit c xs)"

definition answer :: "shell_env \<Rightarrow> (u32 \<Rightarrow> u8 list) \<Rightarrow> kernel \<Rightarrow> u32 \<Rightarrow> u8 \<Rightarrow> u8 list \<Rightarrow> u8 list" where
  "answer env nm k n c xs =
     (if c = 10 then [10] @ reply env nm k n xs @ bytes_of ''you@razzle ~$ '' else echo c xs)"

text \<open>
  When a key can be answered: a backspace finds the line empty or the cursor inside its row, and an Enter
  finds a line without a zero byte that is no command or one whose reply can be printed.
\<close>

definition answerable :: "shell_env \<Rightarrow> (u32 \<Rightarrow> u8 list) \<Rightarrow> kernel \<Rightarrow> u8 \<Rightarrow> u8 list \<Rightarrow> bool" where
  "answerable env nm k c xs \<longleftrightarrow>
     (if c = 8 then xs = [] \<or> 0 < tcol (term_of (k_machine k)) \<and> tcol (term_of (k_machine k)) < WIDTH
      else if c = 10 then 0 \<notin> set xs \<and> can_reply env nm k xs
      else True)"

text \<open>Timer interrupts change neither; they switch processes, which the listing of processes does not show.\<close>

lemma answer_quiet:
  assumes "quiet k k'" and "same_listing (k_sched k) (k_sched k')" and "answerable env nm k c xs"
  shows "answerable env nm k' c xs" and "answer env nm k' n c xs = answer env nm k n c xs"
proof -
  note con = quiet_console [OF assms(1)]
  have "can_reply env nm k' xs = can_reply env nm k xs"
    using listing_names [OF assms(2), of "\<lambda>a. 8 \<notin> set (nm a)"]
    by (simp add: can_reply_def con same_listing_ok [OF assms(2)] listing_stands [OF assms(2)])
  then show "answerable env nm k' c xs" using assms(3) con(3) by (simp add: answerable_def del: tcol_term_of split: if_splits)
  show "answer env nm k' n c xs = answer env nm k n c xs"
    by (simp add: answer_def reply_def con listing_text [OF assms(2)])
qed

lemma key_answered:
  assumes "shell_ready hw st" and "unat (cmd_len st) < 2048" and "answerable env nm (sh_kernel st) c (line st)"
  shows "\<exists>st'. dazzle_key hw env c st = ok st' \<and> shell_ready hw st' \<and> line st' = line_after c (line st) \<and>
    com1_sent (io_log (console_of st')) =
      com1_sent (io_log (console_of st)) @ answer env nm (sh_kernel st) (counter st) c (line st) \<and>
    same_tables (sh_kernel st) (sh_kernel st')"
proof (cases "c = 10")
  case True
  then show ?thesis
    using key_enter [OF assms(1,2), of env nm] assms(3) by (auto simp: answerable_def line_after_def answer_def)
next
  case False
  have "0 < tcol (term_of (console_of st)) \<and> tcol (term_of (console_of st)) < WIDTH" if "c = 8" "cmd_len st \<noteq> 0"
    using assms(3) that unat_eq_zero [of "cmd_len st"] by (auto simp: answerable_def line_at_def)
  then obtain st' where "dazzle_key hw env c st = ok st'" "shell_ready hw st'" "line st' = edit c (line st)"
    "com1_sent (io_log (console_of st')) = com1_sent (io_log (console_of st)) @ echo c (line st)"
    "same_tables (sh_kernel st) (sh_kernel st')"
    using key_edits [OF assms(1,2) False, of env] by blast
  then show ?thesis using False by (simp add: line_after_def answer_def)
qed

lemma turn_answered:
  assumes "shell_ready hw st" and "unat (cmd_len st) < 2048" and "answerable env nm (sh_kernel st) (getc_result r) (line st)"
    and "kinv (sh_kernel st)" and "unat (current_pid (k_sched (sh_kernel st))) < MAX_PROCESSES"
  shows "\<exists>r' st'. dazzle_turn hw env r st = ok (r', st') \<and> shell_ready hw st' \<and>
    line st' = line_after (getc_result r) (line st) \<and>
    com1_sent (io_log (console_of st')) =
      com1_sent (io_log (console_of st)) @ answer env nm (sh_kernel st) (counter st) (getc_result r) (line st)"
proof -
  obtain st1 where st1: "dazzle_key hw env (getc_result r) st = ok st1" "shell_ready hw st1"
    "line st1 = line_after (getc_result r) (line st)" "same_tables (sh_kernel st) (sh_kernel st1)"
    "com1_sent (io_log (console_of st1)) =
      com1_sent (io_log (console_of st)) @ answer env nm (sh_kernel st) (counter st) (getc_result r) (line st)"
    using key_answered [OF assms(1-3)] by blast
  let ?s = "k_sched (sh_kernel st)"
  have s: "k_sched (sh_kernel st1) = ?s" using st1(4) by (simp add: same_tables_def)
  have "table_ok ?s" "ready ?s (unat (current_pid ?s))"
    using assms(4,5) by (auto simp: kinv_def procs_inv_def current_ok_def)
  then obtain r' k' where y: "yield hw (env_regs env) (sh_kernel st1) = ok (r', k')" "quiet (sh_kernel st1) k'"
    using yield_returns [of "sh_kernel st1" _ hw "env_regs env"] assms(5) s by metis
  then have "dazzle_turn hw env r st = ok (r', st1\<lparr>sh_kernel := k'\<rparr>)" by (simp add: dazzle_turn_def st1(1))
  then show ?thesis using st1 quiet_console [OF y(2)] by (simp add: shell_ready_def)
qed

section \<open>Properties\<close>

text \<open>
  C4: end to end. The shell calls \<open>getc\<close> with some line typed so far, shorter than
  its buffer, while the lock of the console is free; any interrupts happen while it waits; a key goes
  down, or a byte arrives at COM1, whose character is not 0. Within 128 timer interrupts the shell runs
  again with the character. If the lock it shares with the other process is free then (if that one
  was interrupted while it held the lock, the shell waits instead), and the key can be answered, then,
  whatever the counter, the shell's turn returns, the line is the old one with the key applied (emptied by
  Enter), and COM1 has got, after all that was sent before the key, exactly the echo of the key or, for
  Enter, the reply of the command and the prompt. Every key can be answered but these (\<open>answerable\<close>): a
  backspace with the cursor in the first column or behind the last one, unless the line is empty; Enter
  on a line with a zero byte; Enter on \<open>lspci\<close>, \<open>lsproc\<close> or \<open>cpuid\<close> when what it prints is not printable
  (\<open>can_reply\<close>).
\<close>

lemma typed_key_answered:
  assumes "reachable hw (sh_kernel st)" and "console_free hw (sh_kernel st)" and "unat (cmd_len st) < 2048"
    and "unat (current_pid (k_sched (sh_kernel st))) < MAX_PROCESSES"
    and "getc hw r (sh_kernel st) = ok (r1, k1)"
    and "(step_blocked hw (unat (current_pid (k_sched (sh_kernel st)))))\<^sup>*\<^sup>* k1 k2"
    and "types_key hw c r2 k2" and "irq_handler hw r2 k2 = ok (r3, k3)" and "c \<noteq> 0"
    and "answerable env nm k3 c (line st)" and "length rs = MAX_PROCESSES" and "\<not> bit l 0"
  shows "\<exists>n r4 k4 r5 st5. n \<le> MAX_PROCESSES \<and> pit_ticks hw (take n rs) (r3, k3) = ok (r4, k4) \<and>
    current_pid (k_sched k4) = current_pid (k_sched (sh_kernel st)) \<and>
    dazzle_turn hw env r4 (st\<lparr>sh_kernel := k4, counter := x, lock2 := l\<rparr>) = ok (r5, st5) \<and> shell_ready hw st5 \<and>
    line st5 = line_after c (line st) \<and>
    com1_sent (io_log (console_of st5)) = com1_sent (io_log (k_machine k2)) @ answer env nm k3 x c (line st)"
proof -
  let ?k = "sh_kernel st"
  have g: "irq_handler hw (r\<lparr>r_eax := 1, r_int_no := IRQCODE_SYSCALL\<rparr>) ?k = ok (r1, k1)"
    using assms(5) by (simp add: getc_def invoke_syscall_def)
  have "undisturbed hw ?k k1" using irq_undisturbed [OF g assms(2)] .
  then have u: "undisturbed hw ?k k2"
    using steps_undisturbed [OF assms(6)] by (simp add: undisturbed_def)
  obtain n r4 k4 where n: "n \<le> 128" "pit_ticks hw (take n rs) (r3, k3) = ok (r4, k4)" "reachable hw k4"
    "unat (current_pid (k_sched k4)) = unat (current_pid (k_sched ?k))" "getc_result r4 = c"
    "quiet k2 k3" "quiet k3 k4" "same_listing (k_sched k3) (k_sched k4)"
    using key_reaches [OF assms(1) refl assms(4-9,11)] by blast
  note quiet = quiet_trans [OF n(6,7)]
  let ?st = "st\<lparr>sh_kernel := k4, counter := x, lock2 := l\<rparr>"
  have "window (mem (k_machine k4)) command = window (sh_mem st) command"
    using u quiet_console(2) [OF quiet] by (intro window_cong) (simp add: undisturbed_def command_valid)
  then have l: "line ?st = line st" by (simp add: line_at_def)
  have ready: "shell_ready hw ?st"
    using assms(12) u quiet_console(1) [OF quiet] by (simp add: shell_ready_def undisturbed_def)
  note q = answer_quiet [OF n(7,8) assms(10)]
  have "answerable env nm (sh_kernel ?st) (getc_result r4) (line ?st)" using q(1) l n(5) by simp
  from turn_answered [OF ready _ this] obtain r5 st5 where "dazzle_turn hw env r4 ?st = ok (r5, st5)" "shell_ready hw st5"
    "line st5 = line_after c (line st)"
    "com1_sent (io_log (console_of st5)) = com1_sent (io_log (k_machine k4)) @ answer env nm k4 x c (line st)"
    using assms(3,4) n(4,5) l reachable_kinv [OF n(3)] by auto
  then show ?thesis using n q(2) quiet_console(4) [OF quiet] unsigned_word_eqI [OF n(4)] by auto
qed

definition letter_hw :: hw where
  "letter_hw log port = (if port = 0x3F8 then 97 else 0xFF)"

lemma letter_received:
  "serial_rx letter_hw log = ok (97, Inb 0x3F8 97 # Inb 0x3FD 0xFF # log)"
  by (subst serial_rx_step) (simp add: rx_ready_def port_byte_def letter_hw_def inb_def bit_simps)

lemma letter_hw_live: "uart_live letter_hw"
proof -
  have "tx_ready letter_hw log" for log by (simp add: tx_ready_def port_byte_def letter_hw_def bit_simps)
  then show ?thesis by (simp add: uart_live_def)
qed

lemma typed_key_answered_witness:
  "\<exists>st k1 r4 k4 r5 st5. reachable letter_hw (sh_kernel st) \<and> shell_ready letter_hw st \<and>
    kstep letter_hw (sh_kernel st) k1 \<and>
    dazzle_turn letter_hw demo_env r4 (st\<lparr>sh_kernel := k4\<rparr>) = ok (r5, st5) \<and> line st5 = [97] \<and>
    com1_sent (io_log (console_of st5)) = com1_sent (io_log (k_machine k1)) @ [97]"
proof -
  obtain k0 m k p q where k: "k_machine k0 = fresh_machine\<lparr>mem := m\<rparr>" "kstep letter_hw k0 k" "reachable letter_hw k"
      "unat (current_pid (k_sched k)) = p" "p < 128" "q < 128" "q \<noteq> p" "ready (k_sched k) q"
    using running_and_other by blast
  let ?r = "demo_regs\<lparr>r_eax := 1, r_int_no := IRQCODE_SYSCALL\<rparr>"
  have "console_free letter_hw k0"
    using k(1) letter_hw_live by (simp add: console_free_def console_inv_def vga_inv_def in_step_def fresh_machine_def)
  moreover obtain r0 r0' where "irq_handler letter_hw r0 k0 = ok (r0', k)" using k(2) by (auto elim: kstepE)
  ultimately have free: "console_free letter_hw k" using irq_undisturbed by (simp add: undisturbed_def)
  let ?st = "demo_shell\<lparr>sh_kernel := k\<rparr>"
  have st: "shell_ready letter_hw ?st" "unat (cmd_len ?st) < 2048" "line ?st = []" "console_free letter_hw (sh_kernel ?st)"
    using free by (simp_all add: shell_ready_def demo_shell_def line_at_def)
  have call: "r_int_no ?r = IRQCODE_SYSCALL" "r_eax ?r = 1" by simp_all
  obtain r1 k1 where k1: "irq_handler letter_hw ?r k = ok (r1, k1)" "kstep letter_hw k k1"
    using getc_step [OF reachable_kinv [OF k(3)] k(4-8) call] by metis
  have get: "getc letter_hw demo_regs k = ok (r1, k1)" using k1(1) by (simp add: getc_def invoke_syscall_def)
  have inv: "table_ok (k_sched k1)" "waiters_ok (k_ps2 k1)"
    using kstep_kinv [OF k1(2) reachable_kinv [OF k(3)]] by (simp_all add: kinv_def procs_inv_def)
  let ?r2 = "demo_regs\<lparr>r_int_no := IRQCODE_COM1\<rparr>"
  have typed: "types_key letter_hw 97 ?r2 k1" by (simp add: types_key_def letter_received com1_char_def)
  obtain r3 k3 where k3: "irq_handler letter_hw ?r2 k1 = ok (r3, k3)"
    using handle_keypress_char_eq [OF inv, of 97] by (simp add: irq_handler_def com1_handler_def letter_received)
  have "answerable demo_env (\<lambda>_. []) k3 97 (line ?st)" "(97 :: u8) \<noteq> 0" "length (replicate 128 demo_regs) = 128"
    "\<not> bit (0 :: u32) 0"
    by (simp_all add: answerable_def)
  from typed_key_answered [of letter_hw ?st demo_regs r1 k1 k1 97 ?r2 r3 k3 demo_env "\<lambda>_. []" "replicate 128 demo_regs" 0 7,
      OF _ st(4,2) _ _ rtranclp.rtrancl_refl typed k3 this(2,1,3,4)] k(3-5) get
  obtain r4 k4 r5 st5 where t: "dazzle_turn letter_hw demo_env r4 (?st\<lparr>sh_kernel := k4, counter := 7, lock2 := 0\<rparr>) = ok (r5, st5)"
      "line st5 = line_after 97 (line ?st)"
      "com1_sent (io_log (console_of st5)) = com1_sent (io_log (k_machine k1)) @ answer demo_env (\<lambda>_. []) k3 7 97 (line ?st)"
    by auto
  have "?st\<lparr>sh_kernel := k4, counter := 7, lock2 := 0\<rparr> = ?st\<lparr>sh_kernel := k4\<rparr>" by (simp add: demo_shell_def)
  then have "reachable letter_hw (sh_kernel ?st) \<and> shell_ready letter_hw ?st \<and>
      kstep letter_hw (sh_kernel ?st) k1 \<and> dazzle_turn letter_hw demo_env r4 (?st\<lparr>sh_kernel := k4\<rparr>) = ok (r5, st5) \<and> line st5 = [97] \<and>
      com1_sent (io_log (console_of st5)) = com1_sent (io_log (k_machine k1)) @ [97]"
    using t st k(3) k1(2) by (simp add: line_after_def edit_def answer_def echo_def)
  then show ?thesis by blast
qed

end
