(* ===== verification/Locking.thy ===== *)
theory Locking
  imports Shell_Session
begin

text \<open>
  The two processes share \<open>counter\<close> and the spin lock \<open>lock2\<close>, and the timer may switch between any two
  instructions. Here the processes take turns instruction by instruction: an attempt of \<open>sl_acquire\<close>, the
  load and the store of \<open>counter++\<close>, the release. The lock makes that as good as whole rounds, which is
  how \<open>Shell\<close> has them.
\<close>

section \<open>Instructions\<close>

datatype pc = At_acquire | Inside | Loaded u32 | At_release

text \<open>One instruction of the loop of \<open>test_razzle\<close>; a failed attempt to take the lock is tried again.\<close>

fun razzle_instruction :: "pc \<Rightarrow> shell \<Rightarrow> pc \<times> shell" where
  "razzle_instruction At_acquire st =
     (case lock_bts (lock2 st) of (cf, l) \<Rightarrow> (if cf then At_acquire else Inside, st\<lparr>lock2 := l\<rparr>))"
| "razzle_instruction Inside st = (Loaded (counter st), st)"
| "razzle_instruction (Loaded v) st = (At_release, st\<lparr>counter := v + 1\<rparr>)"
| "razzle_instruction At_release st = (At_acquire, st\<lparr>lock2 := sl_release (lock2 st)\<rparr>)"

text \<open>Run without a break, four of them are a round.\<close>

lemma razzle_round_instructions:
  assumes "\<not> bit (lock2 st) 0"
  shows "\<exists>st'. ((\<lambda>(c, st). razzle_instruction c st) ^^ 4) (At_acquire, st) = (At_acquire, st') \<and>
    razzle_round st = ok st'"
  using assms
  by (simp add: numeral_eq_Suc lock_bts_def razzle_round_def sl_acquire_free)

section \<open>Interleaving\<close>

record threads =
  shared :: shell
  pcs :: "nat \<Rightarrow> pc"
  rounds :: nat

text \<open>
  The processes in \<open>R\<close> run the loop of \<open>test_razzle\<close>. The others take and release the lock in the same
  way and may do anything in between that leaves the lock and the counter alone, as the shell does
  (\<open>key_action_shared\<close>). An interrupt changes the kernel only. \<open>rounds\<close> counts the stores to \<open>counter\<close>.
\<close>

inductive turn :: "nat set \<Rightarrow> threads \<Rightarrow> threads \<Rightarrow> bool" for R where
  count: "p \<in> R \<Longrightarrow> razzle_instruction (pcs t p) (shared t) = (c, st) \<Longrightarrow>
    turn R t (t\<lparr>shared := st, pcs := (pcs t)(p := c),
      rounds := (case pcs t p of Loaded v \<Rightarrow> Suc (rounds t) | _ \<Rightarrow> rounds t)\<rparr>)"
| lock: "p \<notin> R \<Longrightarrow> pcs t p \<in> {At_acquire, At_release} \<Longrightarrow>
    razzle_instruction (pcs t p) (shared t) = (c, st) \<Longrightarrow>
    turn R t (t\<lparr>shared := st, pcs := (pcs t)(p := c)\<rparr>)"
| act: "p \<notin> R \<Longrightarrow> pcs t p = Inside \<Longrightarrow> lock2 st = lock2 (shared t) \<Longrightarrow> counter st = counter (shared t) \<Longrightarrow>
    c \<in> {Inside, At_release} \<Longrightarrow> turn R t (t\<lparr>shared := st, pcs := (pcs t)(p := c)\<rparr>)"
| interrupt: "turn R t (t\<lparr>shared := (shared t)\<lparr>sh_kernel := k\<rparr>\<rparr>)"

lemma on_kernel_shared: "on_kernel f st = ok st' \<Longrightarrow> lock2 st' = lock2 st \<and> counter st' = counter st"
  by (auto simp: on_kernel_def bind_res_eq_ok)

lemma key_action_shared:
  assumes "key_action hw env c st = ok st'"
  shows "lock2 st' = lock2 st" and "counter st' = counter st"
  using assms
  by (auto simp: key_action_def bind_res_eq_ok with_mem_def split: if_splits dest!: on_kernel_shared)

abbreviation holders :: "threads \<Rightarrow> nat set" where
  "holders t \<equiv> {p. pcs t p \<noteq> At_acquire}"

definition serial :: "u32 \<Rightarrow> threads \<Rightarrow> bool" where
  "serial n t \<longleftrightarrow> (if bit (lock2 (shared t)) 0 then \<exists>p. holders t = {p} else holders t = {}) \<and>
     (\<forall>p v. pcs t p = Loaded v \<longrightarrow> v = n + of_nat (rounds t)) \<and> counter (shared t) = n + of_nat (rounds t)"

lemma serial_only:
  assumes "serial n t" and "pcs t p \<noteq> At_acquire"
  shows "holders t = {p}" and "bit (lock2 (shared t)) 0"
proof -
  have p: "p \<in> holders t" using assms(2) by simp
  then show "bit (lock2 (shared t)) 0" using assms(1) by (auto simp: serial_def split: if_splits)
  then obtain q where "holders t = {q}" using assms(1) by (auto simp: serial_def)
  then show "holders t = {p}" using p by (simp only: singleton_iff)
qed

lemma serial_loaded: "serial n t \<Longrightarrow> pcs t p = Loaded v \<Longrightarrow> v = counter (shared t)"
  by (simp add: serial_def)

lemma serial_cong:
  assumes "serial n t" and "bit (lock2 st) 0 = bit (lock2 (shared t)) 0" and "counter st = counter (shared t)"
  shows "serial n (t\<lparr>shared := st\<rparr>)"
  using assms unfolding serial_def by simp

lemma serial_take:
  assumes "serial n t" and "pcs t p = At_acquire" and "razzle_instruction At_acquire (shared t) = (c, st)"
  shows "serial n (t\<lparr>shared := st, pcs := (pcs t)(p := c)\<rparr>)"
proof (cases "bit (lock2 (shared t)) 0")
  case True
  then have "c = At_acquire" "lock2 st = set_bit 0 (lock2 (shared t))" "counter st = counter (shared t)"
    using assms(3) by (auto simp: lock_bts_def)
  then show ?thesis using serial_cong [OF assms(1), of st] assms(2) True by (simp add: bit_set_bit_iff fun_upd_idem)
next
  case False
  then have "c = Inside" "st = (shared t)\<lparr>lock2 := set_bit 0 (lock2 (shared t))\<rparr>"
    using assms(3) by (auto simp: lock_bts_def)
  moreover have "holders t = {}" using assms(1) False by (simp add: serial_def)
  then have "{q. ((pcs t)(p := Inside)) q \<noteq> At_acquire} = {p}" by auto
  ultimately show ?thesis using assms(1) by (simp add: serial_def bit_set_bit_iff)
qed

lemma serial_release:
  assumes "serial n t" and "pcs t p = At_release"
  shows "serial n (t\<lparr>shared := (shared t)\<lparr>lock2 := sl_release (lock2 (shared t))\<rparr>, pcs := (pcs t)(p := At_acquire)\<rparr>)"
proof -
  have "holders t = {p}" using serial_only(1) [OF assms(1)] assms(2) by simp
  then have "{q. ((pcs t)(p := At_acquire)) q \<noteq> At_acquire} = {}" by auto
  then show ?thesis using assms by (simp add: serial_def sl_release_def bit_unset_bit_iff)
qed

lemma serial_inside:
  assumes "serial n t" and "pcs t p \<noteq> At_acquire" and "c \<noteq> At_acquire" and "lock2 st = lock2 (shared t)"
    and "counter st = n + of_nat m" and "\<And>v. c = Loaded v \<Longrightarrow> v = counter st"
  shows "serial n (t\<lparr>shared := st, pcs := (pcs t)(p := c), rounds := m\<rparr>)"
proof -
  note only = serial_only [OF assms(1,2)]
  have "{q. ((pcs t)(p := c)) q \<noteq> At_acquire} = {p}" using only(1) assms(3) by auto
  moreover have "((pcs t)(p := c)) q = Loaded v \<Longrightarrow> v = counter st" for q v
    using only(1) assms(6) by (cases "q = p") auto
  ultimately show ?thesis using only(2) assms(4,5) by (simp add: serial_def)
qed

lemma turn_serial:
  assumes "turn R t t'" and "serial n t"
  shows "serial n t'"
  using assms(1)
proof cases
  case (count p c st)
  have n: "counter (shared t) = n + of_nat (rounds t)" using assms(2) by (simp add: serial_def)
  show ?thesis
  proof (cases "pcs t p")
    case At_acquire
    then show ?thesis using serial_take [OF assms(2)] count by simp
  next
    case Inside
    then show ?thesis using serial_inside [OF assms(2), of p c st "rounds t"] n count by auto
  next
    case (Loaded v)
    then have "v = counter (shared t)" by (rule serial_loaded [OF assms(2)])
    then show ?thesis using serial_inside [OF assms(2), of p c st "Suc (rounds t)"] Loaded n count by auto
  next
    case At_release
    then show ?thesis using serial_release [OF assms(2)] count by auto
  qed
next
  case (lock p c st)
  then consider "pcs t p = At_acquire" | "pcs t p = At_release" by auto
  then show ?thesis
  proof cases
    case 1
    then show ?thesis using serial_take [OF assms(2) 1] lock by simp
  next
    case 2
    then have "c = At_acquire" "st = (shared t)\<lparr>lock2 := sl_release (lock2 (shared t))\<rparr>" using lock by simp_all
    then show ?thesis using serial_release [OF assms(2) 2] lock(1) by simp
  qed
next
  case (act p st c)
  have n: "counter (shared t) = n + of_nat (rounds t)" using assms(2) by (simp add: serial_def)
  have "serial n (t\<lparr>shared := st, pcs := (pcs t)(p := c), rounds := rounds t\<rparr>)"
    by (rule serial_inside [OF assms(2)]) (use act(3-6) n in auto)
  then show ?thesis using act(1) by simp
next
  case (interrupt k)
  then show ?thesis using assms(2) by (simp add: serial_def)
qed

lemma turns_serial: "(turn R)\<^sup>*\<^sup>* t t' \<Longrightarrow> serial n t \<Longrightarrow> serial n t'"
  by (induction rule: rtranclp_induct) (auto intro: turn_serial)

lemma rounds_in_a_row:
  assumes "\<not> bit (lock2 st) 0"
  shows "fold_res (\<lambda>_. razzle_round) xs st = ok (st\<lparr>counter := counter st + of_nat (length xs)\<rparr>)"
  using assms
proof (induction xs arbitrary: st)
  case (Cons x xs)
  have "razzle_round st = ok (st\<lparr>counter := counter st + 1\<rparr>)"
    using Cons.prems by (simp add: razzle_round_def sl_acquire_free sl_release_acquire)
  then show ?case using Cons by (simp add: add_ac)
qed simp

section \<open>A run\<close>

text \<open>Process 0 counts; process 1 finds the lock taken after the load and tries again.\<close>

definition idle_threads :: threads where
  "idle_threads = \<lparr>shared = demo_shell, pcs = \<lambda>_. At_acquire, rounds = 0\<rparr>"

section \<open>Properties\<close>

text \<open>
  C10: the spin lock serialises the processes. However the timer switches between their instructions, at
  most one of them is between \<open>sl_acquire\<close> and \<open>sl_release\<close>, exactly when bit 0 of the lock is set, and no
  increment is lost: the counter is what the same number of whole rounds of \<open>test_razzle\<close> would give.
\<close>

lemma lock_serialises:
  assumes "(turn R)\<^sup>*\<^sup>* t t'" and "holders t = {}" and "\<not> bit (lock2 (shared t)) 0" and "rounds t = 0"
  shows "(if bit (lock2 (shared t')) 0 then \<exists>p. holders t' = {p} else holders t' = {}) \<and>
    (\<exists>st. fold_res (\<lambda>_. razzle_round) [0..<rounds t'] (shared t) = ok st \<and> counter st = counter (shared t'))"
proof -
  have "serial (counter (shared t)) t" using assms(2-4) by (auto simp: serial_def)
  with assms(1) have "serial (counter (shared t)) t'" by (rule turns_serial)
  then show ?thesis using rounds_in_a_row [OF assms(3), of "[0..<rounds t']"] by (simp add: serial_def)
qed

lemma lock_serialises_witness:
  "\<exists>t. (turn {0})\<^sup>*\<^sup>* idle_threads t \<and> holders t = {0} \<and> counter (shared t) = 8 \<and> rounds t = 1 \<and>
    (\<exists>st. fold_res (\<lambda>_. razzle_round) [0..<1] (shared idle_threads) = ok st \<and> counter st = 8)"
proof -
  define t1 where "t1 = idle_threads\<lparr>shared := (shared idle_threads)\<lparr>lock2 := 1\<rparr>, pcs := (\<lambda>_. At_acquire)(0 := Inside)\<rparr>"
  define t2 where "t2 = t1\<lparr>pcs := (\<lambda>_. At_acquire)(0 := Loaded 7)\<rparr>"
  define t3 where "t3 = t2\<lparr>shared := (shared idle_threads)\<lparr>lock2 := 1, counter := 8\<rparr>, pcs := (\<lambda>_. At_acquire)(0 := At_release), rounds := 1\<rparr>"
  have s1: "turn {0} idle_threads t1"
    using turn.count [of 0 "{0}" idle_threads Inside "(shared idle_threads)\<lparr>lock2 := 1\<rparr>"]
    by (simp add: t1_def idle_threads_def demo_shell_def lock_bts_def set_bit_eq_or)
  have s2: "turn {0} t1 t2"
    using turn.count [of 0 "{0}" t1 "Loaded 7" "shared t1"] by (simp add: t1_def t2_def idle_threads_def demo_shell_def)
  have w: "turn {0} t2 t2"
    using turn.lock [of 1 "{0}" t2 At_acquire "shared t2"]
    by (simp add: t1_def t2_def idle_threads_def demo_shell_def lock_bts_def set_bit_eq_or fun_upd_idem fun_upd_twist)
  have s3: "turn {0} t2 t3"
    using turn.count [of 0 "{0}" t2 At_release "(shared idle_threads)\<lparr>lock2 := 1, counter := 8\<rparr>"]
    by (simp add: t1_def t2_def t3_def idle_threads_def demo_shell_def)
  have run: "(turn {0})\<^sup>*\<^sup>* idle_threads t3"
    using s1 s2 w s3
    by (meson converse_rtranclp_into_rtranclp rtranclp.rtrancl_refl)
  have "holders t3 = {0}" "counter (shared t3) = 8" "rounds t3 = 1"
    by (auto simp: t1_def t2_def t3_def idle_threads_def demo_shell_def)
  then show ?thesis
    using lock_serialises [OF run] run by (auto simp: idle_threads_def demo_shell_def)
qed

end
