(* ===== verification/Spec2Isabelle.thy ===== *)
theory Spec2Isabelle
  imports Boot_Listings Fairness Nqfs_List Typing Locking
begin

text \<open>
  RAZZLE, a kernel for i386 in C: a verification development.

  \<^bold>\<open>The program.\<close> \<open>kernel_main\<close> sets up the devices and the processor's tables, starts two processes
  (\<open>test_razzle\<close>, which counts, and \<open>test_dazzle\<close>, a shell) and then idles; from there on everything
  happens in interrupts. The assembly stubs push the registers and call \<open>irq_handler\<close>: the timer
  switches processes, the keyboard and COM1 deliver characters to processes that wait in \<open>getc\<close>,
  interrupt 128 is the system call. Output goes through \<open>printf\<close> to the text screen and to COM1.

  \<^bold>\<open>The model.\<close> Definitions carry the names of the C functions and follow their statements. A
  function that may fail to return or may leave an object it points into has the type \<open>'a res\<close> of
  \<open>Prelude\<close>: \<open>ok x\<close>, \<open>hang\<close> or \<open>fail e\<close>. Integers are words of their width. Pointers go into objects
  (\<open>Memory\<close>): physical memory, the screen buffer, the RAM disk, local arrays, constant strings. The
  devices behind the ports are an argument \<open>hw\<close>: a function of the port and of the history of all
  accesses so far, and that history is part of the state (\<open>Ports\<close>).

  \<^bold>\<open>The theories.\<close>
  \<^item> \<open>Prelude\<close>, \<open>Memory\<close>, \<open>Ports\<close>: outcomes and loops; objects and memory/memory.c; asm/asm.h,
    asm/asm.c, spin_lock.h. \<open>Layout\<close>: integers inside byte arrays.
  \<^item> \<open>Sink\<close> (locales of character devices), \<open>Serial\<close> (drivers/serial), \<open>Vga\<close> (drivers/vga),
    \<open>Terminal\<close> (the terminal that the driver refines), \<open>Io\<close> (io/io.c, and the console as an
    instance of the locales), \<open>Effects\<close> and \<open>Live\<close> (what printing leaves alone, and that it returns).
  \<^item> \<open>Scheduler\<close> (both scheduler.c, \<open>struct regs\<close>) and \<open>Scheduling\<close> (its guarantees); \<open>Ps2\<close>
    (drivers/ps2); \<open>Syscall\<close> (syscall/syscall.c) and \<open>Irq\<close> (arch/i386/irq.c); \<open>Interrupts\<close> (the kernel
    as a transition system, its invariant), \<open>Delivery\<close> (what follows from it) and \<open>Fairness\<close> (no process
    starves).
  \<^item> \<open>Pci\<close> (pci/pci.c), \<open>Pci_Names\<close> (the search of the names, line by line), \<open>Pci_Ids\<close> (the beginning
    of supp/pci_supp.c), \<open>Pci_Lookup\<close> (searches in it), \<open>Pci_Enumerate\<close> (the device in a slot, from
    configuration space and the table) and \<open>Pci_Bus\<close> (the enumeration of all slots).
  \<^item> \<open>Descriptors\<close> (arch/i386/gdt.c, idt.c, \<open>init_irq\<close>, init.c); \<open>Acpi\<close> (acpi/rsdp.c).
  \<^item> \<open>Ramblk\<close> (drivers/blk), with the locale \<open>block_device\<close>; \<open>Nqfs\<close> (drivers/fs/nqfs). About its files,
    over the locale and instantiated with the RAM disk: \<open>Nqfs_Files\<close> (the write and the read loop),
    \<open>Nqfs_Store\<close> (the chain of blocks, one call of write and read), \<open>Nqfs_Create\<close> (the search for an inode),
    \<open>Nqfs_Spec\<close> (the abstract files and the refinement), \<open>Nqfs_Limits\<close> (what the code cannot do),
    \<open>Nqfs_List\<close> (the directory as a list of names, which \<open>NQFS_DEBUG_list_files\<close> prints).
  \<^item> \<open>Shell\<close> (supp/test_processes.c and the user side of the system calls), \<open>Shell_Replies\<close> (one message of
    a process), \<open>Shell_Listings\<close> (lspci and lsproc, on any console that
    satisfies the locale \<open>printing\<close>), \<open>Shell_Session\<close> (a command from its first key to the
    next prompt), \<open>Typing\<close> (\<open>yield\<close>, \<open>getc\<close> and the turns of both processes; from a key to its answer),
    \<open>Locking\<close> (the processes interleaved instruction by instruction, and their lock).
  \<^item> \<open>Kernel\<close> (kernel.c), \<open>Boot\<close> (what the boot and the panic do), \<open>Boot_Listings\<close> (what the shell's
    listings find after it).

  \<^bold>\<open>What is shown.\<close>
  \<^item> Memory and output: \<open>memcpy\<close>, \<open>streq\<close> and \<open>memseq\<close> exactly; \<open>printf\<close> sends the formatted text to
    COM1 and to the terminal; the screen driver refines a terminal for all texts without backspaces;
    what goes wrong with backspaces at the left edge, negative numbers, trailing zero digits,
    clearing a scrolled screen, and a lock that is held.
  \<^item> Processes: the search is round robin, every ready process gets its turn within 128 timer
    interrupts whatever other interrupts and system calls come between them; a switch preserves what a process sees of its registers, address spaces are disjoint; the spin lock keeps
    the processes apart however they are interleaved.
  \<^item> Interrupts: one invariant of all reachable states ties the process table to the list of processes
    that wait for a key; a character wakes exactly those and reaches the register that \<open>getc\<close> reads;
    no interrupt takes the kernel outside its arrays (left out are \<open>powerctl\<close>, which prints, and \<open>lspci\<close> and
    \<open>lsproc\<close>, which write where the caller says); the only ready process stops the machine with \<open>getc\<close>.
  \<^item> Boot: \<open>kernel_main\<close> ends in a reachable state with exactly the two processes ready and the vector
    table filled, and it does end, with its devices listed, on a machine on which at most 256 of them
    are found; on the tables it leaves the shell's \<open>lspci\<close> and \<open>lsproc\<close> print the devices found and the two
    processes. A fault before any process exists is reported in full, unless the lock of \<open>printf\<close> is held.
  \<^item> Storage: the RAM disk holds what was written, for exactly the sectors its checks let through. The
    file system refines a map from inodes to byte strings: \<open>NQFS_create_file\<close> adds an empty file,
    \<open>NQFS_write_bytes\<close> appends, over any number of blocks, and \<open>NQFS_read_bytes\<close> gives the first bytes;
    no other file and no other free block changes. The directory is the list of the names in the order
    of creation, and it is what the listing prints. Not so after a last block that is exactly full,
    where the appended bytes are lost, and a full disk.
  \<^item> PCI: the search of the bytes is the search of the lines, and may give the name of another vendor's
    device; the enumeration lists exactly the devices that answer in its slots, and writes past its list
    when they are more than 256, for which ten on bus 7 are enough.
  \<^item> Shell: keys edit the line and are echoed; every command, the listings included, and Enter print its
    reply and the prompt; the 2049th character is written outside the buffer. End to end: a key typed while the shell waits in
    \<open>getc\<close> is answered within 128 timer interrupts, whatever interrupts came before it, if the lock the
    two processes share is free when the shell runs again.

  \<^bold>\<open>Loops.\<close> A loop with a bound in the code is \<open>for_range\<close> or \<open>for_exit\<close>, or a function that
  terminates by a measure. A loop without one (polling a port, a held lock, the search for a process,
  a string without end) is a partial function with \<open>hang\<close> for not returning; that it returns is proved
  where it is claimed, from what the hardware is documented to do (\<open>uart_live\<close>: the UART becomes ready
  after finitely many reads). No fuel is used.

  \<^bold>\<open>Assumptions of the model.\<close> Interrupt handlers run to their end (the gates disable interrupts). A
  process runs from one system call to the next in one turn (\<open>dazzle_turn\<close>, \<open>razzle_turn\<close>); any interrupts
  may come between two turns of the shell (\<open>typed_key_answered\<close>). For the counter the two share,
  \<open>Locking\<close> proves that turns cut short by the timer amount to whole ones; elsewhere the model of the
  shell does not interleave with the other process inside one round, which its lock serialises; a shell
  that finds the lock held because the other process was interrupted inside its section waits for it, and
  what it does then is claimed only once it has the lock. The section in which that process sets the
  counter to 0, before its loop, is \<open>razzle_start\<close> and no part of the interleaving.
  \<open>lspci\<close> and \<open>lsproc\<close> write to typed memory of the caller, apart from the kernel's own arrays.

  A PCI bus is a function from configuration addresses to words that does not change during the
  enumeration (\<open>answers\<close>). Of the table of names the theorems ask that its lines are readable (\<open>good_line\<close>,
  \<open>good_table\<close>): no line break or backspace inside, and no tab and fewer than 128 characters in the name of
  a vendor or a device. The text of a command's reply is a specification (\<open>reply\<close>, \<open>can_reply\<close>); the
  theorems about the shell's routines say that they print it.

  \<^bold>\<open>Not modelled.\<close> The assembly (isr.s, irq.s, loader.s). Of the inline assembly of a system call the model has the number in
  \<open>eax\<close>, the interrupt and the register the result is read from.
  The registry of block devices (\<open>BLK__init\<close>, \<open>BLK__register_device\<close>, \<open>BLK__get_block_devices\<close>), declared
  in blk.h without code in the repository, is a parameter. The generated array of PCI names has 125,000
  lines of C, 39,436 lines of text, of which \<open>Pci_Ids\<close> has the first 2,364 and 789, and those six that are
  longer than 127 characters. What is shown about the table holds for any further lines that are
  readable in the sense above, as the lines of the file are; it is proved here for the ones that are
  written out. The statements of rsdp.c after its endless loop are unreachable.
\<close>

end
